(* ===== verification/Prelude.thy ===== *)
theory Prelude
  imports Main "HOL-Library.Word"
begin

unbundle bit_operations_syntax

text \<open>
  Shared vocabulary of the Cinux development: the machine integer types, the
  error universe of \<^verbatim>\<open>base/include/cinux/result.hpp\<close>, the arithmetic verbs of
  \<^verbatim>\<open>base/include/cinux/math.hpp\<close>, the word-mask vocabulary of
  \<^verbatim>\<open>base/include/cinux/bit_ops/bitmask.hpp\<close>, and the generic lemmas on lists,
  \<open>find\<close> and words on which the component theories rest.
\<close>

section \<open>Types\<close>

type_synonym u8 = "8 word"
type_synonym u16 = "16 word"
type_synonym u32 = "32 word"
type_synonym u64 = "64 word"

text \<open>The error codes, in the order of the enumeration (its sentinel \<^verbatim>\<open>kCount\<close> is
  never a value).\<close>

datatype KernelError =
    kOk
  | kTooManyOpenFiles
  | kOutOfMemory
  | kInvalidArgument
  | kNotFound
  | kIOError
  | kWouldBlock
  | kAlreadyExists
  | kNotADirectory
  | kIsADirectory
  | kDirectoryNotEmpty
  | kNotSupported
  | kInterrupted
  | kBrokenPipe
  | kNotConnected
  | kConnectionRefused
  | kConnectionReset

text \<open>\<^verbatim>\<open>Result<T>\<close>: \<open>Inl\<close> carries the error, \<open>Inr\<close> the value.\<close>

type_synonym 'a result = "KernelError + 'a"

text \<open>
  \<^verbatim>\<open>safety::Check\<close> parks the machine when its condition fails. An operation that
  contains a \<^verbatim>\<open>Check\<close> has an \<open>option\<close> result whose \<open>None\<close> is that panic.
\<close>

definition Check :: "bool \<Rightarrow> 'a option \<Rightarrow> 'a option" where
  "Check c k = (if c then k else None)"

lemma Check_simps [simp]: "Check True k = k" "Check False k = None"
  by (simp_all add: Check_def)

lemma Check_eq_Some [simp]: "Check c k = Some x \<longleftrightarrow> c \<and> k = Some x"
  by (simp add: Check_def)

section \<open>Lists\<close>

named_theorems index_simps \<open>facts about scanning an index range\<close>

lemma find_upt_Some_iff [index_simps]:
  "find P [i..<n] = Some k \<longleftrightarrow> i \<le> k \<and> k < n \<and> P k \<and> (\<forall>j. i \<le> j \<and> j < k \<longrightarrow> \<not> P j)"
proof
  assume "find P [i..<n] = Some k"
  then obtain m where m: "m < n - i" "P ([i..<n] ! m)" "k = [i..<n] ! m"
    "\<forall>j<m. \<not> P ([i..<n] ! j)"
    by (auto simp: find_Some_iff)
  then have "k = i + m" by simp
  moreover have "\<not> P j" if "i \<le> j" "j < k" for j
    using m(4)[rule_format, of "j - i"] that \<open>k = i + m\<close> m(1) by simp
  ultimately show "i \<le> k \<and> k < n \<and> P k \<and> (\<forall>j. i \<le> j \<and> j < k \<longrightarrow> \<not> P j)"
    using m by simp
next
  assume *: "i \<le> k \<and> k < n \<and> P k \<and> (\<forall>j. i \<le> j \<and> j < k \<longrightarrow> \<not> P j)"
  then show "find P [i..<n] = Some k"
    unfolding find_Some_iff by (intro exI[of _ "k - i"]) auto
qed

lemma find_upt_None_iff [index_simps]:
  "find P [i..<n] = None \<longleftrightarrow> (\<forall>j. i \<le> j \<and> j < n \<longrightarrow> \<not> P j)"
  by (auto simp: find_None_iff)

section \<open>Words\<close>

lemma unat_less_width: "unat (w :: 'a::len word) < 2 ^ LENGTH('a)"
  by (rule unsigned_less)

lemma u64_bound: "unat (w :: u64) < 18446744073709551616"
  using unat_less_width[of w] by simp

lemma u64_one_le: "(1 :: u64) \<le> w \<longleftrightarrow> w \<noteq> 0"
  by (simp add: word_le_nat_alt unat_eq_0 Suc_le_eq unat_gt_0)

end
