(* ===== verification/Words.thy ===== *)
theory Words
  imports Prelude
begin

unbundle bit_operations_syntax

text \<open>
  Word-level vocabulary: the arithmetic verbs of \<^verbatim>\<open>base/include/cinux/math.hpp\<close> on
  \<^verbatim>\<open>unsigned long\<close> (64-bit, wrapping) and the field operations of
  \<^verbatim>\<open>base/include/cinux/bit_ops/bitmask.hpp\<close>. The lemmas read each verb back as
  \<open>nat\<close> arithmetic where it does not wrap, and as a statement about single bits.
\<close>

section \<open>Arithmetic verbs\<close>

definition math_Min :: "u64 \<Rightarrow> u64 \<Rightarrow> u64" where
  "math_Min left right = (if left < right then left else right)"

definition math_Max :: "u64 \<Rightarrow> u64 \<Rightarrow> u64" where
  "math_Max left right = (if left > right then left else right)"

definition math_Clamp :: "u64 \<Rightarrow> u64 \<Rightarrow> u64 \<Rightarrow> u64" where
  "math_Clamp value lo hi = math_Min (math_Max value lo) hi"

definition math_Floor :: "u64 \<Rightarrow> u64 \<Rightarrow> u64" where
  "math_Floor value unit = value div unit"

definition math_Ceil :: "u64 \<Rightarrow> u64 \<Rightarrow> u64" where
  "math_Ceil value unit = (value + unit - 1) div unit"

definition math_Span :: "u64 \<Rightarrow> u64 \<Rightarrow> u64 \<Rightarrow> u64" where
  "math_Span lo hi unit =
     (if hi > lo then math_Ceil hi unit - math_Floor lo unit else 0)"

definition math_AlignUp :: "u64 \<Rightarrow> u64 \<Rightarrow> u64" where
  "math_AlignUp value unit = math_Ceil value unit * unit"

definition math_AlignDown :: "u64 \<Rightarrow> u64 \<Rightarrow> u64" where
  "math_AlignDown value unit = math_Floor value unit * unit"

lemma math_Min_min [simp]: "math_Min a b = min a b"
  by (auto simp: math_Min_def min_def)

lemma math_Max_max [simp]: "math_Max a b = max a b"
  by (auto simp: math_Max_def max_def)

lemma unat_math_Floor: "unat (math_Floor v u) = unat v div unat u"
  by (simp add: math_Floor_def unat_div_distrib)

lemma unat_math_Ceil:
  assumes "u \<noteq> 0" and "unat v + unat u \<le> 2 ^ 64"
  shows "unat (math_Ceil v u) = (unat v + unat u - 1) div unat u"
proof -
  have pos: "0 < unat u" using assms(1) by (simp add: unat_gt_0)
  have one: "(1::u64) \<le> u" using assms(1) by (simp add: u64_one_le)
  have eq: "v + u - 1 = v + (u - 1)" by simp
  have u1: "unat (u - 1) = unat u - 1"
    using one by (simp add: unat_sub)
  have "unat (v + (u - 1)) = unat v + unat (u - 1)"
    using assms(2) pos u1 by (subst unat_add_lem[symmetric]) simp
  then show ?thesis
    using u1 pos by (simp add: math_Ceil_def unat_div_distrib eq del: add_diff_eq)
qed

lemma nat_ceil_ge:
  fixes v u :: nat
  assumes "0 < u"
  shows "v \<le> (v + u - 1) div u * u" and "(v + u - 1) div u * u < v + u"
proof -
  have "(v + u - 1) div u * u + (v + u - 1) mod u = v + u - 1"
    by (simp add: div_mult_mod_eq)
  moreover have "(v + u - 1) mod u < u" using assms by simp
  ultimately show "v \<le> (v + u - 1) div u * u" and "(v + u - 1) div u * u < v + u"
    using assms by linarith+
qed

lemma unat_math_AlignUp:
  assumes "u \<noteq> 0" and "unat v + unat u \<le> 2 ^ 64"
  shows "unat (math_AlignUp v u) = (unat v + unat u - 1) div unat u * unat u"
proof -
  have pos: "0 < unat u" using assms(1) by (simp add: unat_gt_0)
  have "(unat v + unat u - 1) div unat u * unat u < 2 ^ 64"
    using nat_ceil_ge(2)[OF pos, of "unat v"] assms(2) by linarith
  then show ?thesis
    using unat_math_Ceil[OF assms] by (simp add: math_AlignUp_def unat_word_ariths)
qed

lemma unat_math_AlignDown: "unat (math_AlignDown v u) = unat v div unat u * unat u"
proof -
  have "unat v div unat u * unat u < 18446744073709551616"
    using div_times_less_eq_dividend[of "unat v" "unat u"] u64_bound[of v] by (rule le_less_trans)
  then show ?thesis
    by (simp add: math_AlignDown_def unat_math_Floor unat_word_ariths)
qed

lemma unat_math_Span:
  assumes "u \<noteq> 0" and "unat t + unat u \<le> 2 ^ 64" and "b < t"
  shows "unat (math_Span b t u) = (unat t + unat u - 1) div unat u - unat b div unat u"
proof -
  have "unat b div unat u \<le> (unat t + unat u - 1) div unat u"
    using assms(3) by (intro div_le_mono) (simp add: word_less_nat_alt)
  then have "math_Floor b u \<le> math_Ceil t u"
    by (simp add: word_le_nat_alt unat_math_Floor unat_math_Ceil[OF assms(1,2)])
  then show ?thesis
    using assms by (simp add: math_Span_def unat_sub unat_math_Floor unat_math_Ceil)
qed

section \<open>BitMask\<close>

text \<open>
  \<^verbatim>\<open>BitMask<T>\<close> is its word \<^verbatim>\<open>raw\<close>; \<open>'a\<close> is the width of \<^verbatim>\<open>T\<close>. As in the
  source, \<open>extract\<close> and \<open>deposit\<close> work on a 64-bit intermediate.
\<close>

definition BitMask_has :: "'a::len word \<Rightarrow> 'a word \<Rightarrow> bool" where
  "BitMask_has raw bits \<longleftrightarrow> raw AND bits \<noteq> 0"

definition field_mask :: "nat \<Rightarrow> 'a::len word" where
  "field_mask width =
     (if width \<ge> LENGTH('a) then NOT 0 else push_bit width 1 - 1)"

definition BitMask_extract :: "nat \<Rightarrow> nat \<Rightarrow> 'a::len word \<Rightarrow> 'a word" where
  "BitMask_extract low width raw =
     (let wide = drop_bit low (ucast raw :: u64)
      in ucast (wide AND ucast (field_mask width :: 'a word)))"

definition BitMask_deposit :: "nat \<Rightarrow> nat \<Rightarrow> 'a::len word \<Rightarrow> 'a word \<Rightarrow> 'a word" where
  "BitMask_deposit low width value raw =
     (let placed = push_bit low (ucast (field_mask width :: 'a word) :: u64);
          wide = (ucast raw :: u64);
          body = (wide AND NOT placed) OR (push_bit low (ucast value) AND placed)
      in ucast body)"

definition MaskBit :: "nat \<Rightarrow> 'a::len word" where
  "MaskBit position = push_bit position 1"

definition Ones :: "nat \<Rightarrow> 'a::len word" where
  "Ones width = (if width \<ge> LENGTH('a) then NOT 0 else push_bit width 1 - 1)"

lemma bit_field_mask: "bit (field_mask width :: 'a::len word) i \<longleftrightarrow> i < LENGTH('a) \<and> i < width"
  by (auto simp: field_mask_def bit_simps push_bit_of_1 mask_eq_exp_minus_1[symmetric])

lemma bit_Ones: "bit (Ones width :: 'a::len word) i \<longleftrightarrow> i < LENGTH('a) \<and> i < width"
  by (auto simp: Ones_def bit_simps push_bit_of_1 mask_eq_exp_minus_1[symmetric])

lemma bit_MaskBit: "bit (MaskBit n :: 'a::len word) i \<longleftrightarrow> i = n \<and> i < LENGTH('a)"
  by (auto simp: MaskBit_def bit_simps)

lemma BitMask_has_MaskBit:
  "n < LENGTH('a) \<Longrightarrow> BitMask_has (w :: 'a::len word) (MaskBit n) \<longleftrightarrow> bit w n"
  by (auto simp: BitMask_has_def bit_eq_iff[where 'a = "'a word"] bit_and_iff bit_MaskBit)

lemma bit_BitMask_deposit:
  fixes raw v :: "'a::len word"
  assumes "LENGTH('a) \<le> 64"
  shows "bit (BitMask_deposit low width v raw) i \<longleftrightarrow> i < LENGTH('a) \<and>
     (if low \<le> i \<and> i < low + width \<and> i - low < LENGTH('a) then bit v (i - low) else bit raw i)"
  using assms
  by (auto simp: BitMask_deposit_def Let_def bit_simps bit_field_mask dest: bit_imp_le_length)

lemma bit_BitMask_extract:
  fixes raw :: "'a::len word"
  assumes "LENGTH('a) \<le> 64"
  shows "bit (BitMask_extract low width raw) i \<longleftrightarrow>
     i < LENGTH('a) \<and> i < width \<and> bit raw (low + i)"
  using assms
  by (auto simp: BitMask_extract_def Let_def bit_simps bit_field_mask dest: bit_imp_le_length)

text \<open>A deposited field is read back by \<open>extract\<close>, truncated to the field width.\<close>

lemma BitMask_extract_deposit:
  fixes raw v :: "'a::len word"
  assumes "LENGTH('a) \<le> 64" and "low + width \<le> LENGTH('a)"
  shows "BitMask_extract low width (BitMask_deposit low width v raw) = v AND field_mask width"
  using assms
  by (auto intro!: bit_word_eqI simp: bit_BitMask_extract bit_BitMask_deposit bit_simps bit_field_mask)

lemma BitMask_deposit_bit:
  fixes raw :: "'a::len word"
  assumes "LENGTH('a) \<le> 64" and "n < LENGTH('a)"
  shows "BitMask_deposit n 1 1 raw = set_bit n raw" and "BitMask_deposit n 1 0 raw = unset_bit n raw"
  using assms
  by (auto intro!: bit_word_eqI simp: bit_BitMask_deposit bit_simps bit_1_iff less_Suc_eq
      split: if_splits)

lemmas BitMask_deposit_bit_Suc = BitMask_deposit_bit [unfolded One_nat_def]

end
