(* ===== verification/Bitmap.thy ===== *)
theory Bitmap
  imports Words
begin

unbundle bit_operations_syntax

text \<open>
  The caller-backed bitmap of \<^verbatim>\<open>base/include/cinux/bit_ops/bitmap.hpp\<close>. The word
  array is a list of 64-bit words; bit indices and counts are \<open>nat\<close>, since a capacity
  that has a backing array is far below \<open>2 ^ 64\<close> and no index sum wraps. Writing past
  the array is undefined behaviour in the source: the lemmas carry the range as a
  hypothesis.
\<close>

section \<open>Definitions\<close>

definition kInvalidIndex :: nat where
  "kInvalidIndex = 2 ^ 64 - 1"

record Bitmap =
  bm_words :: "u64 list"
  bm_capacity :: nat
  bm_count_set :: nat

definition Bitmap_words_for :: "nat \<Rightarrow> nat" where
  "Bitmap_words_for bit_capacity = (bit_capacity + 63) div 64"

definition Bitmap_clear_all :: "Bitmap \<Rightarrow> Bitmap" where
  "Bitmap_clear_all b =
     (if bm_capacity b = 0 then b
      else b\<lparr>bm_words := fold (\<lambda>word_index ws. ws[word_index := 0])
               [0..<Bitmap_words_for (bm_capacity b)] (bm_words b),
             bm_count_set := 0\<rparr>)"

definition Bitmap_init :: "u64 list \<Rightarrow> nat \<Rightarrow> Bitmap" where
  "Bitmap_init words bit_capacity =
     Bitmap_clear_all \<lparr>bm_words = words, bm_capacity = bit_capacity, bm_count_set = 0\<rparr>"

definition Bitmap_adopt :: "u64 list \<Rightarrow> nat \<Rightarrow> Bitmap" where
  "Bitmap_adopt words bit_capacity =
     \<lparr>bm_words = words, bm_capacity = bit_capacity,
      bm_count_set =
        fold (\<lambda>word_index count.
            let base = word_index * 64;
                left = bit_capacity - base;
                span = (if left < 64 then left else 64)
            in fold (\<lambda>bit_index count.
                   if BitMask_has (words ! word_index) (MaskBit bit_index) then count + 1 else count)
                 [0..<span] count)
          [0..<Bitmap_words_for bit_capacity] 0\<rparr>"

definition Bitmap_set :: "nat \<Rightarrow> Bitmap \<Rightarrow> Bitmap" where
  "Bitmap_set index b =
     (let word = bm_words b ! (index div 64)
      in if \<not> BitMask_has word (MaskBit (index mod 64))
         then b\<lparr>bm_words := (bm_words b)[index div 64 := BitMask_deposit (index mod 64) 1 1 word],
                bm_count_set := bm_count_set b + 1\<rparr>
         else b)"

definition Bitmap_clear :: "nat \<Rightarrow> Bitmap \<Rightarrow> Bitmap" where
  "Bitmap_clear index b =
     (let word = bm_words b ! (index div 64)
      in if BitMask_has word (MaskBit (index mod 64))
         then b\<lparr>bm_words := (bm_words b)[index div 64 := BitMask_deposit (index mod 64) 1 0 word],
                bm_count_set := bm_count_set b - 1\<rparr>
         else b)"

definition Bitmap_test :: "nat \<Rightarrow> Bitmap \<Rightarrow> bool" where
  "Bitmap_test index b = BitMask_has (bm_words b ! (index div 64)) (MaskBit (index mod 64))"

definition Bitmap_set_range :: "nat \<Rightarrow> nat \<Rightarrow> Bitmap \<Rightarrow> Bitmap" where
  "Bitmap_set_range base count b = fold Bitmap_set [base..<base + count] b"

definition Bitmap_clear_range :: "nat \<Rightarrow> nat \<Rightarrow> Bitmap \<Rightarrow> Bitmap" where
  "Bitmap_clear_range base count b = fold Bitmap_clear [base..<base + count] b"

definition Bitmap_set_all :: "Bitmap \<Rightarrow> Bitmap" where
  "Bitmap_set_all b =
     (if bm_capacity b = 0 then b
      else
        let words = Bitmap_words_for (bm_capacity b);
            tail_bits = bm_capacity b mod 64;
            ones = fold (\<lambda>word_index ws. ws[word_index := Ones 64]) [0..<words] (bm_words b);
            masked = (if tail_bits \<noteq> 0 then ones[words - 1 := Ones tail_bits] else ones)
        in b\<lparr>bm_words := masked, bm_count_set := bm_capacity b\<rparr>)"

definition Bitmap_set_count :: "Bitmap \<Rightarrow> nat" where
  "Bitmap_set_count b = bm_count_set b"

definition Bitmap_clear_count :: "Bitmap \<Rightarrow> nat" where
  "Bitmap_clear_count b = bm_capacity b - bm_count_set b"

text \<open>
  \<^verbatim>\<open>find_clear_run\<close>: the inner loop over the bits of one word either finds the run
  (\<open>Inl\<close> its start) or leaves the run length for the next word (\<open>Inr\<close>).
\<close>

function Bitmap_scan_word :: "Bitmap \<Rightarrow> nat \<Rightarrow> nat \<Rightarrow> nat \<Rightarrow> nat \<Rightarrow> nat + nat" where
  "Bitmap_scan_word b len word_index bit_index run =
     (if bit_index \<ge> 64 then Inr run
      else
        let index = word_index * 64 + bit_index
        in if index \<ge> bm_capacity b then Inr run
           else if Bitmap_test index b then Bitmap_scan_word b len word_index (bit_index + 1) 0
           else if run + 1 = len then Inl (index + 1 - len)
           else Bitmap_scan_word b len word_index (bit_index + 1) (run + 1))"
  by pat_completeness auto
termination
  by (relation "measure (\<lambda>(b, len, word_index, bit_index, run). 64 - bit_index)") auto

function Bitmap_scan_words :: "Bitmap \<Rightarrow> nat \<Rightarrow> nat \<Rightarrow> nat \<Rightarrow> nat" where
  "Bitmap_scan_words b len word_index run =
     (if word_index \<ge> Bitmap_words_for (bm_capacity b) then kInvalidIndex
      else if bm_words b ! word_index = Ones 64 then Bitmap_scan_words b len (word_index + 1) 0
      else case Bitmap_scan_word b len word_index 0 run of
             Inl start \<Rightarrow> start
           | Inr run' \<Rightarrow> Bitmap_scan_words b len (word_index + 1) run')"
  by pat_completeness auto
termination
  by (relation "measure (\<lambda>(b, len, word_index, run).
        Bitmap_words_for (bm_capacity b) - word_index)") auto

declare Bitmap_scan_word.simps [simp del] Bitmap_scan_words.simps [simp del]

definition Bitmap_find_clear_run :: "nat \<Rightarrow> Bitmap \<Rightarrow> nat" where
  "Bitmap_find_clear_run len b =
     (if len = 0 \<or> len > bm_capacity b then kInvalidIndex
      else Bitmap_scan_words b len 0 0)"

section \<open>The set a bitmap stands for\<close>

definition Bitmap_bits :: "Bitmap \<Rightarrow> nat set" where
  "Bitmap_bits b = {i. i < bm_capacity b \<and> Bitmap_test i b}"

definition Bitmap_inv :: "Bitmap \<Rightarrow> bool" where
  "Bitmap_inv b \<longleftrightarrow> Bitmap_words_for (bm_capacity b) \<le> length (bm_words b) \<and>
     bm_count_set b = card (Bitmap_bits b)"

named_theorems bitmap_laws \<open>effect of the bitmap operations on the set of bits\<close>

lemma Bitmap_test_bit: "Bitmap_test i b = bit (bm_words b ! (i div 64)) (i mod 64)"
  by (simp add: Bitmap_test_def BitMask_has_MaskBit)

lemma finite_Bitmap_bits [simp]: "finite (Bitmap_bits b)"
  by (simp add: Bitmap_bits_def)

lemma Bitmap_bits_subset: "Bitmap_bits b \<subseteq> {..<bm_capacity b}"
  by (auto simp: Bitmap_bits_def)

lemma words_for_covers: "i < n \<Longrightarrow> i div 64 < Bitmap_words_for n"
  by (simp add: Bitmap_words_for_def div_less_iff_less_mult)

lemma words_for_ge: "n \<le> Bitmap_words_for n * 64"
  using div_mult_mod_eq[of "n + 63" 64] mod_less_divisor[of 64 "n + 63"]
  by (simp add: Bitmap_words_for_def)

lemma words_for_tail:
  assumes "n mod 64 \<noteq> 0"
  shows "Bitmap_words_for n = Suc (n div 64)"
proof -
  obtain q r where n: "n = 64 * q + r" and r: "r < 64"
    by (metis div_mult_mod_eq mod_less_divisor mult.commute zero_less_numeral)
  with assms have "0 < r" by (simp add: n)
  with r have "(64 * q + r + 63) div 64 = Suc q" by (intro div_nat_eqI) auto
  with n r show ?thesis by (simp add: Bitmap_words_for_def)
qed

lemma div_mod_eq_iff: "(i::nat) div 64 = j div 64 \<Longrightarrow> i mod 64 = j mod 64 \<Longrightarrow> i = j"
  by (metis div_mult_mod_eq)

lemma Bitmap_set_test:
  assumes "index div 64 < length (bm_words b)"
  shows "Bitmap_test i (Bitmap_set index b) \<longleftrightarrow> i = index \<or> Bitmap_test i b"
  using assms
  by (auto simp: Bitmap_set_def Let_def Bitmap_test_bit BitMask_has_MaskBit BitMask_deposit_bit_Suc
      nth_list_update bit_set_bit_iff dest: div_mod_eq_iff)

lemma Bitmap_clear_test:
  assumes "index div 64 < length (bm_words b)"
  shows "Bitmap_test i (Bitmap_clear index b) \<longleftrightarrow> i \<noteq> index \<and> Bitmap_test i b"
  using assms
  by (auto simp: Bitmap_clear_def Let_def Bitmap_test_bit BitMask_has_MaskBit BitMask_deposit_bit_Suc
      nth_list_update bit_unset_bit_iff dest: div_mod_eq_iff)

lemma Bitmap_set_fields [simp]:
  "bm_capacity (Bitmap_set i b) = bm_capacity b"
  "length (bm_words (Bitmap_set i b)) = length (bm_words b)"
  by (simp_all add: Bitmap_set_def Let_def)

lemma Bitmap_clear_fields [simp]:
  "bm_capacity (Bitmap_clear i b) = bm_capacity b"
  "length (bm_words (Bitmap_clear i b)) = length (bm_words b)"
  by (simp_all add: Bitmap_clear_def Let_def)

lemma Bitmap_inv_index:
  "\<lbrakk>Bitmap_inv b; i < bm_capacity b\<rbrakk> \<Longrightarrow> i div 64 < length (bm_words b)"
  using words_for_covers[of i "bm_capacity b"] by (simp add: Bitmap_inv_def)

lemma Bitmap_set_bits [bitmap_laws]:
  assumes "Bitmap_inv b" and "i < bm_capacity b"
  shows "Bitmap_bits (Bitmap_set i b) = insert i (Bitmap_bits b)" and "Bitmap_inv (Bitmap_set i b)"
proof -
  note rng = Bitmap_inv_index[OF assms]
  show bits: "Bitmap_bits (Bitmap_set i b) = insert i (Bitmap_bits b)"
    using assms(2) rng by (auto simp: Bitmap_bits_def Bitmap_set_test)
  have "bm_count_set (Bitmap_set i b) =
      (if i \<in> Bitmap_bits b then bm_count_set b else bm_count_set b + 1)"
    using assms(2) by (auto simp: Bitmap_set_def Let_def Bitmap_bits_def Bitmap_test_def)
  with assms(1) show "Bitmap_inv (Bitmap_set i b)"
    by (simp add: Bitmap_inv_def bits insert_absorb)
qed

lemma Bitmap_clear_bits [bitmap_laws]:
  assumes "Bitmap_inv b" and "i < bm_capacity b"
  shows "Bitmap_bits (Bitmap_clear i b) = Bitmap_bits b - {i}" and "Bitmap_inv (Bitmap_clear i b)"
proof -
  note rng = Bitmap_inv_index[OF assms]
  show bits: "Bitmap_bits (Bitmap_clear i b) = Bitmap_bits b - {i}"
    using assms(2) rng by (auto simp: Bitmap_bits_def Bitmap_clear_test)
  have "bm_count_set (Bitmap_clear i b) =
      (if i \<in> Bitmap_bits b then bm_count_set b - 1 else bm_count_set b)"
    using assms(2) by (auto simp: Bitmap_clear_def Let_def Bitmap_bits_def Bitmap_test_def)
  with assms(1) show "Bitmap_inv (Bitmap_clear i b)"
    by (simp add: Bitmap_inv_def bits)
qed

lemma Bitmap_fold_set:
  "\<lbrakk>Bitmap_inv b; \<forall>i\<in>set xs. i < bm_capacity b\<rbrakk> \<Longrightarrow>
     Bitmap_inv (fold Bitmap_set xs b) \<and> bm_capacity (fold Bitmap_set xs b) = bm_capacity b \<and>
     Bitmap_bits (fold Bitmap_set xs b) = Bitmap_bits b \<union> set xs"
  by (induction xs arbitrary: b) (auto simp: bitmap_laws)

lemma Bitmap_fold_clear:
  "\<lbrakk>Bitmap_inv b; \<forall>i\<in>set xs. i < bm_capacity b\<rbrakk> \<Longrightarrow>
     Bitmap_inv (fold Bitmap_clear xs b) \<and> bm_capacity (fold Bitmap_clear xs b) = bm_capacity b \<and>
     Bitmap_bits (fold Bitmap_clear xs b) = Bitmap_bits b - set xs"
  by (induction xs arbitrary: b) (auto simp: bitmap_laws)

lemma Bitmap_set_range_bits [bitmap_laws]:
  assumes "Bitmap_inv b" and "base + count \<le> bm_capacity b"
  shows "Bitmap_inv (Bitmap_set_range base count b)"
    and "bm_capacity (Bitmap_set_range base count b) = bm_capacity b"
    and "Bitmap_bits (Bitmap_set_range base count b) = Bitmap_bits b \<union> {base..<base + count}"
  using Bitmap_fold_set[OF assms(1), of "[base..<base + count]"] assms(2)
  by (auto simp: Bitmap_set_range_def)

lemma Bitmap_clear_range_bits [bitmap_laws]:
  assumes "Bitmap_inv b" and "base + count \<le> bm_capacity b"
  shows "Bitmap_inv (Bitmap_clear_range base count b)"
    and "bm_capacity (Bitmap_clear_range base count b) = bm_capacity b"
    and "Bitmap_bits (Bitmap_clear_range base count b) = Bitmap_bits b - {base..<base + count}"
  using Bitmap_fold_clear[OF assms(1), of "[base..<base + count]"] assms(2)
  by (auto simp: Bitmap_clear_range_def)

lemma fold_update_nth:
  "n \<le> length ws \<Longrightarrow> length (fold (\<lambda>i ws. ws[i := v]) [0..<n] ws) = length ws \<and>
     (\<forall>j < length ws. fold (\<lambda>i ws. ws[i := v]) [0..<n] ws ! j = (if j < n then v else ws ! j))"
  by (induction n) (auto simp: nth_list_update)

lemma Bitmap_clear_all_bits [bitmap_laws]:
  assumes "Bitmap_words_for (bm_capacity b) \<le> length (bm_words b)"
    and "bm_capacity b = 0 \<Longrightarrow> bm_count_set b = 0"
  shows "Bitmap_inv (Bitmap_clear_all b)" and "Bitmap_bits (Bitmap_clear_all b) = {}"
    and "bm_capacity (Bitmap_clear_all b) = bm_capacity b"
proof -
  show bits: "Bitmap_bits (Bitmap_clear_all b) = {}"
  proof -
    have "\<not> Bitmap_test i (Bitmap_clear_all b)" if i: "i < bm_capacity b" for i
      using fold_update_nth[OF assms(1), of 0] words_for_covers[OF i] assms(1) i
      by (simp add: Bitmap_clear_all_def Bitmap_test_bit)
    then show ?thesis by (auto simp: Bitmap_bits_def Bitmap_clear_all_def)
  qed
  show "bm_capacity (Bitmap_clear_all b) = bm_capacity b"
    by (simp add: Bitmap_clear_all_def)
  show "Bitmap_inv (Bitmap_clear_all b)"
    using assms fold_update_nth[OF assms(1), of 0]
    by (auto simp: Bitmap_inv_def bits) (auto simp: Bitmap_clear_all_def Bitmap_words_for_def)
qed

lemma Bitmap_set_all_bits [bitmap_laws]:
  assumes "Bitmap_inv b"
  shows "Bitmap_inv (Bitmap_set_all b)" and "Bitmap_bits (Bitmap_set_all b) = {..<bm_capacity b}"
    and "bm_capacity (Bitmap_set_all b) = bm_capacity b"
proof -
  let ?n = "Bitmap_words_for (bm_capacity b)"
  have len: "?n \<le> length (bm_words b)" using assms by (simp add: Bitmap_inv_def)
  note upd = fold_update_nth[OF len, of "Ones 64"]
  have tail: "i mod 64 < bm_capacity b mod 64"
    if "i < bm_capacity b" "i div 64 = ?n - 1" "bm_capacity b mod 64 \<noteq> 0" for i
  proof -
    have "?n = Suc (bm_capacity b div 64)" using that(3) by (rule words_for_tail)
    then have "?n - 1 = bm_capacity b div 64" by simp
    then have "bm_capacity b div 64 * 64 + i mod 64 < bm_capacity b div 64 * 64 + bm_capacity b mod 64"
      using that(1,2) by (metis div_mult_mod_eq)
    then show ?thesis by (simp only: nat_add_left_cancel_less)
  qed
  have test: "Bitmap_test i (Bitmap_set_all b)" if "i < bm_capacity b" for i
    using that tail[OF that] upd len words_for_covers[OF that]
    by (auto simp: Bitmap_set_all_def Let_def Bitmap_test_bit nth_list_update bit_Ones)
  show cap: "bm_capacity (Bitmap_set_all b) = bm_capacity b"
    by (simp add: Bitmap_set_all_def Let_def)
  show bits: "Bitmap_bits (Bitmap_set_all b) = {..<bm_capacity b}"
    using test cap by (auto simp: Bitmap_bits_def)
  show "Bitmap_inv (Bitmap_set_all b)"
    using len upd assms bits
    by (cases "bm_capacity b = 0") (simp_all add: Bitmap_inv_def cap, simp_all add: Bitmap_set_all_def Let_def)
qed

lemma Bitmap_init_bits [bitmap_laws]:
  assumes "Bitmap_words_for n \<le> length ws"
  shows "Bitmap_inv (Bitmap_init ws n)" and "Bitmap_bits (Bitmap_init ws n) = {}"
    and "bm_capacity (Bitmap_init ws n) = n"
  using assms by (auto simp: Bitmap_init_def bitmap_laws)

lemma Bitmap_clear_count_card:
  "Bitmap_inv b \<Longrightarrow> Bitmap_clear_count b = card ({..<bm_capacity b} - Bitmap_bits b)"
  using Bitmap_bits_subset[of b]
  by (simp add: Bitmap_clear_count_def Bitmap_inv_def card_Diff_subset)

section \<open>Adopting bits that already mean something\<close>

lemma fold_count:
  "fold (\<lambda>x c. if P x then c + 1 else c) xs (n::nat) = n + length (filter P xs)"
  by (induction xs arbitrary: n) auto

lemma fold_add: "fold (\<lambda>x c. c + f x) xs (n::nat) = n + sum_list (map f xs)"
  by (induction xs arbitrary: n) auto

lemma length_filter_upt: "length (filter P [0..<n]) = card {i. i < n \<and> P i}"
  by (simp add: length_filter_conv_card) (metis (lifting) add_0 nth_upt)

lemma block_count:
  "sum_list (map (\<lambda>w. card {i. i < min (n - w * k) k \<and> P (w * k + i)}) [0..<m]) =
     card {i. i < n \<and> i < m * k \<and> P i}"
proof (induction m)
  case 0
  then show ?case by simp
next
  case (Suc m)
  let ?lo = "{i. i < n \<and> i < m * k \<and> P i}"
  let ?hi = "(\<lambda>i. m * k + i) ` {i. i < min (n - m * k) k \<and> P (m * k + i)}"
  have split: "{i. i < n \<and> i < Suc m * k \<and> P i} = ?lo \<union> ?hi"
  proof (intro set_eqI iffI)
    fix i assume "i \<in> {i. i < n \<and> i < Suc m * k \<and> P i}"
    then show "i \<in> ?lo \<union> ?hi"
      by (cases "i < m * k") (auto simp: image_iff intro!: exI[of _ "i - m * k"])
  qed auto
  have "card (?lo \<union> ?hi) = card ?lo + card ?hi"
    by (rule card_Un_disjoint) auto
  moreover have "card ?hi = card {i. i < min (n - m * k) k \<and> P (m * k + i)}"
    by (rule card_image) (simp add: inj_on_def)
  ultimately show ?case
    using Suc.IH by (simp only: split) simp
qed

lemma Bitmap_adopt_bits [bitmap_laws]:
  assumes "Bitmap_words_for n \<le> length ws"
  shows "Bitmap_inv (Bitmap_adopt ws n)"
    and "Bitmap_bits (Bitmap_adopt ws n) = {i. i < n \<and> bit (ws ! (i div 64)) (i mod 64)}"
    and "bm_capacity (Bitmap_adopt ws n) = n"
proof -
  let ?P = "\<lambda>i. bit (ws ! (i div 64)) (i mod 64)"
  have span: "(if n - w * 64 < 64 then n - w * 64 else 64) = min (n - w * 64) 64" for w
    by (simp add: min_def)
  have "{i. i < min (n - w * 64) 64 \<and> BitMask_has (ws ! w) (MaskBit i)} =
      {i. i < min (n - w * 64) 64 \<and> ?P (w * 64 + i)}" for w
    by (auto simp: BitMask_has_MaskBit)
  then have "bm_count_set (Bitmap_adopt ws n) =
      sum_list (map (\<lambda>w. card {i. i < min (n - w * 64) 64 \<and> ?P (w * 64 + i)})
        [0..<Bitmap_words_for n])"
    by (simp add: Bitmap_adopt_def Let_def fold_count fold_add span length_filter_upt)
  also have "\<dots> = card {i. i < n \<and> i < Bitmap_words_for n * 64 \<and> ?P i}"
    by (rule block_count)
  also have "{i. i < n \<and> i < Bitmap_words_for n * 64 \<and> ?P i} = {i. i < n \<and> ?P i}"
    using words_for_ge[of n] by auto
  finally have cnt: "bm_count_set (Bitmap_adopt ws n) = card {i. i < n \<and> ?P i}" .
  show cap: "bm_capacity (Bitmap_adopt ws n) = n" by (simp add: Bitmap_adopt_def)
  show bits: "Bitmap_bits (Bitmap_adopt ws n) = {i. i < n \<and> ?P i}"
    by (auto simp: Bitmap_bits_def Bitmap_test_bit Bitmap_adopt_def)
  show "Bitmap_inv (Bitmap_adopt ws n)"
    using assms cnt by (simp add: Bitmap_inv_def bits cap) (simp add: Bitmap_adopt_def)
qed

section \<open>The first clear run\<close>

text \<open>
  \<open>clear_window b len s\<close> says that the \<open>len\<close> bits from \<open>s\<close> exist and are clear. The
  scan keeps \<open>run_inv\<close>: the run counts the clear bits directly below the position, it is
  maximal there, and no window ends at or below the position.
\<close>

definition clear_window :: "Bitmap \<Rightarrow> nat \<Rightarrow> nat \<Rightarrow> bool" where
  "clear_window b len s \<longleftrightarrow> s + len \<le> bm_capacity b \<and> (\<forall>i. s \<le> i \<and> i < s + len \<longrightarrow> \<not> Bitmap_test i b)"

definition run_inv :: "Bitmap \<Rightarrow> nat \<Rightarrow> nat \<Rightarrow> nat \<Rightarrow> bool" where
  "run_inv b len pos run \<longleftrightarrow> run < len \<and> run \<le> pos \<and>
     (\<forall>i. pos - run \<le> i \<and> i < pos \<longrightarrow> \<not> Bitmap_test i b) \<and>
     (run < pos \<longrightarrow> Bitmap_test (pos - run - 1) b) \<and>
     (\<forall>s. s + len \<le> pos \<longrightarrow> \<not> clear_window b len s)"

definition first_window :: "Bitmap \<Rightarrow> nat \<Rightarrow> nat \<Rightarrow> bool" where
  "first_window b len s \<longleftrightarrow> clear_window b len s \<and> (\<forall>s' < s. \<not> clear_window b len s')"

lemma run_inv_start: "0 < len \<Longrightarrow> run_inv b len 0 0"
  by (auto simp: run_inv_def clear_window_def)

lemma run_inv_set:
  "\<lbrakk>run_inv b len pos run; Bitmap_test pos b\<rbrakk> \<Longrightarrow> run_inv b len (Suc pos) 0"
  by (auto simp: run_inv_def clear_window_def le_Suc_eq)

lemma run_inv_clear:
  assumes "run_inv b len pos run" "\<not> Bitmap_test pos b" "Suc run \<noteq> len"
  shows "run_inv b len (Suc pos) (Suc run)"
proof -
  have "\<not> clear_window b len s" if "s + len = Suc pos" for s
  proof -
    have "s < pos - run" "run < pos" using that assms by (auto simp: run_inv_def)
    then have "s \<le> pos - run - 1" "pos - run - 1 < s + len" "Bitmap_test (pos - run - 1) b"
      using that assms by (auto simp: run_inv_def)
    then show ?thesis by (auto simp: clear_window_def)
  qed
  then show ?thesis
    using assms by (auto simp: run_inv_def le_Suc_eq less_Suc_eq)
qed

lemma run_inv_found:
  assumes "run_inv b len pos run" "\<not> Bitmap_test pos b" "Suc run = len" "pos < bm_capacity b"
  shows "first_window b len (pos + 1 - len)"
proof -
  have "clear_window b len (pos + 1 - len)"
    using assms by (auto simp: run_inv_def clear_window_def less_Suc_eq)
  moreover have "\<not> clear_window b len s" if "s < pos + 1 - len" for s
    using that assms by (auto simp: run_inv_def)
  ultimately show ?thesis by (auto simp: first_window_def)
qed

lemma run_inv_skip:
  assumes "run_inv b len pos run" and "\<And>i. pos \<le> i \<Longrightarrow> i < pos + k \<Longrightarrow> Bitmap_test i b" and "0 < k"
  shows "run_inv b len (pos + k) 0"
  using assms(2,3)
proof (induction k)
  case (Suc k)
  then have "run_inv b len (pos + k) (if k = 0 then run else 0)" using assms(1) by simp
  then show ?case using run_inv_set[of b len "pos + k"] Suc.prems by simp
qed simp

lemma run_inv_past:
  "\<lbrakk>run_inv b len pos run; bm_capacity b \<le> pos\<rbrakk> \<Longrightarrow> \<not> clear_window b len s"
  by (auto simp: run_inv_def clear_window_def)

lemma Bitmap_scan_word_spec:
  assumes "run_inv b len (wi * 64 + bi) run" "bi \<le> 64"
  shows "case Bitmap_scan_word b len wi bi run of
      Inl s \<Rightarrow> first_window b len s
    | Inr run' \<Rightarrow> run_inv b len (wi * 64 + 64) run' \<or>
        (bm_capacity b \<le> wi * 64 + 64 \<and> (\<forall>s. \<not> clear_window b len s))"
  using assms
proof (induction b len wi bi run rule: Bitmap_scan_word.induct)
  case (1 b len wi bi run)
  let ?k = "wi * 64 + bi"
  show ?case
  proof (cases "64 \<le> bi \<or> bm_capacity b \<le> ?k")
    case True
    with "1.prems" run_inv_past[of b len ?k run] show ?thesis
      by (auto simp: Bitmap_scan_word.simps[of b len wi bi] Let_def)
  next
    case False
    then have step: "Bitmap_scan_word b len wi bi run =
      (if Bitmap_test ?k b then Bitmap_scan_word b len wi (bi + 1) 0
       else if run + 1 = len then Inl (?k + 1 - len)
       else Bitmap_scan_word b len wi (bi + 1) (run + 1))"
      by (simp add: Bitmap_scan_word.simps[of b len wi bi] Let_def)
    show ?thesis
      unfolding step
      using False "1.IH"(1)[of ?k] "1.IH"(2)[of ?k] "1.prems" run_inv_set[of b len ?k run]
        run_inv_clear[of b len ?k run] run_inv_found[of b len ?k run]
      by auto
  qed
qed

lemma Bitmap_scan_words_spec:
  assumes "run_inv b len (wi * 64) run \<or>
      (Bitmap_words_for (bm_capacity b) \<le> wi \<and> (\<forall>s. \<not> clear_window b len s))"
  shows "let r = Bitmap_scan_words b len wi run
    in first_window b len r \<or> (r = kInvalidIndex \<and> (\<forall>s. \<not> clear_window b len s))"
  using assms
proof (induction b len wi run rule: Bitmap_scan_words.induct)
  case (1 b len wi run)
  show ?case
  proof (cases "Bitmap_words_for (bm_capacity b) \<le> wi")
    case True
    then have "bm_capacity b \<le> wi * 64" using words_for_ge[of "bm_capacity b"] by simp
    with "1.prems" have "\<forall>s. \<not> clear_window b len s" using run_inv_past by blast
    with True show ?thesis by (simp add: Bitmap_scan_words.simps[of b len wi] Let_def)
  next
    case False
    with "1.prems" have inv: "run_inv b len (wi * 64) run" by simp
    show ?thesis
    proof (cases "bm_words b ! wi = Ones 64")
      case True
      have "Bitmap_test i b" if "wi * 64 \<le> i" "i < wi * 64 + 64" for i
      proof -
        have "i div 64 = wi" using that by (intro div_nat_eqI) auto
        with True show ?thesis by (simp add: Bitmap_test_bit bit_Ones)
      qed
      from run_inv_skip[OF inv this] have "run_inv b len ((wi + 1) * 64) 0"
        by (simp add: add.commute)
      with False True "1.IH"(1) show ?thesis
        by (simp add: Bitmap_scan_words.simps[of b len wi run])
    next
      case mixed: False
      have fit: "Bitmap_words_for (bm_capacity b) \<le> Suc wi" if "bm_capacity b \<le> wi * 64 + 64"
        using that by (simp add: Bitmap_words_for_def less_Suc_eq_le[symmetric] div_less_iff_less_mult)
      from Bitmap_scan_word_spec[of b len wi 0 run] inv
      consider (hit) s where "Bitmap_scan_word b len wi 0 run = Inl s" "first_window b len s"
        | (miss) run' where "Bitmap_scan_word b len wi 0 run = Inr run'"
          "run_inv b len ((wi + 1) * 64) run' \<or>
           (Bitmap_words_for (bm_capacity b) \<le> wi + 1 \<and> (\<forall>s. \<not> clear_window b len s))"
        using fit by (auto simp: add.commute split: sum.splits)
      then show ?thesis
      proof cases
        case hit
        with False mixed show ?thesis by (simp add: Bitmap_scan_words.simps[of b len wi run])
      next
        case miss
        with False mixed "1.IH"(2)[OF _ _ miss(1)] show ?thesis
          by (simp add: Bitmap_scan_words.simps[of b len wi run])
      qed
    qed
  qed
qed

lemma Bitmap_find_clear_run_cases:
  "let r = Bitmap_find_clear_run len b
   in (0 < len \<and> first_window b len r) \<or>
      (r = kInvalidIndex \<and> (0 < len \<longrightarrow> (\<forall>s. \<not> clear_window b len s)))"
  using Bitmap_scan_words_spec[of b len 0 0] run_inv_start[of len b]
  by (auto simp: Bitmap_find_clear_run_def Let_def clear_window_def)

end
