(* ===== verification/Pmm.thy ===== *)
theory Pmm
  imports Bitmap
begin

text \<open>
  The physical page ledger of \<^verbatim>\<open>kernel/mm/pmm.hpp\<close> and \<^verbatim>\<open>pmm.cpp\<close>: building the
  free map from the E820 handoff, allocating and freeing page runs, and counting the
  mappings that share a frame. Addresses are 64-bit words; the share counts, an array of
  bytes in the source, are a function from frame index to byte, zero outside what was
  retained. The spin lock and the interrupt guard of each operation make it atomic: each
  operation is one function on the ledger.
\<close>

section \<open>Configuration\<close>

definition page_kSize :: u64 where
  "page_kSize = 4096"

definition kMaxOrder :: int where
  "kMaxOrder = 9"

definition kLowMemoryTop :: u64 where
  "kLowMemoryTop = 1048576"

definition kPmmMaxPhys :: u64 where
  "kPmmMaxPhys = 17179869184"

definition kPmmTotalPages :: nat where
  "kPmmTotalPages = unat (kPmmMaxPhys div page_kSize)"

definition kPmmBitmapWords :: nat where
  "kPmmBitmapWords = Bitmap_words_for kPmmTotalPages"

definition kE820Usable :: u32 where
  "kE820Usable = 1"

lemma pmm_numbers: "kPmmTotalPages = 4194304" "kPmmBitmapWords = 65536"
  by (simp_all add: kPmmTotalPages_def kPmmBitmapWords_def kPmmMaxPhys_def page_kSize_def
      Bitmap_words_for_def)

section \<open>State and operations\<close>

text \<open>The fields of the boot handoff that the ledger reads.\<close>

record E820Entry =
  e820_base :: u64
  e820_length :: u64
  e820_type :: u32

record BootInfo =
  bi_e820_count :: u32
  bi_e820 :: "E820Entry list"
  bi_kernel_paddr :: u64
  bi_kernel_mem_size :: u64

record Pmm =
  pmm_bitmap :: Bitmap
  pmm_shares :: "nat \<Rightarrow> u8"
  pmm_managed_pages :: u64

definition Pmm_fresh :: Pmm where
  "Pmm_fresh =
     \<lparr>pmm_bitmap = \<lparr>bm_words = replicate kPmmBitmapWords 0, bm_capacity = 0, bm_count_set = 0\<rparr>,
      pmm_shares = (\<lambda>_. 0), pmm_managed_pages = 0\<rparr>"

definition Pmm_init_entry :: "E820Entry \<Rightarrow> Bitmap \<times> u64 \<Rightarrow> Bitmap \<times> u64" where
  "Pmm_init_entry e acc =
     (case acc of (bitmap, managed) \<Rightarrow>
       if e820_type e \<noteq> kE820Usable then (bitmap, managed)
       else
         let entry_base = e820_base e;
             entry_top = entry_base + e820_length e;
             lo = (if entry_base > kLowMemoryTop then entry_base else kLowMemoryTop);
             hi = (if entry_top < kPmmMaxPhys then entry_top else kPmmMaxPhys)
         in if lo \<ge> hi then (bitmap, managed)
            else
              let page_count = math_Span lo hi page_kSize
              in (Bitmap_clear_range (unat (math_Floor lo page_kSize)) (unat page_count) bitmap,
                  managed + page_count))"

definition Pmm_init :: "BootInfo \<Rightarrow> Pmm \<Rightarrow> bool \<times> Pmm" where
  "Pmm_init info p =
     (let started = Bitmap_set_all (Bitmap_init (bm_words (pmm_bitmap p)) kPmmTotalPages);
          (bitmap, managed) =
            fold (\<lambda>index acc. Pmm_init_entry (bi_e820 info ! index) acc)
              [0..<unat (bi_e820_count info)] (started, 0);
          kernel_base = bi_kernel_paddr info;
          kernel_count =
            math_Span kernel_base (kernel_base + bi_kernel_mem_size info) page_kSize
      in (True,
          p\<lparr>pmm_bitmap :=
              Bitmap_set_range (unat (math_Floor kernel_base page_kSize)) (unat kernel_count) bitmap,
            pmm_managed_pages := managed\<rparr>))"

definition Pmm_allocate_run :: "nat \<Rightarrow> Pmm \<Rightarrow> u64 \<times> Pmm" where
  "Pmm_allocate_run page_count p =
     (let base_page = Bitmap_find_clear_run page_count (pmm_bitmap p)
      in if base_page = kInvalidIndex then (0, p)
         else (of_nat base_page * page_kSize,
               p\<lparr>pmm_bitmap := Bitmap_set_range base_page page_count (pmm_bitmap p)\<rparr>))"

definition Pmm_allocate_page :: "Pmm \<Rightarrow> u64 \<times> Pmm" where
  "Pmm_allocate_page p = Pmm_allocate_run 1 p"

definition Pmm_allocate_pages :: "int \<Rightarrow> Pmm \<Rightarrow> u64 \<times> Pmm" where
  "Pmm_allocate_pages order p =
     (if order < 0 \<or> order > kMaxOrder then (0, p) else Pmm_allocate_run (2 ^ nat order) p)"

definition Pmm_free_pages :: "u64 \<Rightarrow> int \<Rightarrow> Pmm \<Rightarrow> Pmm" where
  "Pmm_free_pages phys order p =
     (if phys = 0 then p
      else p\<lparr>pmm_bitmap :=
               Bitmap_clear_range (unat (math_Floor phys page_kSize)) (2 ^ nat order) (pmm_bitmap p)\<rparr>)"

definition Pmm_free_page :: "u64 \<Rightarrow> Pmm \<Rightarrow> Pmm" where
  "Pmm_free_page phys p = Pmm_free_pages phys 0 p"

definition Pmm_free_page_count :: "Pmm \<Rightarrow> nat" where
  "Pmm_free_page_count p = Bitmap_clear_count (pmm_bitmap p)"

definition Pmm_managed_page_count :: "Pmm \<Rightarrow> u64" where
  "Pmm_managed_page_count p = pmm_managed_pages p"

definition Pmm_frame_index :: "u64 \<Rightarrow> nat" where
  "Pmm_frame_index phys = unat (math_Floor phys page_kSize)"

definition Pmm_retain_frame :: "u64 \<Rightarrow> Pmm \<Rightarrow> Pmm option" where
  "Pmm_retain_frame phys p =
     (let index = Pmm_frame_index phys
      in Check (index < kPmmTotalPages)
           (Check (pmm_shares p index \<noteq> 0xFF)
             (Some (p\<lparr>pmm_shares := (pmm_shares p)(index := pmm_shares p index + 1)\<rparr>))))"

definition Pmm_release_frame :: "u64 \<Rightarrow> Pmm \<Rightarrow> u64 \<times> Pmm" where
  "Pmm_release_frame phys p =
     (let index = Pmm_frame_index phys
      in if index \<ge> kPmmTotalPages \<or> pmm_shares p index = 0 then (0, p)
         else let left = pmm_shares p index - 1
              in (ucast left, p\<lparr>pmm_shares := (pmm_shares p)(index := left)\<rparr>))"

section \<open>The free set and the ledger invariant\<close>

definition Pmm_free_set :: "Pmm \<Rightarrow> nat set" where
  "Pmm_free_set p = {..<kPmmTotalPages} - Bitmap_bits (pmm_bitmap p)"

definition run_of :: "nat \<Rightarrow> nat \<Rightarrow> nat set" where
  "run_of base count = {base..<base + count}"

text \<open>The ledger covers the whole span, its count is right, and the low megabyte
  (pages 0 to 255) is never free.\<close>

definition Pmm_inv :: "Pmm \<Rightarrow> bool" where
  "Pmm_inv p \<longleftrightarrow> Bitmap_inv (pmm_bitmap p) \<and> bm_capacity (pmm_bitmap p) = kPmmTotalPages \<and>
     Pmm_free_set p \<inter> {..<256} = {}"

lemma Pmm_free_set_bound: "Pmm_free_set p \<subseteq> {..<4194304}"
  by (auto simp: Pmm_free_set_def pmm_numbers)

lemma Pmm_free_page_count_card:
  "Pmm_inv p \<Longrightarrow> Pmm_free_page_count p = card (Pmm_free_set p)"
  by (simp add: Pmm_inv_def Pmm_free_page_count_def Bitmap_clear_count_card Pmm_free_set_def)

lemma clear_window_free:
  "Pmm_inv p \<Longrightarrow> clear_window (pmm_bitmap p) len s \<longleftrightarrow>
     s + len \<le> kPmmTotalPages \<and> run_of s len \<subseteq> Pmm_free_set p"
  by (auto simp: Pmm_inv_def clear_window_def Pmm_free_set_def Bitmap_bits_def run_of_def subset_iff)

section \<open>Allocation and release\<close>

lemma page_addr:
  assumes "s < 4194304"
  shows "unat (of_nat s * page_kSize :: u64) = s * 4096"
    and "math_Floor (of_nat s * page_kSize) page_kSize = of_nat s"
    and "unat (of_nat s :: u64) = s"
proof -
  show s: "unat (of_nat s :: u64) = s"
    using assms by (simp add: unat_of_nat)
  show u: "unat (of_nat s * page_kSize :: u64) = s * 4096"
    using assms s by (simp add: unat_word_ariths page_kSize_def)
  show "math_Floor (of_nat s * page_kSize) page_kSize = of_nat s"
    using u s by (intro word_unat_eq_iff[THEN iffD2]) (simp add: unat_math_Floor page_kSize_def)
qed

lemma page_addr_nonzero:
  assumes "s < 4194304" "256 \<le> s"
  shows "(of_nat s * page_kSize :: u64) \<noteq> 0"
proof
  assume "(of_nat s * page_kSize :: u64) = 0"
  then have "unat (of_nat s * page_kSize :: u64) = 0" by (simp only: unat_0)
  then have "s * 4096 = 0" by (simp only: page_addr(1)[OF assms(1)])
  with assms(2) show False by simp
qed

lemma Pmm_allocate_run_cases:
  assumes "Pmm_inv p" and "0 < n"
  obtains (granted) s where "Pmm_allocate_run n p =
        (of_nat s * page_kSize, p\<lparr>pmm_bitmap := Bitmap_set_range s n (pmm_bitmap p)\<rparr>)"
      "s + n \<le> kPmmTotalPages" "run_of s n \<subseteq> Pmm_free_set p" "256 \<le> s"
      "\<forall>s' < s. \<not> run_of s' n \<subseteq> Pmm_free_set p"
    | (exhausted) "Pmm_allocate_run n p = (0, p)"
      "\<forall>s. \<not> run_of s n \<subseteq> Pmm_free_set p"
proof -
  let ?r = "Bitmap_find_clear_run n (pmm_bitmap p)"
  have sub: "s + n \<le> kPmmTotalPages" if "run_of s n \<subseteq> Pmm_free_set p" for s
    using that assms(2) Pmm_free_set_bound[of p]
    by (auto simp: run_of_def pmm_numbers dest!: subsetD[of _ _ "s + n - 1"])
  consider (a) "first_window (pmm_bitmap p) n ?r"
    | (b) "?r = kInvalidIndex" "\<forall>s. \<not> clear_window (pmm_bitmap p) n s"
    using Bitmap_find_clear_run_cases[of n "pmm_bitmap p"] assms(2) by (auto simp: Let_def)
  then show thesis
  proof cases
    case a
    then have w: "?r + n \<le> kPmmTotalPages" "run_of ?r n \<subseteq> Pmm_free_set p"
      "\<forall>s' < ?r. \<not> run_of s' n \<subseteq> Pmm_free_set p"
      using clear_window_free[OF assms(1)] sub by (auto simp: first_window_def)
    have "?r \<in> run_of ?r n" using assms(2) by (simp add: run_of_def)
    with w(2) have "?r \<in> Pmm_free_set p" by blast
    then have "?r \<notin> {..<256}" using assms(1) unfolding Pmm_inv_def by blast
    then have "256 \<le> ?r" by simp
    moreover have "?r \<noteq> kInvalidIndex" using w(1) by (simp add: kInvalidIndex_def pmm_numbers)
    ultimately show thesis using w granted[of ?r] by (simp add: Pmm_allocate_run_def Let_def)
  next
    case b
    have "\<forall>s. \<not> run_of s n \<subseteq> Pmm_free_set p"
      using b(2) clear_window_free[OF assms(1)] sub by blast
    moreover have "Pmm_allocate_run n p = (0, p)" using b(1) by (simp add: Pmm_allocate_run_def)
    ultimately show thesis using exhausted by blast
  qed
qed

lemma Pmm_granted_state:
  assumes "Pmm_inv p" "s + n \<le> kPmmTotalPages"
  shows "Pmm_inv (p\<lparr>pmm_bitmap := Bitmap_set_range s n (pmm_bitmap p)\<rparr>)"
    and "Pmm_free_set (p\<lparr>pmm_bitmap := Bitmap_set_range s n (pmm_bitmap p)\<rparr>) =
           Pmm_free_set p - run_of s n"
  using assms by (auto simp: Pmm_inv_def Pmm_free_set_def bitmap_laws run_of_def)

lemma Pmm_free_pages_state:
  assumes "Pmm_inv p" "256 \<le> s" "s + 2 ^ nat order \<le> kPmmTotalPages"
  shows "Pmm_inv (Pmm_free_pages (of_nat s * page_kSize) order p)"
    and "Pmm_free_set (Pmm_free_pages (of_nat s * page_kSize) order p) =
           Pmm_free_set p \<union> run_of s (2 ^ nat order)"
proof -
  have "0 < (2::nat) ^ nat order" by simp
  with assms(3) have s: "s < 4194304" unfolding pmm_numbers by linarith
  note addr = page_addr[OF s]
  have "(of_nat s * page_kSize :: u64) \<noteq> 0" by (rule page_addr_nonzero[OF s assms(2)])
  then have eq: "Pmm_free_pages (of_nat s * page_kSize) order p =
      p\<lparr>pmm_bitmap := Bitmap_clear_range s (2 ^ nat order) (pmm_bitmap p)\<rparr>"
    by (simp add: Pmm_free_pages_def addr)
  show "Pmm_inv (Pmm_free_pages (of_nat s * page_kSize) order p)"
    "Pmm_free_set (Pmm_free_pages (of_nat s * page_kSize) order p) =
       Pmm_free_set p \<union> run_of s (2 ^ nat order)"
    using assms by (auto simp: eq Pmm_inv_def Pmm_free_set_def bitmap_laws run_of_def)
qed

section \<open>Building the ledger\<close>

text \<open>The pages an E820 entry hands over: from the page its clipped start lies in, to the
  page its clipped end lies in, the last one counted even when only partly covered.\<close>

definition entry_pages :: "E820Entry \<Rightarrow> nat set" where
  "entry_pages e =
     (let lo = max (e820_base e) kLowMemoryTop;
          hi = min (e820_base e + e820_length e) kPmmMaxPhys
      in if e820_type e \<noteq> kE820Usable \<or> lo \<ge> hi then {}
         else {unat lo div 4096..<(unat hi + 4095) div 4096})"

definition kernel_pages :: "BootInfo \<Rightarrow> nat set" where
  "kernel_pages info =
     (if bi_kernel_mem_size info = 0 then {}
      else {unat (bi_kernel_paddr info) div 4096..<
            (unat (bi_kernel_paddr info) + unat (bi_kernel_mem_size info) + 4095) div 4096})"

definition kernel_fits :: "BootInfo \<Rightarrow> bool" where
  "kernel_fits info \<longleftrightarrow>
     unat (bi_kernel_paddr info) + unat (bi_kernel_mem_size info) \<le> unat kPmmMaxPhys"

lemma span_pages:
  assumes "lo < hi" and "unat hi \<le> 17179869184"
  shows "unat (math_Floor lo page_kSize) = unat lo div 4096"
    and "unat (math_Floor lo page_kSize) + unat (math_Span lo hi page_kSize) = (unat hi + 4095) div 4096"
    and "(unat hi + 4095) div 4096 \<le> kPmmTotalPages"
proof -
  show fl: "unat (math_Floor lo page_kSize) = unat lo div 4096"
    by (simp add: unat_math_Floor page_kSize_def)
  have "unat lo div 4096 \<le> (unat hi + 4095) div 4096"
    using assms(1) by (intro div_le_mono) (simp add: word_less_nat_alt)
  moreover have "unat (math_Span lo hi page_kSize) = (unat hi + 4095) div 4096 - unat lo div 4096"
    using assms by (subst unat_math_Span) (auto simp: page_kSize_def)
  ultimately show "unat (math_Floor lo page_kSize) + unat (math_Span lo hi page_kSize) =
      (unat hi + 4095) div 4096" using fl by simp
  have "(unat hi + 4095) div 4096 \<le> (17179869184 + 4095) div 4096"
    using assms(2) by (intro div_le_mono) simp
  then show "(unat hi + 4095) div 4096 \<le> kPmmTotalPages" by (simp add: pmm_numbers)
qed

lemma entry_pages_cases:
  obtains (none) "entry_pages e = {}" "\<And>b m. Pmm_init_entry e (b, m) = (b, m)"
    | (some) lo hi where "lo < hi" "kLowMemoryTop \<le> lo" "unat hi \<le> 17179869184"
      "entry_pages e = {unat lo div 4096..<(unat hi + 4095) div 4096}"
      "\<And>b m. Pmm_init_entry e (b, m) =
        (Bitmap_clear_range (unat (math_Floor lo page_kSize)) (unat (math_Span lo hi page_kSize)) b,
         m + math_Span lo hi page_kSize)"
proof -
  define lo where "lo = (if e820_base e > kLowMemoryTop then e820_base e else kLowMemoryTop)"
  define hi where "hi = (if e820_base e + e820_length e < kPmmMaxPhys
    then e820_base e + e820_length e else kPmmMaxPhys)"
  have alt: "max (e820_base e) kLowMemoryTop = lo"
    "min (e820_base e + e820_length e) kPmmMaxPhys = hi"
    by (auto simp: max_def min_def lo_def hi_def)
  have "hi \<le> kPmmMaxPhys" by (auto simp: hi_def)
  then have hi: "unat hi \<le> 17179869184" by (simp add: word_le_nat_alt kPmmMaxPhys_def)
  have lo: "kLowMemoryTop \<le> lo" by (auto simp: lo_def)
  have ent: "entry_pages e = (if e820_type e \<noteq> kE820Usable \<or> hi \<le> lo then {}
      else {unat lo div 4096..<(unat hi + 4095) div 4096})"
    unfolding entry_pages_def alt Let_def ..
  have step: "Pmm_init_entry e (b, m) = (if e820_type e \<noteq> kE820Usable \<or> hi \<le> lo then (b, m)
      else (Bitmap_clear_range (unat (math_Floor lo page_kSize)) (unat (math_Span lo hi page_kSize)) b,
            m + math_Span lo hi page_kSize))" for b m
    unfolding Pmm_init_entry_def Let_def lo_def[symmetric] hi_def[symmetric] by simp
  show thesis
  proof (cases "e820_type e \<noteq> kE820Usable \<or> hi \<le> lo")
    case True
    then show thesis using none ent step by simp
  next
    case False
    then have "lo < hi" by auto
    with False show thesis using some[of lo hi] lo hi ent step by simp
  qed
qed

lemma Pmm_init_entry_bits:
  assumes "Bitmap_inv b" "bm_capacity b = kPmmTotalPages"
  shows "case Pmm_init_entry e (b, m) of (b', m') \<Rightarrow> Bitmap_inv b' \<and>
     bm_capacity b' = kPmmTotalPages \<and> Bitmap_bits b' = Bitmap_bits b - entry_pages e"
proof (cases rule: entry_pages_cases[of e])
  case none
  then show ?thesis using assms by simp
next
  case (some lo hi)
  note sp = span_pages[OF some(1,3)]
  have "entry_pages e = {unat (math_Floor lo page_kSize)..<
      unat (math_Floor lo page_kSize) + unat (math_Span lo hi page_kSize)}"
    unfolding sp(2) using some(4) sp(1) by simp
  then show ?thesis
    using assms sp(2,3) some(5) by (simp add: bitmap_laws)
qed

lemma Pmm_init_entries_bits:
  assumes "Bitmap_inv b" "bm_capacity b = kPmmTotalPages"
  shows "case fold (\<lambda>index acc. Pmm_init_entry (es ! index) acc) xs (b, m) of (b', m') \<Rightarrow>
     Bitmap_inv b' \<and> bm_capacity b' = kPmmTotalPages \<and>
     Bitmap_bits b' = Bitmap_bits b - (\<Union>i\<in>set xs. entry_pages (es ! i))"
  using assms
proof (induction xs arbitrary: b m)
  case (Cons x xs)
  obtain b' m' where step: "Pmm_init_entry (es ! x) (b, m) = (b', m')" by fastforce
  with Pmm_init_entry_bits[OF Cons.prems, of "es ! x" m] have "Bitmap_inv b'"
    "bm_capacity b' = kPmmTotalPages" "Bitmap_bits b' = Bitmap_bits b - entry_pages (es ! x)"
    by auto
  with Cons.IH[of b' m'] show ?case by (auto simp: step split: prod.splits)
qed simp

lemma entry_pages_high: "entry_pages e \<subseteq> {256..<4194304}"
proof (cases rule: entry_pages_cases[of e])
  case (some lo hi)
  from some(2) have "1048576 \<le> unat lo" by (simp add: word_le_nat_alt kLowMemoryTop_def)
  then have "256 \<le> unat lo div 4096" using div_le_mono[of 1048576 "unat lo" 4096] by simp
  with span_pages(3)[OF some(1,3)] some(4) show ?thesis by (auto simp: pmm_numbers)
qed simp

lemma Pmm_init_ledger:
  assumes words: "length (bm_words (pmm_bitmap p)) = kPmmBitmapWords" and fits: "kernel_fits info"
  shows "Pmm_inv (snd (Pmm_init info p))"
    and "Pmm_free_set (snd (Pmm_init info p)) =
      (\<Union>i < unat (bi_e820_count info). entry_pages (bi_e820 info ! i)) - kernel_pages info"
proof -
  let ?n = "unat (bi_e820_count info)"
  let ?E = "\<Union>i < ?n. entry_pages (bi_e820 info ! i)"
  let ?start = "Bitmap_set_all (Bitmap_init (bm_words (pmm_bitmap p)) kPmmTotalPages)"
  have start: "Bitmap_inv ?start" "bm_capacity ?start = kPmmTotalPages"
    "Bitmap_bits ?start = {..<kPmmTotalPages}"
    using words Bitmap_init_bits[of kPmmTotalPages "bm_words (pmm_bitmap p)"]
    by (simp_all add: Bitmap_set_all_bits kPmmBitmapWords_def)
  obtain b m where run: "fold (\<lambda>index acc. Pmm_init_entry (bi_e820 info ! index) acc) [0..<?n] (?start, 0)
      = (b, m)" by fastforce
  have b: "Bitmap_inv b" "bm_capacity b = kPmmTotalPages" "Bitmap_bits b = {..<kPmmTotalPages} - ?E"
    using Pmm_init_entries_bits[OF start(1,2), of "bi_e820 info" "[0..<?n]" 0]
    by (auto simp: run start(3) atLeast0LessThan)
  let ?k = "bi_kernel_paddr info" and ?s = "bi_kernel_mem_size info"
  let ?base = "unat (math_Floor ?k page_kSize)" and ?cnt = "unat (math_Span ?k (?k + ?s) page_kSize)"
  have fit: "unat ?k + unat ?s \<le> 17179869184" using fits by (simp add: kernel_fits_def kPmmMaxPhys_def)
  then have add: "unat (?k + ?s) = unat ?k + unat ?s" by (simp add: unat_word_ariths)
  have k: "kernel_pages info = {?base..<?base + ?cnt} \<and> ?base + ?cnt \<le> kPmmTotalPages"
  proof (cases "?s = 0")
    case True
    have "unat ?k div 4096 \<le> 17179869184 div 4096" using fit by (intro div_le_mono) simp
    with True show ?thesis
      by (simp add: kernel_pages_def math_Span_def unat_math_Floor page_kSize_def pmm_numbers)
  next
    case False
    then have "?k < ?k + ?s" using add by (simp add: word_less_nat_alt unat_gt_0)
    note sp = span_pages[OF this]
    with fit add have "?base + ?cnt = (unat ?k + unat ?s + 4095) div 4096" "?base = unat ?k div 4096"
      "(unat ?k + unat ?s + 4095) div 4096 \<le> kPmmTotalPages" by simp_all
    with False show ?thesis by (simp add: kernel_pages_def)
  qed
  have fin: "snd (Pmm_init info p) =
      p\<lparr>pmm_bitmap := Bitmap_set_range ?base ?cnt b, pmm_managed_pages := m\<rparr>"
    by (simp add: Pmm_init_def run Let_def)
  have range: "?E \<subseteq> {256..<4194304}" using entry_pages_high by blast
  show free: "Pmm_free_set (snd (Pmm_init info p)) = ?E - kernel_pages info"
    using b k range by (auto simp: fin Pmm_free_set_def bitmap_laws pmm_numbers)
  show "Pmm_inv (snd (Pmm_init info p))"
    unfolding Pmm_inv_def free using b k range by (auto simp: fin bitmap_laws)
qed

section \<open>Contract: a frame allocator\<close>

text \<open>
  What the page-table code, the stacks and the heap rely on: a grant comes out of the
  free set, nothing else changes, and what is freed can be granted again. \<open>grants\<close> is a
  client that takes several runs in a row from any allocator and keeps their frames.
\<close>

fun grants :: "(int \<Rightarrow> 's \<Rightarrow> u64 \<times> 's) \<Rightarrow> int list \<Rightarrow> 's \<Rightarrow> nat set list \<times> 's" where
  "grants alloc [] s = ([], s)"
| "grants alloc (order # orders) s =
     (case alloc order s of (a, s') \<Rightarrow>
       if a = 0 then grants alloc orders s'
       else case grants alloc orders s' of (runs, s'') \<Rightarrow>
         (run_of (unat a div 4096) (2 ^ nat order) # runs, s''))"

locale frame_allocator =
  fixes alloc :: "int \<Rightarrow> 's \<Rightarrow> u64 \<times> 's"
    and release :: "u64 \<Rightarrow> int \<Rightarrow> 's \<Rightarrow> 's"
    and free_set :: "'s \<Rightarrow> nat set"
    and invar :: "'s \<Rightarrow> bool"
  assumes alloc_grant: "\<lbrakk>invar s; alloc order s = (a, s'); a \<noteq> 0\<rbrakk> \<Longrightarrow>
      invar s' \<and> unat a mod 4096 = 0 \<and>
      run_of (unat a div 4096) (2 ^ nat order) \<subseteq> free_set s \<and>
      free_set s' = free_set s - run_of (unat a div 4096) (2 ^ nat order)"
    and alloc_refuse: "\<lbrakk>invar s; alloc order s = (0, s')\<rbrakk> \<Longrightarrow> s' = s"
    and release_back: "\<lbrakk>invar s; alloc order s = (a, s'); a \<noteq> 0\<rbrakk> \<Longrightarrow>
      invar (release a order s') \<and> free_set (release a order s') = free_set s"
begin

lemma grants_disjoint:
  assumes "invar s" and "grants alloc orders s = (runs, s')"
  shows "invar s' \<and> \<Union> (set runs) \<subseteq> free_set s \<and> free_set s' = free_set s - \<Union> (set runs) \<and>
     (\<forall>i < length runs. \<forall>j < length runs. i \<noteq> j \<longrightarrow> runs ! i \<inter> runs ! j = {})"
  using assms
proof (induction orders arbitrary: s runs)
  case (Cons order orders)
  obtain a t where al: "alloc order s = (a, t)" by fastforce
  show ?case
  proof (cases "a = 0")
    case True
    with alloc_refuse[OF Cons.prems(1)] al have "t = s" by simp
    with True al Cons show ?thesis by simp
  next
    case False
    note g = alloc_grant[OF Cons.prems(1) al False]
    let ?r = "run_of (unat a div 4096) (2 ^ nat order)"
    obtain rest where rest: "grants alloc orders t = (rest, s')" "runs = ?r # rest"
      using Cons.prems(2) al False by (auto split: prod.splits)
    from g have "invar t" by simp
    note IH = Cons.IH[OF this rest(1)]
    have dis: "?r \<inter> r = {}" if "r \<in> set rest" for r using IH g that by blast
    have "runs ! i \<inter> runs ! j = {}" if "i < length runs" "j < length runs" "i \<noteq> j" for i j
      using that IH dis[of "rest ! (i - 1)"] dis[of "rest ! (j - 1)"]
      by (cases i; cases j) (simp_all add: rest(2) Int_commute)
    moreover have "\<Union> (set runs) = ?r \<union> \<Union> (set rest)" using rest(2) by simp
    ultimately show ?thesis using IH g by (simp only:) blast
  qed
qed simp

end

lemma Pmm_allocate_pages_cases:
  assumes "Pmm_inv p"
  obtains (granted) s where "0 \<le> order" "order \<le> kMaxOrder" "Pmm_allocate_pages order p =
        (of_nat s * page_kSize, p\<lparr>pmm_bitmap := Bitmap_set_range s (2 ^ nat order) (pmm_bitmap p)\<rparr>)"
      "s + 2 ^ nat order \<le> kPmmTotalPages" "run_of s (2 ^ nat order) \<subseteq> Pmm_free_set p" "256 \<le> s"
      "unat (of_nat s * page_kSize :: u64) = s * 4096" "(of_nat s * page_kSize :: u64) \<noteq> 0"
    | (refused) "Pmm_allocate_pages order p = (0, p)"
proof (cases "order < 0 \<or> order > kMaxOrder")
  case True
  then show thesis using refused by (simp add: Pmm_allocate_pages_def)
next
  case False
  have pos: "0 < (2::nat) ^ nat order" by simp
  show thesis
    using assms pos
  proof (cases rule: Pmm_allocate_run_cases)
    case (granted s)
    with pos have s: "s < 4194304" unfolding pmm_numbers by linarith
    have "(of_nat s * page_kSize :: u64) \<noteq> 0" by (rule page_addr_nonzero[OF s granted(4)])
    with granted False page_addr(1)[OF s] that(1)[of s] show ?thesis
      by (simp add: Pmm_allocate_pages_def)
  next
    case exhausted
    with False that(2) show ?thesis by (simp add: Pmm_allocate_pages_def)
  qed
qed

interpretation pmm: frame_allocator Pmm_allocate_pages Pmm_free_pages Pmm_free_set Pmm_inv
proof unfold_locales
  fix p p' :: Pmm and order a
  assume inv: "Pmm_inv p" and al: "Pmm_allocate_pages order p = (a, p')"
  show "Pmm_inv p' \<and> unat a mod 4096 = 0 \<and>
      run_of (unat a div 4096) (2 ^ nat order) \<subseteq> Pmm_free_set p \<and>
      Pmm_free_set p' = Pmm_free_set p - run_of (unat a div 4096) (2 ^ nat order)" if "a \<noteq> 0"
    using inv
  proof (cases rule: Pmm_allocate_pages_cases[of p order])
    case (granted s)
    with al Pmm_granted_state[OF inv granted(4)] show ?thesis by simp
  qed (use al that in simp)
  show "Pmm_inv (Pmm_free_pages a order p') \<and> Pmm_free_set (Pmm_free_pages a order p') = Pmm_free_set p"
    if "a \<noteq> 0"
    using inv
  proof (cases rule: Pmm_allocate_pages_cases[of p order])
    case (granted s)
    note st = Pmm_granted_state[OF inv granted(4)]
    have "p' = p\<lparr>pmm_bitmap := Bitmap_set_range s (2 ^ nat order) (pmm_bitmap p)\<rparr>"
      "a = of_nat s * page_kSize" using al granted(3) by auto
    with st Pmm_free_pages_state[OF st(1) granted(6,4)] granted(5) show ?thesis by auto
  qed (use al that in simp)
next
  fix p p' :: Pmm and order
  assume inv: "Pmm_inv p" and al: "Pmm_allocate_pages order p = (0, p')"
  from inv show "p' = p"
    by (cases rule: Pmm_allocate_pages_cases[of p order]) (use al in auto)
qed

section \<open>Properties\<close>

text \<open>A boot handoff with one usable region and a kernel inside it, for the witnesses.\<close>

definition sample_boot :: BootInfo where
  "sample_boot =
     \<lparr>bi_e820_count = 1,
      bi_e820 = [\<lparr>e820_base = 0x100800, e820_length = 0x10000, e820_type = 1\<rparr>],
      bi_kernel_paddr = 0x102000, bi_kernel_mem_size = 0x1001\<rparr>"

lemma sample_boot_ledger:
  shows "kernel_fits sample_boot" "length (bm_words (pmm_bitmap Pmm_fresh)) = kPmmBitmapWords"
    and "Pmm_inv (snd (Pmm_init sample_boot Pmm_fresh))"
    and "Pmm_free_set (snd (Pmm_init sample_boot Pmm_fresh)) = {256..<273} - {258..<260}"
proof -
  show f: "kernel_fits sample_boot"
    by (simp add: kernel_fits_def sample_boot_def kPmmMaxPhys_def)
  show w: "length (bm_words (pmm_bitmap Pmm_fresh)) = kPmmBitmapWords"
    by (simp add: Pmm_fresh_def)
  show "Pmm_inv (snd (Pmm_init sample_boot Pmm_fresh))" by (rule Pmm_init_ledger(1)[OF w f])
  have "{..<Suc 0} = {0::nat}" by auto
  then show "Pmm_free_set (snd (Pmm_init sample_boot Pmm_fresh)) = {256..<273} - {258..<260}"
    unfolding Pmm_init_ledger(2)[OF w f]
    by (simp add: sample_boot_def entry_pages_def kernel_pages_def kLowMemoryTop_def kPmmMaxPhys_def
        kE820Usable_def min_def max_def word_le_nat_alt)
qed



text \<open>
  C1. \<^verbatim>\<open>Pmm::allocate_pages\<close> is first fit and complete: with a legal order it answers the
  address of the lowest run of free pages of that size, and takes exactly that run out of
  the free set; it answers zero and changes nothing only when no such run exists.
\<close>

theorem pmm_allocate_pages_first_fit:
  assumes "Pmm_inv p" and "0 \<le> order" and "order \<le> kMaxOrder"
  shows "if \<exists>s. run_of s (2 ^ nat order) \<subseteq> Pmm_free_set p
    then let s = (LEAST s. run_of s (2 ^ nat order) \<subseteq> Pmm_free_set p);
             (phys, p') = Pmm_allocate_pages order p
         in unat phys = s * 4096 \<and> phys \<noteq> 0 \<and> Pmm_inv p' \<and>
            Pmm_free_set p' = Pmm_free_set p - run_of s (2 ^ nat order)
    else Pmm_allocate_pages order p = (0, p)"
proof -
  have pos: "0 < (2::nat) ^ nat order" by simp
  from assms(1) pos show ?thesis
  proof (cases rule: Pmm_allocate_run_cases)
    case (granted s)
    have least: "(LEAST s. run_of s (2 ^ nat order) \<subseteq> Pmm_free_set p) = s"
      using granted(3,5) by (intro Least_equality) (auto simp: not_less[symmetric])
    from granted(2) pos have s: "s < 4194304" unfolding pmm_numbers by linarith
    show ?thesis
      using granted(1,3) assms(2,3) page_addr(1)[OF s] page_addr_nonzero[OF s granted(4)]
        Pmm_granted_state[OF assms(1) granted(2)]
      by (auto simp: Pmm_allocate_pages_def least Let_def)
  next
    case exhausted
    then show ?thesis using assms(2,3) by (simp add: Pmm_allocate_pages_def)
  qed
qed

theorem pmm_allocate_pages_first_fit_witness:
  "Pmm_allocate_pages 4 (snd (Pmm_init sample_boot Pmm_fresh)) = (0, snd (Pmm_init sample_boot Pmm_fresh))"
proof -
  let ?p = "snd (Pmm_init sample_boot Pmm_fresh)"
  have "\<not> run_of s 16 \<subseteq> Pmm_free_set ?p" for s
  proof
    assume sub: "run_of s 16 \<subseteq> Pmm_free_set ?p"
    have "s \<in> run_of s 16" "s + 15 \<in> run_of s 16" by (simp_all add: run_of_def)
    with sub have "256 \<le> s" "s + 15 < 273" by (auto simp: sample_boot_ledger(4))
    then have "258 \<in> run_of s 16" by (simp add: run_of_def)
    with sub show False by (auto simp: sample_boot_ledger(4))
  qed
  then show ?thesis
    using pmm_allocate_pages_first_fit[OF sample_boot_ledger(3), of 4] by (simp add: kMaxOrder_def)
qed

text \<open>
  C4. Runs handed out by any sequence of \<^verbatim>\<open>allocate_pages\<close> calls never overlap, come out of
  the free set, and are all that leaves it.
\<close>

theorem pmm_grants_disjoint:
  assumes "Pmm_inv p" and "grants Pmm_allocate_pages orders p = (runs, p')"
  shows "Pmm_inv p' \<and> \<Union> (set runs) \<subseteq> Pmm_free_set p \<and>
     Pmm_free_set p' = Pmm_free_set p - \<Union> (set runs) \<and>
     (\<forall>i < length runs. \<forall>j < length runs. i \<noteq> j \<longrightarrow> runs ! i \<inter> runs ! j = {})"
  by (rule pmm.grants_disjoint[OF assms])

theorem pmm_grants_disjoint_witness:
  "\<exists>runs p'. grants Pmm_allocate_pages [0, 1, 12] (snd (Pmm_init sample_boot Pmm_fresh)) = (runs, p') \<and>
     \<Union> (set runs) \<subseteq> {256..<273} - {258..<260} \<and> Pmm_inv p'"
  using pmm_grants_disjoint[OF sample_boot_ledger(3)]
  by (metis sample_boot_ledger(4) surj_pair)

text \<open>
  C20. Freeing the run that was just granted, with the order it was granted for, restores
  the free set.
\<close>

theorem pmm_free_undoes_allocate:
  assumes "Pmm_inv p" and "Pmm_allocate_pages order p = (phys, p')" and "phys \<noteq> 0"
  shows "Pmm_inv (Pmm_free_pages phys order p') \<and> Pmm_free_set (Pmm_free_pages phys order p') = Pmm_free_set p"
  by (rule pmm.release_back[OF assms])

theorem pmm_free_undoes_allocate_witness:
  "\<exists>phys p'. Pmm_allocate_pages 0 (snd (Pmm_init sample_boot Pmm_fresh)) = (phys, p') \<and> phys \<noteq> 0 \<and>
     Pmm_free_set (Pmm_free_pages phys 0 p') = {256..<273} - {258..<260}"
proof -
  let ?p = "snd (Pmm_init sample_boot Pmm_fresh)"
  obtain phys p' where al: "Pmm_allocate_pages 0 ?p = (phys, p')" by fastforce
  have "phys \<noteq> 0"
    using sample_boot_ledger(3) zero_less_one
  proof (cases rule: Pmm_allocate_run_cases)
    case (granted s)
    have "s < 4194304" using granted(2) by (simp add: pmm_numbers)
    from page_addr_nonzero[OF this granted(4)] granted(1) al show ?thesis
      by (simp add: Pmm_allocate_pages_def kMaxOrder_def)
  next
    case exhausted
    then show ?thesis by (auto simp: run_of_def sample_boot_ledger(4) dest: spec[of _ 256])
  qed
  then show ?thesis
    using pmm_free_undoes_allocate[OF sample_boot_ledger(3) al] al by (auto simp: sample_boot_ledger(4))
qed

end
