(* ===== verification/Digraph.thy ===== *)
theory Digraph
  imports Words
begin

unbundle bit_operations_syntax

text \<open>
  The one-word directed graph of \<^verbatim>\<open>base/include/cinux/container/directed_graph.hpp\<close>:
  each vertex's successors are one 64-bit mask. \<^verbatim>\<open>reaches\<close> is a worklist search over
  two masks; its loop is a \<^theory_text>\<open>partial_function\<close> whose \<open>None\<close> would be a search
  that never ends, and the main lemma says that it always ends with reachability decided.
\<close>

section \<open>Definitions\<close>

type_synonym DirectedGraph = "u64 list"

definition DirectedGraph_init :: "nat \<Rightarrow> DirectedGraph" where
  "DirectedGraph_init capacity = replicate capacity 0"

definition DirectedGraph_connect :: "nat \<Rightarrow> nat \<Rightarrow> DirectedGraph \<Rightarrow> DirectedGraph" where
  "DirectedGraph_connect src dst edges = edges[src := (edges ! src) OR MaskBit dst]"

text \<open>\<^verbatim>\<open>std::countr_zero\<close> on a 64-bit word.\<close>

definition countr_zero :: "u64 \<Rightarrow> nat" where
  "countr_zero w = (case find (\<lambda>i. bit w i) [0..<64] of Some i \<Rightarrow> i | None \<Rightarrow> 64)"

partial_function (option) DirectedGraph_search ::
  "DirectedGraph \<Rightarrow> nat \<Rightarrow> u64 \<Rightarrow> u64 \<Rightarrow> bool option" where
  "DirectedGraph_search edges dst pending seen =
     (if pending = 0 then Some False
      else
        let slot = countr_zero pending
        in if slot = dst then Some True
           else
             let slot_bit = MaskBit slot;
                 seen' = seen OR slot_bit;
                 pending' = (pending AND NOT slot_bit) OR (edges ! slot AND NOT seen')
             in DirectedGraph_search edges dst pending' seen')"

declare DirectedGraph_search.simps [code]

definition DirectedGraph_reaches :: "nat \<Rightarrow> nat \<Rightarrow> DirectedGraph \<Rightarrow> bool option" where
  "DirectedGraph_reaches src dst edges = DirectedGraph_search edges dst (MaskBit src) 0"

definition DirectedGraph_erase :: "nat \<Rightarrow> DirectedGraph \<Rightarrow> DirectedGraph" where
  "DirectedGraph_erase vertex edges =
     map (\<lambda>edge. edge AND NOT (MaskBit vertex)) (edges[vertex := 0])"

section \<open>The relation a graph stands for\<close>

definition edge_rel :: "DirectedGraph \<Rightarrow> (nat \<times> nat) set" where
  "edge_rel edges = {(i, j). i < length edges \<and> bit (edges ! i) j}"

text \<open>Every mask stays inside the vertex range.\<close>

definition DirectedGraph_inv :: "DirectedGraph \<Rightarrow> bool" where
  "DirectedGraph_inv edges \<longleftrightarrow> length edges \<le> 64 \<and> edge_rel edges \<subseteq> {..<length edges} \<times> {..<length edges}"

definition mask_set :: "u64 \<Rightarrow> nat set" where
  "mask_set w = {i. bit w i}"

lemma mask_set_simps:
  "mask_set (a OR b) = mask_set a \<union> mask_set b"
  "mask_set (a AND NOT b) = mask_set a - mask_set b"
  "n < 64 \<Longrightarrow> mask_set (MaskBit n) = {n}"
  "mask_set 0 = {}"
  by (auto simp: mask_set_def bit_simps bit_MaskBit dest: bit_imp_le_length)

lemma mask_set_bound: "mask_set w \<subseteq> {..<64}"
  by (auto simp: mask_set_def dest: bit_imp_le_length)

lemma finite_mask_set [simp]: "finite (mask_set w)"
  using mask_set_bound finite_subset by blast

lemma mask_set_empty_iff: "mask_set w = {} \<longleftrightarrow> w = 0"
  by (auto simp: mask_set_def intro: bit_word_eqI)

lemma countr_zero_in: "w \<noteq> 0 \<Longrightarrow> countr_zero w \<in> mask_set w"
proof -
  assume "w \<noteq> 0"
  then obtain i where "bit w i" "i < 64"
    using mask_set_empty_iff[of w] mask_set_bound[of w] by (auto simp: mask_set_def)
  then show ?thesis
    by (auto simp: countr_zero_def mask_set_def index_simps split: option.splits)
qed

lemma DirectedGraph_init_rel: "edge_rel (DirectedGraph_init n) = {}"
  by (auto simp: edge_rel_def DirectedGraph_init_def)

lemma DirectedGraph_connect_rel:
  assumes "src < length edges" "dst < length edges" "length edges \<le> 64"
  shows "edge_rel (DirectedGraph_connect src dst edges) = insert (src, dst) (edge_rel edges)"
  using assms by (auto simp: edge_rel_def DirectedGraph_connect_def nth_list_update bit_simps
      bit_MaskBit split: if_splits)

lemma DirectedGraph_connect_inv:
  assumes "DirectedGraph_inv edges" "src < length edges" "dst < length edges"
  shows "DirectedGraph_inv (DirectedGraph_connect src dst edges)"
    and "length (DirectedGraph_connect src dst edges) = length edges"
proof -
  show len: "length (DirectedGraph_connect src dst edges) = length edges"
    by (simp add: DirectedGraph_connect_def)
  show "DirectedGraph_inv (DirectedGraph_connect src dst edges)"
    using assms DirectedGraph_connect_rel[of src edges dst] len
    by (auto simp: DirectedGraph_inv_def)
qed

lemma DirectedGraph_erase_rel:
  assumes "DirectedGraph_inv edges" "v < length edges"
  shows "edge_rel (DirectedGraph_erase v edges) = {(i, j) \<in> edge_rel edges. i \<noteq> v \<and> j \<noteq> v}"
  using assms by (auto simp: edge_rel_def DirectedGraph_erase_def DirectedGraph_inv_def
      nth_list_update bit_simps bit_MaskBit split: if_splits dest: bit_imp_le_length)

lemma DirectedGraph_erase_inv:
  assumes "DirectedGraph_inv edges" "v < length edges"
  shows "DirectedGraph_inv (DirectedGraph_erase v edges)"
    and "length (DirectedGraph_erase v edges) = length edges"
proof -
  show len: "length (DirectedGraph_erase v edges) = length edges"
    by (simp add: DirectedGraph_erase_def)
  show "DirectedGraph_inv (DirectedGraph_erase v edges)"
    using assms DirectedGraph_erase_rel[OF assms] len by (auto simp: DirectedGraph_inv_def)
qed

section \<open>The search ends and decides reachability\<close>

text \<open>
  The invariant of the worklist loop: the two masks are disjoint, together they hold only
  vertices reachable from the source and hold the source, successors of a seen vertex are
  in one of them, and the target has not been seen.
\<close>

definition search_inv :: "DirectedGraph \<Rightarrow> nat \<Rightarrow> nat \<Rightarrow> u64 \<Rightarrow> u64 \<Rightarrow> bool" where
  "search_inv edges src dst pending seen \<longleftrightarrow>
     mask_set pending \<inter> mask_set seen = {} \<and>
     mask_set pending \<union> mask_set seen \<subseteq> (edge_rel edges)\<^sup>* `` {src} \<inter> {..<length edges} \<and>
     src \<in> mask_set pending \<union> mask_set seen \<and>
     edge_rel edges `` mask_set seen \<subseteq> mask_set pending \<union> mask_set seen \<and>
     dst \<notin> mask_set seen"

lemma search_inv_done:
  assumes "search_inv edges src dst 0 seen"
  shows "(src, dst) \<notin> (edge_rel edges)\<^sup>*"
proof
  assume "(src, dst) \<in> (edge_rel edges)\<^sup>*"
  moreover have "src \<in> mask_set seen" "edge_rel edges `` mask_set seen \<subseteq> mask_set seen"
    using assms by (auto simp: search_inv_def mask_set_simps)
  ultimately have "dst \<in> mask_set seen"
    by (induction rule: rtrancl_induct) auto
  with assms show False by (simp add: search_inv_def)
qed

lemma search_inv_step:
  assumes inv: "search_inv edges src dst pending seen" and g: "DirectedGraph_inv edges"
    and k: "k \<in> mask_set pending" "k \<noteq> dst"
  shows "search_inv edges src dst
     ((pending AND NOT (MaskBit k)) OR (edges ! k AND NOT (seen OR MaskBit k))) (seen OR MaskBit k)"
proof -
  have k64: "k < 64" and kn: "k < length edges"
    using k mask_set_bound[of pending] inv by (auto simp: search_inv_def)
  have succ: "mask_set (edges ! k) = edge_rel edges `` {k}"
    using kn by (auto simp: mask_set_def edge_rel_def)
  have reach: "edge_rel edges `` {k} \<subseteq> (edge_rel edges)\<^sup>* `` {src} \<inter> {..<length edges}"
    using inv g k(1) by (auto simp: search_inv_def DirectedGraph_inv_def intro: rtrancl_into_rtrancl)
  have S: "mask_set (seen OR MaskBit k) = mask_set seen \<union> {k}"
    by (simp only: mask_set_simps(1) mask_set_simps(3)[OF k64])
  have P: "mask_set ((pending AND NOT (MaskBit k)) OR (edges ! k AND NOT (seen OR MaskBit k))) =
      (mask_set pending - {k}) \<union> (edge_rel edges `` {k} - (mask_set seen \<union> {k}))"
    by (simp only: mask_set_simps(1,2) mask_set_simps(3)[OF k64] succ)
  show ?thesis
    using inv k reach unfolding search_inv_def P S by blast
qed

lemma DirectedGraph_search_decides:
  assumes "search_inv edges src dst pending seen" "DirectedGraph_inv edges"
  shows "DirectedGraph_search edges dst pending seen = Some ((src, dst) \<in> (edge_rel edges)\<^sup>*)"
  using assms
proof (induction "64 - card (mask_set seen)" arbitrary: pending seen rule: less_induct)
  case less
  show ?case
  proof (cases "pending = 0")
    case True
    with less.prems search_inv_done show ?thesis
      by (subst DirectedGraph_search.simps) simp
  next
    case False
    let ?k = "countr_zero pending"
    have k: "?k \<in> mask_set pending" using False by (rule countr_zero_in)
    show ?thesis
    proof (cases "?k = dst")
      case True
      with k less.prems(1) have "(src, dst) \<in> (edge_rel edges)\<^sup>*" by (auto simp: search_inv_def)
      with False True show ?thesis by (subst DirectedGraph_search.simps) simp
    next
      case ne: False
      let ?seen = "seen OR MaskBit ?k"
      let ?pending = "(pending AND NOT (MaskBit ?k)) OR (edges ! ?k AND NOT ?seen)"
      have inv': "search_inv edges src dst ?pending ?seen"
        using search_inv_step[OF less.prems k ne] .
      have k64: "?k < 64" using k mask_set_bound by blast
      have "?k \<notin> mask_set seen" using k less.prems(1) by (auto simp: search_inv_def)
      then have "card (mask_set ?seen) = Suc (card (mask_set seen))"
        by (simp add: mask_set_simps(1) mask_set_simps(3)[OF k64])
      moreover have "card (mask_set ?seen) \<le> 64"
        using card_mono[OF _ mask_set_bound[of ?seen]] by simp
      ultimately have "64 - card (mask_set ?seen) < 64 - card (mask_set seen)" by simp
      from less.hyps[OF this inv' less.prems(2)] False ne show ?thesis
        by (subst DirectedGraph_search.simps) (simp add: Let_def)
    qed
  qed
qed

lemma DirectedGraph_reaches_decides:
  assumes "DirectedGraph_inv edges" "src < length edges"
  shows "DirectedGraph_reaches src dst edges = Some ((src, dst) \<in> (edge_rel edges)\<^sup>*)"
proof -
  have "src < 64" using assms by (simp add: DirectedGraph_inv_def)
  then have "search_inv edges src dst (MaskBit src) 0"
    using assms(2) by (auto simp: search_inv_def mask_set_simps)
  then show ?thesis
    using DirectedGraph_search_decides assms(1) by (simp add: DirectedGraph_reaches_def)
qed

section \<open>Properties\<close>

text \<open>
  C32. \<^verbatim>\<open>DirectedGraph::reaches\<close> always ends, and answers exactly whether there is a path,
  the empty one included, from its source to its destination.
\<close>

theorem digraph_reaches_decides:
  assumes "DirectedGraph_inv edges" and "src < length edges"
  shows "DirectedGraph_reaches src dst edges = Some ((src, dst) \<in> (edge_rel edges)\<^sup>*)"
  by (rule DirectedGraph_reaches_decides[OF assms])

theorem digraph_reaches_decides_witness:
  "DirectedGraph_reaches 0 2 (DirectedGraph_connect 1 2 (DirectedGraph_connect 0 1 (DirectedGraph_init 3))) = Some True"
proof -
  let ?g = "DirectedGraph_connect 1 2 (DirectedGraph_connect 0 1 (DirectedGraph_init 3))"
  have len: "length (DirectedGraph_init 3) = 3" by (simp add: DirectedGraph_init_def)
  have inv: "DirectedGraph_inv (DirectedGraph_init 3)"
    by (simp add: DirectedGraph_inv_def DirectedGraph_init_rel len)
  note one = DirectedGraph_connect_inv[OF inv, of 0 1]
  have two: "DirectedGraph_inv ?g" "length ?g = 3" "edge_rel ?g = {(1, 2), (0, 1)}"
    using DirectedGraph_connect_inv[OF one(1), of 1 2] one len
      DirectedGraph_connect_rel[of 1 "DirectedGraph_connect 0 1 (DirectedGraph_init 3)" 2]
      DirectedGraph_connect_rel[of 0 "DirectedGraph_init 3" 1]
    by (simp_all add: DirectedGraph_init_rel)
  have "(0, 2) \<in> (edge_rel ?g)\<^sup>*"
    unfolding two(3) by (meson insertI1 insertI2 rtrancl.rtrancl_refl rtrancl.rtrancl_into_rtrancl)
  moreover have "0 < length ?g" unfolding two(2) by simp
  ultimately show ?thesis using digraph_reaches_decides[OF two(1), of 0 2] by simp
qed

end
