(* ===== verification/Containers.thy ===== *)
theory Containers
  imports Prelude
begin

text \<open>
  The allocation-free containers of \<^verbatim>\<open>base/include/cinux/container\<close>:
  \<^verbatim>\<open>RingQueue\<close> (bounded FIFO ring), \<^verbatim>\<open>SlotTable\<close> (stable indices,
  lowest-first reuse) and \<^verbatim>\<open>StaticStack\<close> (bounded LIFO). A template's
  \<^verbatim>\<open>Capacity\<close> is the length of the inline storage; every instantiation of the
  program has a capacity far below \<open>2 ^ 31\<close>, so the index arithmetic never wraps and
  indices are \<open>nat\<close>. A value-initialised \<^verbatim>\<open>Element{}\<close> is the argument
  \<open>blank\<close>. Each container implements an abstract contract, stated as a locale:
  \<open>bounded_fifo\<close>, \<open>slot_map\<close> and \<open>bounded_lifo\<close>.
\<close>

section \<open>RingQueue\<close>

record 'a RingQueue =
  rq_slots :: "'a list"
  rq_head :: nat
  rq_tail :: nat

definition RingQueue_init :: "'a \<Rightarrow> nat \<Rightarrow> 'a RingQueue" where
  "RingQueue_init blank capacity =
     \<lparr>rq_slots = replicate capacity blank, rq_head = 0, rq_tail = 0\<rparr>"

definition RingQueue_advance :: "nat \<Rightarrow> nat \<Rightarrow> nat" where
  "RingQueue_advance capacity slot = (slot + 1) mod capacity"

definition RingQueue_push :: "'a \<Rightarrow> 'a RingQueue \<Rightarrow> bool \<times> 'a RingQueue" where
  "RingQueue_push value q =
     (let next = RingQueue_advance (length (rq_slots q)) (rq_head q)
      in if next = rq_tail q then (False, q)
         else (True, q\<lparr>rq_slots := (rq_slots q)[rq_head q := value], rq_head := next\<rparr>))"

definition RingQueue_pop :: "'a \<Rightarrow> 'a RingQueue \<Rightarrow> 'a option \<times> 'a RingQueue" where
  "RingQueue_pop blank q =
     (if rq_tail q = rq_head q then (None, q)
      else (Some (rq_slots q ! rq_tail q),
            q\<lparr>rq_slots := (rq_slots q)[rq_tail q := blank],
              rq_tail := RingQueue_advance (length (rq_slots q)) (rq_tail q)\<rparr>))"

definition RingQueue_count :: "'a RingQueue \<Rightarrow> nat" where
  "RingQueue_count q =
     (rq_head q + length (rq_slots q) - rq_tail q) mod length (rq_slots q)"

definition RingQueue_peek :: "nat \<Rightarrow> 'a RingQueue \<Rightarrow> 'a option" where
  "RingQueue_peek index q =
     (if index \<ge> RingQueue_count q then None
      else Some (rq_slots q ! ((rq_tail q + index) mod length (rq_slots q))))"

section \<open>SlotTable\<close>

type_synonym 'a SlotTable = "'a option list"

definition SlotTable_init :: "nat \<Rightarrow> 'a SlotTable" where
  "SlotTable_init capacity = replicate capacity None"

definition SlotTable_vacant :: "nat \<Rightarrow> 'a SlotTable \<Rightarrow> nat" where
  "SlotTable_vacant first t =
     (case find (\<lambda>index. t ! index = None) [first..<length t] of
        Some index \<Rightarrow> index
      | None \<Rightarrow> length t)"

definition SlotTable_insert :: "'a \<Rightarrow> nat \<Rightarrow> 'a SlotTable \<Rightarrow> nat \<times> 'a SlotTable" where
  "SlotTable_insert value first t =
     (let index = SlotTable_vacant first t
      in (index, if index \<noteq> length t then t[index := Some value] else t))"

definition SlotTable_insert_default :: "'a \<Rightarrow> nat \<Rightarrow> 'a SlotTable \<Rightarrow> nat \<times> 'a SlotTable" where
  "SlotTable_insert_default blank first t =
     (let index = SlotTable_vacant first t
      in (index, if index \<noteq> length t then t[index := Some blank] else t))"

definition SlotTable_place :: "nat \<Rightarrow> 'a \<Rightarrow> 'a SlotTable \<Rightarrow> bool \<times> 'a SlotTable" where
  "SlotTable_place index value t =
     (if index \<ge> length t \<or> t ! index \<noteq> None then (False, t)
      else (True, t[index := Some value]))"

definition SlotTable_get :: "nat \<Rightarrow> 'a SlotTable \<Rightarrow> 'a option" where
  "SlotTable_get index t = (if index \<ge> length t then None else t ! index)"

definition SlotTable_erase :: "nat \<Rightarrow> 'a SlotTable \<Rightarrow> bool \<times> 'a SlotTable" where
  "SlotTable_erase index t =
     (if SlotTable_get index t = None then (False, t) else (True, t[index := None]))"

definition SlotTable_find_if :: "('a \<Rightarrow> bool) \<Rightarrow> 'a SlotTable \<Rightarrow> nat" where
  "SlotTable_find_if predicate t =
     (case find (\<lambda>index. case t ! index of Some v \<Rightarrow> predicate v | None \<Rightarrow> False)
             [0..<length t] of
        Some index \<Rightarrow> index
      | None \<Rightarrow> length t)"

text \<open>\<^verbatim>\<open>for_each\<close> threads the visitor's state through the occupied pairs in index
  order.\<close>

definition SlotTable_for_each :: "(nat \<Rightarrow> 'a \<Rightarrow> 's \<Rightarrow> 's) \<Rightarrow> 'a SlotTable \<Rightarrow> 's \<Rightarrow> 's" where
  "SlotTable_for_each visitor t s =
     fold (\<lambda>index acc. case t ! index of Some v \<Rightarrow> visitor index v acc | None \<Rightarrow> acc)
       [0..<length t] s"

section \<open>StaticStack\<close>

record 'a StaticStack =
  ss_elements :: "'a list"
  ss_size :: nat

definition StaticStack_init :: "'a \<Rightarrow> nat \<Rightarrow> 'a StaticStack" where
  "StaticStack_init blank capacity = \<lparr>ss_elements = replicate capacity blank, ss_size = 0\<rparr>"

definition StaticStack_empty :: "'a StaticStack \<Rightarrow> bool" where
  "StaticStack_empty s \<longleftrightarrow> ss_size s = 0"

definition StaticStack_full :: "'a StaticStack \<Rightarrow> bool" where
  "StaticStack_full s \<longleftrightarrow> ss_size s = length (ss_elements s)"

definition StaticStack_push :: "'a \<Rightarrow> 'a StaticStack \<Rightarrow> bool \<times> 'a StaticStack" where
  "StaticStack_push value s =
     (if StaticStack_full s then (False, s)
      else (True, s\<lparr>ss_elements := (ss_elements s)[ss_size s := value],
                    ss_size := ss_size s + 1\<rparr>))"

definition StaticStack_pop :: "'a \<Rightarrow> 'a StaticStack \<Rightarrow> bool \<times> 'a StaticStack" where
  "StaticStack_pop blank s =
     (if StaticStack_empty s then (False, s)
      else (True, s\<lparr>ss_elements := (ss_elements s)[ss_size s - 1 := blank],
                    ss_size := ss_size s - 1\<rparr>))"

definition StaticStack_pop_into :: "'a \<Rightarrow> 'a StaticStack \<Rightarrow> 'a option \<times> 'a StaticStack" where
  "StaticStack_pop_into blank s =
     (if StaticStack_empty s then (None, s)
      else (Some (ss_elements s ! (ss_size s - 1)), snd (StaticStack_pop blank s)))"

definition StaticStack_top :: "'a StaticStack \<Rightarrow> 'a option" where
  "StaticStack_top s =
     (if StaticStack_empty s then None else Some (ss_elements s ! (ss_size s - 1)))"

definition StaticStack_view :: "'a StaticStack \<Rightarrow> 'a list" where
  "StaticStack_view s = take (ss_size s) (ss_elements s)"

section \<open>Client loops over a bounded queue\<close>

text \<open>
  Two loops recur in the queue's clients. \<open>drain_upto\<close> is
  \<^verbatim>\<open>while (taken < count && ring.pop(out[taken])) ++taken\<close> of \<^verbatim>\<open>Pipe::pull\<close>;
  \<open>offer_all\<close> is the push-until-refused loop of \<^verbatim>\<open>Tty::park_line\<close>. Both take the
  queue operation as an argument, so that they can be reasoned about from the contract
  alone.
\<close>

fun drain_upto :: "('q \<Rightarrow> 'a option \<times> 'q) \<Rightarrow> nat \<Rightarrow> 'q \<Rightarrow> 'a list \<times> 'q" where
  "drain_upto pop 0 q = ([], q)"
| "drain_upto pop (Suc n) q =
     (case pop q of
        (None, q') \<Rightarrow> ([], q')
      | (Some x, q') \<Rightarrow> (let (xs, q'') = drain_upto pop n q' in (x # xs, q'')))"

fun offer_all :: "('a \<Rightarrow> 'q \<Rightarrow> bool \<times> 'q) \<Rightarrow> 'a list \<Rightarrow> 'q \<Rightarrow> 'q" where
  "offer_all push [] q = q"
| "offer_all push (x # xs) q =
     (case push x q of (True, q') \<Rightarrow> offer_all push xs q' | (False, q') \<Rightarrow> q')"

section \<open>The bounded FIFO contract\<close>

locale bounded_fifo =
  fixes push :: "'a \<Rightarrow> 'q \<Rightarrow> bool \<times> 'q"
    and pop :: "'q \<Rightarrow> 'a option \<times> 'q"
    and count :: "'q \<Rightarrow> nat"
    and content :: "'q \<Rightarrow> 'a list"
    and limit :: "'q \<Rightarrow> nat"
    and invar :: "'q \<Rightarrow> bool"
  assumes content_bound: "invar q \<Longrightarrow> length (content q) \<le> limit q"
    and count_content: "invar q \<Longrightarrow> count q = length (content q)"
    and push_room: "\<lbrakk>invar q; length (content q) < limit q\<rbrakk> \<Longrightarrow>
      \<exists>q'. push x q = (True, q') \<and> invar q' \<and> content q' = content q @ [x] \<and> limit q' = limit q"
    and push_full: "\<lbrakk>invar q; length (content q) = limit q\<rbrakk> \<Longrightarrow> push x q = (False, q)"
    and pop_empty: "\<lbrakk>invar q; content q = []\<rbrakk> \<Longrightarrow> pop q = (None, q)"
    and pop_cons: "\<lbrakk>invar q; content q = x # xs\<rbrakk> \<Longrightarrow>
      \<exists>q'. pop q = (Some x, q') \<and> invar q' \<and> content q' = xs \<and> limit q' = limit q"
begin

lemma push_cases:
  assumes "invar q"
  obtains (stored) q' where "length (content q) < limit q" "push x q = (True, q')" "invar q'"
      "content q' = content q @ [x]" "limit q' = limit q"
    | (refused) "length (content q) = limit q" "push x q = (False, q)"
  using push_room[OF assms, of x] push_full[OF assms, of x] content_bound[OF assms]
  by (cases "length (content q) < limit q") auto

lemma pop_cases:
  assumes "invar q"
  obtains (taken) x q' where "pop q = (Some x, q')" "invar q'" "content q = x # content q'"
      "limit q' = limit q"
    | (starved) "content q = []" "pop q = (None, q)"
  using pop_empty[OF assms] pop_cons[OF assms] by (cases "content q") force+

lemma push_stores_iff: "invar q \<Longrightarrow> fst (push x q) \<longleftrightarrow> count q < limit q"
  by (metis count_content fst_conv order_less_irrefl push_cases)

lemma push_keeps_old:
  "\<lbrakk>invar q; push x q = (ok, q')\<rbrakk> \<Longrightarrow>
     invar q' \<and> limit q' = limit q \<and> content q' = (if ok then content q @ [x] else content q)"
  using push_cases[of q x] by (metis Pair_inject)

lemma drain_upto_spec:
  "invar q \<Longrightarrow> \<exists>q'. drain_upto pop n q = (take n (content q), q') \<and> invar q' \<and>
     content q' = drop n (content q) \<and> limit q' = limit q"
proof (induction n arbitrary: q)
  case 0
  then show ?case by simp
next
  case (Suc n)
  from Suc.prems show ?case
  proof (cases rule: pop_cases)
    case (taken x q')
    with Suc.IH[of q'] show ?thesis by auto
  next
    case starved
    with Suc.prems show ?thesis by simp
  qed
qed

lemma offer_all_spec:
  "invar q \<Longrightarrow> invar (offer_all push xs q) \<and> limit (offer_all push xs q) = limit q \<and>
     content (offer_all push xs q) = content q @ take (limit q - length (content q)) xs"
proof (induction xs arbitrary: q)
  case Nil
  then show ?case by simp
next
  case (Cons x xs)
  from Cons.prems show ?case
  proof (cases rule: push_cases[of q x])
    case (stored q')
    with Cons.IH[of q'] show ?thesis
      by (simp add: take_Cons' Suc_diff_Suc[symmetric])
  next
    case refused
    with Cons.prems show ?thesis by simp
  qed
qed

end

definition RingQueue_content :: "'a RingQueue \<Rightarrow> 'a list" where
  "RingQueue_content q =
     map (\<lambda>i. rq_slots q ! ((rq_tail q + i) mod length (rq_slots q))) [0..<RingQueue_count q]"

definition RingQueue_limit :: "'a RingQueue \<Rightarrow> nat" where
  "RingQueue_limit q = length (rq_slots q) - 1"

definition RingQueue_inv :: "'a RingQueue \<Rightarrow> bool" where
  "RingQueue_inv q \<longleftrightarrow> rq_head q < length (rq_slots q) \<and> rq_tail q < length (rq_slots q)"

lemma ring_distance:
  fixes h t n :: nat
  assumes "h < n" "t < n"
  shows "(h + n - t) mod n = (if t \<le> h then h - t else h + n - t)"
  using assms by (auto simp: mod_if)

lemma ring_step:
  fixes h n :: nat
  shows "h < n \<Longrightarrow> Suc h mod n = (if Suc h = n then 0 else Suc h)"
  by auto

lemma RingQueue_count_alt:
  "RingQueue_inv q \<Longrightarrow> RingQueue_count q =
     (if rq_tail q \<le> rq_head q then rq_head q - rq_tail q
      else rq_head q + length (rq_slots q) - rq_tail q)"
  by (simp add: RingQueue_inv_def RingQueue_count_def ring_distance)

lemma RingQueue_index:
  "\<lbrakk>RingQueue_inv q; i < length (rq_slots q)\<rbrakk> \<Longrightarrow>
     (rq_tail q + i) mod length (rq_slots q) =
       (if rq_tail q + i < length (rq_slots q) then rq_tail q + i
        else rq_tail q + i - length (rq_slots q))"
  by (auto simp: RingQueue_inv_def mod_if)

lemma RingQueue_init_inv:
  "0 < capacity \<Longrightarrow> RingQueue_inv (RingQueue_init blank capacity)"
  "RingQueue_content (RingQueue_init blank capacity) = []"
  "RingQueue_limit (RingQueue_init blank capacity) = capacity - 1"
  by (simp_all add: RingQueue_inv_def RingQueue_init_def RingQueue_content_def
      RingQueue_count_def RingQueue_limit_def)

lemma RingQueue_push_full_iff:
  "RingQueue_inv q \<Longrightarrow>
     RingQueue_advance (length (rq_slots q)) (rq_head q) = rq_tail q \<longleftrightarrow>
     RingQueue_count q = RingQueue_limit q"
  by (auto simp: RingQueue_count_alt RingQueue_limit_def RingQueue_advance_def RingQueue_inv_def
      ring_step split: if_splits)

lemma RingQueue_push_stored:
  assumes inv: "RingQueue_inv q" and room: "RingQueue_count q < RingQueue_limit q"
  shows "\<exists>q'. RingQueue_push x q = (True, q') \<and> RingQueue_inv q' \<and>
           RingQueue_content q' = RingQueue_content q @ [x] \<and> RingQueue_limit q' = RingQueue_limit q"
proof -
  let ?n = "length (rq_slots q)"
  define q' where "q' = q\<lparr>rq_slots := (rq_slots q)[rq_head q := x],
    rq_head := RingQueue_advance ?n (rq_head q)\<rparr>"
  have push: "RingQueue_push x q = (True, q')"
    using RingQueue_push_full_iff[OF inv] room by (simp add: RingQueue_push_def q'_def Let_def)
  have inv': "RingQueue_inv q'"
    using inv by (auto simp: RingQueue_inv_def q'_def RingQueue_advance_def ring_step)
  have fields: "rq_slots q' = (rq_slots q)[rq_head q := x]" "rq_tail q' = rq_tail q"
    by (simp_all add: q'_def)
  have cnt: "RingQueue_count q' = Suc (RingQueue_count q)"
    using inv inv' room
    by (auto simp: RingQueue_count_alt RingQueue_limit_def q'_def RingQueue_advance_def
        RingQueue_inv_def ring_step split: if_splits)
  have head: "(rq_tail q + RingQueue_count q) mod ?n = rq_head q"
    using inv room by (auto simp: RingQueue_count_alt RingQueue_inv_def RingQueue_limit_def mod_if)
  have other: "(rq_tail q + i) mod ?n \<noteq> rq_head q" if "i < RingQueue_count q" for i
    using that inv room RingQueue_index[OF inv, of i]
    by (auto simp: RingQueue_count_alt RingQueue_inv_def RingQueue_limit_def split: if_splits)
  have "RingQueue_content q' = RingQueue_content q @ [x]"
    using inv other
    by (simp add: RingQueue_content_def cnt fields head RingQueue_inv_def)
       (metis atLeastLessThan_iff nth_list_update_neq)
  then show ?thesis
    using push inv' by (auto simp: RingQueue_limit_def q'_def)
qed

lemma RingQueue_pop_taken:
  assumes inv: "RingQueue_inv q" and some: "RingQueue_content q = x # xs"
  shows "\<exists>q'. RingQueue_pop blank q = (Some x, q') \<and> RingQueue_inv q' \<and>
           RingQueue_content q' = xs \<and> RingQueue_limit q' = RingQueue_limit q"
proof -
  let ?n = "length (rq_slots q)"
  define q' where "q' = q\<lparr>rq_slots := (rq_slots q)[rq_tail q := blank],
    rq_tail := RingQueue_advance ?n (rq_tail q)\<rparr>"
  have len: "RingQueue_count q = Suc (length xs)"
    using arg_cong[OF some, of length] by (simp add: RingQueue_content_def)
  have ne: "rq_tail q \<noteq> rq_head q"
    using len inv by (auto simp: RingQueue_count_alt)
  have x: "x = rq_slots q ! rq_tail q"
    using arg_cong[OF some, of "\<lambda>l. l ! 0"] len inv
    by (simp add: RingQueue_content_def RingQueue_inv_def del: upt_Suc)
  have inv': "RingQueue_inv q'"
    using inv by (auto simp: RingQueue_inv_def q'_def RingQueue_advance_def ring_step)
  have cnt: "RingQueue_count q' = length xs"
    using inv inv' len ne
    by (auto simp: RingQueue_count_alt q'_def RingQueue_advance_def
        RingQueue_inv_def ring_step split: if_splits)
  have nth: "RingQueue_content q' ! i = xs ! i" if "i < length xs" for i
  proof -
    have "xs ! i = RingQueue_content q ! Suc i" using some by simp
    also have "\<dots> = rq_slots q ! ((rq_tail q + Suc i) mod ?n)"
      using that len by (simp add: RingQueue_content_def del: upt_Suc)
    also have "(rq_tail q + Suc i) mod ?n = (rq_tail q' + i) mod ?n"
      by (simp add: q'_def RingQueue_advance_def mod_simps)
    finally have eq: "xs ! i = rq_slots q ! ((rq_tail q' + i) mod ?n)" .
    have "(rq_tail q' + i) mod ?n \<noteq> rq_tail q"
      using that len inv ne RingQueue_index[OF inv, of "Suc i"]
      by (auto simp: q'_def RingQueue_advance_def mod_simps RingQueue_count_alt
          RingQueue_inv_def split: if_splits)
    then show ?thesis
      using that eq by (simp add: RingQueue_content_def cnt) (simp add: q'_def)
  qed
  have "RingQueue_content q' = xs"
    by (rule nth_equalityI) (use nth cnt in \<open>auto simp: RingQueue_content_def\<close>)
  moreover have "RingQueue_pop blank q = (Some x, q')"
    using ne x by (simp add: RingQueue_pop_def q'_def)
  ultimately show ?thesis
    using inv' by (auto simp: RingQueue_limit_def q'_def)
qed

interpretation rq: bounded_fifo RingQueue_push "RingQueue_pop blank" RingQueue_count
  RingQueue_content RingQueue_limit RingQueue_inv for blank
proof unfold_locales
  fix q :: "'a RingQueue" and x
  assume inv: "RingQueue_inv q"
  show "RingQueue_count q = length (RingQueue_content q)"
    by (simp add: RingQueue_content_def)
  show "length (RingQueue_content q) \<le> RingQueue_limit q"
    using inv by (auto simp: RingQueue_content_def RingQueue_count_alt RingQueue_limit_def
        RingQueue_inv_def)
  show "\<exists>q'. RingQueue_push x q = (True, q') \<and> RingQueue_inv q' \<and>
      RingQueue_content q' = RingQueue_content q @ [x] \<and> RingQueue_limit q' = RingQueue_limit q"
    if "length (RingQueue_content q) < RingQueue_limit q"
    using RingQueue_push_stored[OF inv] that by (simp add: RingQueue_content_def)
  show "RingQueue_push x q = (False, q)" if "length (RingQueue_content q) = RingQueue_limit q"
    using RingQueue_push_full_iff[OF inv] that
    by (simp add: RingQueue_content_def RingQueue_push_def Let_def)
  show "RingQueue_pop blank q = (None, q)" if "RingQueue_content q = []"
    using inv that by (auto simp: RingQueue_content_def RingQueue_count_alt RingQueue_pop_def
        RingQueue_inv_def split: if_splits)
  show "\<exists>q'. RingQueue_pop blank q = (Some x, q') \<and> RingQueue_inv q' \<and>
      RingQueue_content q' = xs \<and> RingQueue_limit q' = RingQueue_limit q"
    if "RingQueue_content q = x # xs" for xs
    using RingQueue_pop_taken[OF inv that] .
qed

lemma RingQueue_peek_content:
  "RingQueue_peek i q = (if i < length (RingQueue_content q) then Some (RingQueue_content q ! i) else None)"
  by (simp add: RingQueue_peek_def RingQueue_content_def)

section \<open>The slot map contract\<close>

text \<open>
  A slot table promises its clients (the descriptor chunks, the lock registry, the
  lock-order checker, the request pool) the behaviour of a finite map over
  \<open>{..<capacity}\<close> that allocates the lowest vacant key.
\<close>

locale slot_map =
  fixes get :: "nat \<Rightarrow> 't \<Rightarrow> 'a option"
    and vacant :: "nat \<Rightarrow> 't \<Rightarrow> nat"
    and ins :: "'a \<Rightarrow> nat \<Rightarrow> 't \<Rightarrow> nat \<times> 't"
    and place :: "nat \<Rightarrow> 'a \<Rightarrow> 't \<Rightarrow> bool \<times> 't"
    and erase :: "nat \<Rightarrow> 't \<Rightarrow> bool \<times> 't"
    and find_if :: "('a \<Rightarrow> bool) \<Rightarrow> 't \<Rightarrow> nat"
    and capacity :: "'t \<Rightarrow> nat"
  assumes get_range: "get i t = Some v \<Longrightarrow> i < capacity t"
    and vacant_free: "vacant f t < capacity t \<Longrightarrow> f \<le> vacant f t \<and> get (vacant f t) t = None"
    and vacant_lowest: "\<lbrakk>f \<le> i; i < vacant f t; i < capacity t\<rbrakk> \<Longrightarrow> get i t \<noteq> None"
    and vacant_bound: "vacant f t \<le> capacity t"
    and ins_index: "fst (ins v f t) = vacant f t"
    and ins_get: "get i (snd (ins v f t)) =
      (if i = vacant f t \<and> i < capacity t then Some v else get i t)"
    and ins_capacity: "capacity (snd (ins v f t)) = capacity t"
    and place_ok: "fst (place i v t) \<longleftrightarrow> i < capacity t \<and> get i t = None"
    and place_get: "get j (snd (place i v t)) = (if j = i \<and> fst (place i v t) then Some v else get j t)"
    and place_capacity: "capacity (snd (place i v t)) = capacity t"
    and erase_ok: "fst (erase i t) \<longleftrightarrow> get i t \<noteq> None"
    and erase_get: "get j (snd (erase i t)) = (if j = i then None else get j t)"
    and erase_capacity: "capacity (snd (erase i t)) = capacity t"
    and find_if_hit: "find_if P t < capacity t \<Longrightarrow> \<exists>v. get (find_if P t) t = Some v \<and> P v"
    and find_if_first: "\<lbrakk>i < find_if P t; get i t = Some v\<rbrakk> \<Longrightarrow> \<not> P v"
    and find_if_bound: "find_if P t \<le> capacity t"
begin

lemmas slot_laws = ins_index ins_get ins_capacity place_ok place_get place_capacity
  erase_ok erase_get erase_capacity

lemma vacant_eq_capacity_iff:
  "vacant f t = capacity t \<longleftrightarrow> (\<forall>i. f \<le> i \<and> i < capacity t \<longrightarrow> get i t \<noteq> None)"
  using vacant_free[of f t] vacant_lowest[of f _ t] vacant_bound[of f t]
  by (metis le_neq_implies_less)

lemma find_if_miss_iff:
  "find_if P t = capacity t \<longleftrightarrow> (\<forall>i v. get i t = Some v \<longrightarrow> \<not> P v)"
  using find_if_hit[of P t] find_if_first[of _ P t] find_if_bound[of P t]
  by (metis get_range le_neq_implies_less)

lemma ins_stores:
  "fst (ins v f t) \<noteq> capacity t \<Longrightarrow>
     get (fst (ins v f t)) t = None \<and> get (fst (ins v f t)) (snd (ins v f t)) = Some v"
  using vacant_free[of f t] vacant_bound[of f t] by (simp add: slot_laws)

lemma ins_full_unchanged:
  "fst (ins v f t) = capacity t \<Longrightarrow> get i (snd (ins v f t)) = get i t"
  by (auto simp: slot_laws)

lemma erase_reuse:
  assumes "get i t \<noteq> None" and "\<And>j. f \<le> j \<Longrightarrow> j < i \<Longrightarrow> get j t \<noteq> None" and "f \<le> i"
  shows "vacant f (snd (erase i t)) = i"
proof -
  let ?t = "snd (erase i t)"
  have i: "i < capacity ?t" using assms(1) get_range by (auto simp: erase_capacity)
  have "get i ?t = None" by (simp add: erase_get)
  then have le: "vacant f ?t \<le> i"
    using i assms(3) vacant_lowest[of f i ?t] by (meson not_le)
  then have "get (vacant f ?t) ?t = None" and "f \<le> vacant f ?t"
    using i vacant_free[of f ?t] by auto
  then show ?thesis
    using le assms(2)[of "vacant f ?t"] by (auto simp: erase_get split: if_splits)
qed

end

lemma SlotTable_vacant_Some:
  "SlotTable_vacant first t < length t \<longleftrightarrow>
     (\<exists>i. first \<le> i \<and> i < length t \<and> t ! i = None)"
  by (auto simp: SlotTable_vacant_def index_simps split: option.splits)

interpretation st: slot_map SlotTable_get SlotTable_vacant SlotTable_insert SlotTable_place
  SlotTable_erase SlotTable_find_if length
  by unfold_locales
    (auto simp: SlotTable_get_def SlotTable_vacant_def SlotTable_insert_def SlotTable_place_def
      SlotTable_erase_def SlotTable_find_if_def Let_def index_simps nth_list_update
      split: option.splits if_splits)

section \<open>The bounded LIFO contract\<close>

locale bounded_lifo =
  fixes push :: "'a \<Rightarrow> 's \<Rightarrow> bool \<times> 's"
    and pop :: "'s \<Rightarrow> bool \<times> 's"
    and top :: "'s \<Rightarrow> 'a option"
    and view :: "'s \<Rightarrow> 'a list"
    and depth :: "'s \<Rightarrow> nat"
    and invar :: "'s \<Rightarrow> bool"
  assumes view_bound: "invar s \<Longrightarrow> length (view s) \<le> depth s"
    and push_view: "invar s \<Longrightarrow> push x s = (ok, s') \<Longrightarrow>
      (ok \<longleftrightarrow> length (view s) < depth s) \<and> view s' = (if ok then view s @ [x] else view s) \<and>
      invar s' \<and> depth s' = depth s"
    and pop_view: "invar s \<Longrightarrow> pop s = (ok, s') \<Longrightarrow>
      (ok \<longleftrightarrow> view s \<noteq> []) \<and> view s' = butlast (view s) \<and> invar s' \<and> depth s' = depth s"
    and top_view: "invar s \<Longrightarrow> top s = (if view s = [] then None else Some (last (view s)))"
begin

lemma pop_after_push:
  "\<lbrakk>invar s; push x s = (True, s'); pop s' = (ok, s'')\<rbrakk> \<Longrightarrow> ok \<and> view s'' = view s"
  using push_view[of s x True s'] pop_view[of s' ok s''] by simp

end

definition StaticStack_inv :: "'a StaticStack \<Rightarrow> bool" where
  "StaticStack_inv s \<longleftrightarrow> ss_size s \<le> length (ss_elements s)"

definition StaticStack_depth :: "'a StaticStack \<Rightarrow> nat" where
  "StaticStack_depth s = length (ss_elements s)"

lemmas StaticStack_defs = StaticStack_push_def StaticStack_pop_def StaticStack_top_def
  StaticStack_view_def StaticStack_inv_def StaticStack_depth_def StaticStack_empty_def
  StaticStack_full_def

interpretation ss: bounded_lifo StaticStack_push "StaticStack_pop blank" StaticStack_top
  StaticStack_view StaticStack_depth StaticStack_inv for blank
  by unfold_locales
    (auto simp: StaticStack_defs take_Suc_conv_app_nth butlast_take last_conv_nth
      split: if_splits)

lemma StaticStack_init_laws:
  "StaticStack_inv (StaticStack_init blank n)" "StaticStack_view (StaticStack_init blank n) = []"
  "StaticStack_depth (StaticStack_init blank n) = n"
  by (simp_all add: StaticStack_defs StaticStack_init_def)

section \<open>Properties\<close>

text \<open>
  C29. \<^verbatim>\<open>RingQueue\<close> is a bounded FIFO: offering values until one is refused and draining
  any number afterwards yields the oldest values first, in order, each once, and the
  values past the capacity are exactly the ones refused.
\<close>

theorem ring_queue_fifo:
  assumes "RingQueue_inv q"
  shows "fst (drain_upto (RingQueue_pop blank) n (offer_all RingQueue_push xs q)) =
    take n (RingQueue_content q @ take (RingQueue_limit q - RingQueue_count q) xs)"
  using rq.drain_upto_spec[of "offer_all RingQueue_push xs q" blank n] rq.offer_all_spec[OF assms, of xs]
    rq.count_content[OF assms] by auto

theorem ring_queue_fifo_witness:
  "RingQueue_inv (RingQueue_init (0::nat) 4) \<and>
   fst (drain_upto (RingQueue_pop 0) 2 (offer_all RingQueue_push [7, 8, 9, 10, 11] (RingQueue_init (0::nat) 4))) = [7, 8]"
proof -
  have inv: "RingQueue_inv (RingQueue_init (0::nat) 4)"
    by (simp add: RingQueue_inv_def RingQueue_init_def)
  then show ?thesis
    using ring_queue_fifo[OF inv, of 0 2 "[7, 8, 9, 10, 11]"]
    by (simp add: RingQueue_content_def RingQueue_limit_def RingQueue_count_def RingQueue_init_def)
qed

text \<open>
  C36. A \<^verbatim>\<open>SlotTable\<close> insertion takes the lowest vacant slot at or above the floor and
  leaves the others alone; a full table is reported as the capacity, unchanged; and the
  slot an erase frees, when it lies below every other vacant one, is the next one used.
\<close>

theorem slot_table_lowest_reuse:
  assumes "SlotTable_get i t \<noteq> None" and "\<forall>j. first \<le> j \<and> j < i \<longrightarrow> SlotTable_get j t \<noteq> None"
    and "first \<le> i"
  shows "fst (SlotTable_insert v first (snd (SlotTable_erase i t))) = i \<and>
    (\<forall>j. SlotTable_get j (snd (SlotTable_insert v first (snd (SlotTable_erase i t)))) =
       (if j = i then Some v else SlotTable_get j t))"
proof -
  have vac: "SlotTable_vacant first (snd (SlotTable_erase i t)) = i"
    using assms by (intro st.erase_reuse) auto
  moreover have "i < length t" using assms(1) st.get_range by auto
  ultimately show ?thesis by (simp add: st.slot_laws)
qed

theorem slot_table_lowest_reuse_witness:
  "fst (SlotTable_insert (5::nat) 0 (snd (SlotTable_erase 1 [Some 1, Some 2, Some 3]))) = 1"
  using slot_table_lowest_reuse[of 1 "[Some 1, Some 2, Some 3]" 0 "5::nat"]
  by (simp add: SlotTable_get_def less_Suc_eq)

end
