(* ===== verification/Lockdep.thy ===== *)
theory Lockdep
  imports Digraph Containers
begin

text \<open>
  The lock-order checker of \<^verbatim>\<open>kernel/proc/lockdep.hpp\<close> and \<^verbatim>\<open>lockdep.cpp\<close>. A lock is
  its address (zero is the null pointer); \<^verbatim>\<open>held_\<close> has one chain per processor, and
  \<open>cpu\<close> is what \<^verbatim>\<open>PerCpu::self().cpu_id\<close> answers. Every operation runs under the
  graph gate with interrupts off, so it is one atomic step. \<open>None\<close> is a failed
  \<^verbatim>\<open>Check\<close> or a search that does not end; the lemmas show that neither occurs for
  \<^verbatim>\<open>acquire\<close>, \<^verbatim>\<open>release\<close> and \<^verbatim>\<open>forget\<close>.
\<close>

section \<open>State and operations\<close>

datatype LockStatus = lk_kOk | lk_kCycle | lk_kRecursive | lk_kCapacity | lk_kNotHeld | lk_kOutOfOrder

definition kLocks :: nat where "kLocks = 64"
definition kDepth :: nat where "kDepth = 16"
definition kMaxCpus :: nat where "kMaxCpus = 8"

record LockOrder =
  lo_locks :: "u64 SlotTable"
  lo_names :: "string option list"
  lo_graph :: DirectedGraph
  lo_held :: "nat StaticStack list"

definition LockOrder_init :: LockOrder where
  "LockOrder_init =
     \<lparr>lo_locks = SlotTable_init kLocks, lo_names = replicate kLocks None,
      lo_graph = DirectedGraph_init kLocks,
      lo_held = replicate kMaxCpus (StaticStack_init 0 kDepth)\<rparr>"

definition LockOrder_find_lock :: "u64 \<Rightarrow> LockOrder \<Rightarrow> nat" where
  "LockOrder_find_lock lock s = SlotTable_find_if (\<lambda>resident. resident = lock) (lo_locks s)"

definition LockOrder_vacant_slot :: "LockOrder \<Rightarrow> nat" where
  "LockOrder_vacant_slot s = SlotTable_vacant 0 (lo_locks s)"

fun acquire_scan :: "DirectedGraph \<Rightarrow> nat \<Rightarrow> nat list \<Rightarrow> LockStatus option" where
  "acquire_scan graph index [] = Some lk_kOk"
| "acquire_scan graph index (h # hs) =
     (if h = index then Some lk_kRecursive
      else case DirectedGraph_reaches index h graph of
             None \<Rightarrow> None
           | Some True \<Rightarrow> Some lk_kCycle
           | Some False \<Rightarrow> acquire_scan graph index hs)"

definition LockOrder_acquire :: "nat \<Rightarrow> u64 \<Rightarrow> LockOrder \<Rightarrow> (LockStatus \<times> LockOrder) option" where
  "LockOrder_acquire cpu lock s =
     (let held = lo_held s ! cpu
      in if lock = 0 \<or> StaticStack_full held then Some (lk_kCapacity, s)
         else
           let found = LockOrder_find_lock lock s;
               index = (if found = kLocks then LockOrder_vacant_slot s else found)
           in if index = kLocks then Some (lk_kCapacity, s)
              else case acquire_scan (lo_graph s) index (StaticStack_view held) of
                     None \<Rightarrow> None
                   | Some status \<Rightarrow>
                       if status \<noteq> lk_kOk then Some (status, s)
                       else
                         let inserted = SlotTable_insert lock 0 (lo_locks s);
                             fresh = SlotTable_get index (lo_locks s) = None;
                             locks = (if fresh then snd inserted else lo_locks s);
                             graph = fold (\<lambda>h g. DirectedGraph_connect h index g)
                               (StaticStack_view held) (lo_graph s);
                             (pushed, held') = StaticStack_push index held
                         in Check (fresh \<longrightarrow> fst inserted = index)
                              (Check pushed
                                (Some (lk_kOk,
                                   s\<lparr>lo_locks := locks, lo_graph := graph,
                                     lo_held := (lo_held s)[cpu := held']\<rparr>))))"

definition LockOrder_release :: "nat \<Rightarrow> u64 \<Rightarrow> LockOrder \<Rightarrow> (LockStatus \<times> LockOrder) option" where
  "LockOrder_release cpu lock s =
     (let index = LockOrder_find_lock lock s;
          held = lo_held s ! cpu
      in if index = kLocks \<or> index \<notin> set (StaticStack_view held) then Some (lk_kNotHeld, s)
         else if StaticStack_top held \<noteq> Some index then Some (lk_kOutOfOrder, s)
         else
           let (popped, held') = StaticStack_pop 0 held
           in Check popped (Some (lk_kOk, s\<lparr>lo_held := (lo_held s)[cpu := held']\<rparr>)))"

definition LockOrder_forget :: "u64 \<Rightarrow> LockOrder \<Rightarrow> (bool \<times> LockOrder) option" where
  "LockOrder_forget lock s =
     (let index = LockOrder_find_lock lock s
      in if index = kLocks then Some (True, s)
         else if \<exists>chain \<in> set (lo_held s). index \<in> set (StaticStack_view chain) then Some (False, s)
         else
           let (erased, locks) = SlotTable_erase index (lo_locks s)
           in Check erased
                (Some (True,
                   s\<lparr>lo_locks := locks, lo_names := (lo_names s)[index := None],
                     lo_graph := DirectedGraph_erase index (lo_graph s)\<rparr>)))"

text \<open>A null label is \<open>None\<close>.\<close>

definition LockOrder_name_lock :: "u64 \<Rightarrow> string option \<Rightarrow> LockOrder \<Rightarrow> LockOrder option" where
  "LockOrder_name_lock lock label s =
     (if lock = 0 \<or> label = None then Some s
      else
        let found = LockOrder_find_lock lock s
        in if found = kLocks then
             let index = LockOrder_vacant_slot s;
                 inserted = SlotTable_insert lock 0 (lo_locks s)
             in Check (index \<noteq> kLocks)
                  (Check (fst inserted = index)
                    (Some (s\<lparr>lo_locks := snd inserted, lo_names := (lo_names s)[index := label]\<rparr>)))
           else Some (s\<lparr>lo_names := (lo_names s)[found := label]\<rparr>))"

text \<open>One (label, address) line per held lock, innermost last; silent without a sink.\<close>

definition LockOrder_dump_held :: "bool \<Rightarrow> nat \<Rightarrow> LockOrder \<Rightarrow> (string option \<times> u64 option) list" where
  "LockOrder_dump_held sink_installed cpu s =
     (if \<not> sink_installed then []
      else map (\<lambda>h. (lo_names s ! h, SlotTable_get h (lo_locks s)))
             (StaticStack_view (lo_held s ! cpu)))"

section \<open>Invariant\<close>

definition chain_of :: "LockOrder \<Rightarrow> nat \<Rightarrow> nat list" where
  "chain_of s cpu = StaticStack_view (lo_held s ! cpu)"

definition registered :: "LockOrder \<Rightarrow> nat set" where
  "registered s = {i. SlotTable_get i (lo_locks s) \<noteq> None}"

text \<open>
  The order graph is acyclic and speaks only of registered locks; every chain holds
  registered locks, each below the next in the order; identities are unique.
\<close>

definition LockOrder_shape :: "LockOrder \<Rightarrow> bool" where
  "LockOrder_shape s \<longleftrightarrow> length (lo_locks s) = kLocks \<and> length (lo_graph s) = kLocks \<and>
     DirectedGraph_inv (lo_graph s) \<and> length (lo_held s) = kMaxCpus \<and>
     (\<forall>cpu < kMaxCpus. StaticStack_inv (lo_held s ! cpu) \<and> StaticStack_depth (lo_held s ! cpu) = kDepth)"

definition LockOrder_inv :: "LockOrder \<Rightarrow> bool" where
  "LockOrder_inv s \<longleftrightarrow> LockOrder_shape s \<and>
     (\<forall>i j a. SlotTable_get i (lo_locks s) = Some a \<and> SlotTable_get j (lo_locks s) = Some a \<longrightarrow> i = j) \<and>
     edge_rel (lo_graph s) \<subseteq> registered s \<times> registered s \<and>
     acyclic (edge_rel (lo_graph s)) \<and>
     (\<forall>cpu < kMaxCpus. set (chain_of s cpu) \<subseteq> registered s \<and>
        sorted_wrt (\<lambda>a b. (a, b) \<in> edge_rel (lo_graph s)) (chain_of s cpu))"

lemma LockOrder_invI:
  assumes "LockOrder_shape s"
    and "\<And>i j a. SlotTable_get i (lo_locks s) = Some a \<Longrightarrow> SlotTable_get j (lo_locks s) = Some a \<Longrightarrow> i = j"
    and "edge_rel (lo_graph s) \<subseteq> registered s \<times> registered s" and "acyclic (edge_rel (lo_graph s))"
    and "\<And>c. c < kMaxCpus \<Longrightarrow> set (chain_of s c) \<subseteq> registered s"
    and "\<And>c. c < kMaxCpus \<Longrightarrow> sorted_wrt (\<lambda>a b. (a, b) \<in> edge_rel (lo_graph s)) (chain_of s c)"
  shows "LockOrder_inv s"
  using assms unfolding LockOrder_inv_def by blast

lemma LockOrder_invD:
  assumes "LockOrder_inv s"
  shows "LockOrder_shape s"
    and "\<And>i j a. SlotTable_get i (lo_locks s) = Some a \<Longrightarrow> SlotTable_get j (lo_locks s) = Some a \<Longrightarrow> i = j"
    and "edge_rel (lo_graph s) \<subseteq> registered s \<times> registered s" and "acyclic (edge_rel (lo_graph s))"
    and "\<And>c. c < kMaxCpus \<Longrightarrow> set (chain_of s c) \<subseteq> registered s"
    and "\<And>c. c < kMaxCpus \<Longrightarrow> sorted_wrt (\<lambda>a b. (a, b) \<in> edge_rel (lo_graph s)) (chain_of s c)"
  using assms unfolding LockOrder_inv_def by blast+

lemma LockOrder_init_inv: "LockOrder_inv LockOrder_init"
proof -
  have "edge_rel (lo_graph LockOrder_init) = {}"
    by (simp add: LockOrder_init_def DirectedGraph_init_rel)
  then show ?thesis
    by (auto simp: LockOrder_inv_def LockOrder_shape_def LockOrder_init_def SlotTable_init_def
        SlotTable_get_def DirectedGraph_init_def DirectedGraph_inv_def kLocks_def
        StaticStack_init_laws chain_of_def acyclic_def)
qed

section \<open>Adding one lock above a chain\<close>

lemma rtrancl_add_into:
  assumes "\<And>h. h \<in> H \<Longrightarrow> (x, h) \<notin> E\<^sup>*" and "(x, y) \<in> (E \<union> H \<times> {x})\<^sup>*"
  shows "(x, y) \<in> E\<^sup>*"
  using assms(2)
proof (induction rule: rtrancl_induct)
  case (step y z)
  with assms(1) show ?case by (auto intro: rtrancl_into_rtrancl)
qed simp

lemma acyclic_add_into:
  assumes "acyclic E" "finite H" "\<And>h. h \<in> H \<Longrightarrow> (x, h) \<notin> E\<^sup>*"
  shows "acyclic (E \<union> H \<times> {x})"
  using assms(2,3)
proof (induction H rule: finite_induct)
  case empty
  then show ?case using assms(1) by simp
next
  case (insert h H)
  then have "(x, h) \<notin> (E \<union> H \<times> {x})\<^sup>*"
    using rtrancl_add_into[of H x E h] by auto
  moreover have "E \<union> insert h H \<times> {x} = insert (h, x) (E \<union> H \<times> {x})" by auto
  ultimately show ?case using insert by (simp add: acyclic_insert)
qed

lemma connect_all_rel:
  assumes "DirectedGraph_inv g" "x < length g" "set hs \<subseteq> {..<length g}"
  shows "let g' = fold (\<lambda>h g. DirectedGraph_connect h x g) hs g
    in edge_rel g' = edge_rel g \<union> set hs \<times> {x} \<and> DirectedGraph_inv g' \<and> length g' = length g"
  using assms
proof (induction hs arbitrary: g)
  case (Cons h hs)
  then have "DirectedGraph_inv (DirectedGraph_connect h x g)"
    "length (DirectedGraph_connect h x g) = length g"
    "edge_rel (DirectedGraph_connect h x g) = insert (h, x) (edge_rel g)"
    using DirectedGraph_connect_inv[of g h x] DirectedGraph_connect_rel[of h g x]
    by (auto simp: DirectedGraph_inv_def)
  with Cons.IH[of "DirectedGraph_connect h x g"] Cons.prems show ?case
    by (auto simp: Let_def)
qed simp

lemma acquire_scan_decides:
  assumes "DirectedGraph_inv g" "index < length g"
  shows "\<exists>status. acquire_scan g index hs = Some status \<and>
     (status = lk_kOk \<longleftrightarrow> (\<forall>h \<in> set hs. (index, h) \<notin> (edge_rel g)\<^sup>*)) \<and>
     (status = lk_kCycle \<or> status = lk_kRecursive \<or> status = lk_kOk)"
  using assms
  by (induction hs) (auto simp: DirectedGraph_reaches_decides split: bool.splits)

text \<open>What a granted acquisition does to the state.\<close>

definition lock_granted :: "LockOrder \<Rightarrow> nat \<Rightarrow> u64 \<Rightarrow> nat \<Rightarrow> LockOrder \<Rightarrow> bool" where
  "lock_granted s cpu lock index s' \<longleftrightarrow>
     (\<forall>i. SlotTable_get i (lo_locks s') = (if i = index then Some lock else SlotTable_get i (lo_locks s))) \<and>
     (\<forall>i. i \<noteq> index \<longrightarrow> SlotTable_get i (lo_locks s) \<noteq> Some lock) \<and>
     edge_rel (lo_graph s') = edge_rel (lo_graph s) \<union> set (chain_of s cpu) \<times> {index} \<and>
     (\<forall>h \<in> set (chain_of s cpu). (index, h) \<notin> (edge_rel (lo_graph s))\<^sup>*) \<and>
     (\<forall>c. chain_of s' c = (if c = cpu then chain_of s cpu @ [index] else chain_of s c)) \<and>
     LockOrder_shape s'"

lemma LockOrder_lengths:
  assumes "LockOrder_inv s"
  shows "length (lo_locks s) = kLocks" "length (lo_graph s) = kLocks" "length (lo_held s) = kMaxCpus"
    "DirectedGraph_inv (lo_graph s)"
  using assms by (simp_all add: LockOrder_inv_def LockOrder_shape_def)

lemma LockOrder_index_range: "LockOrder_inv s \<Longrightarrow> i \<in> registered s \<Longrightarrow> i < kLocks"
  using st.get_range[of i "lo_locks s"] by (auto simp: LockOrder_lengths registered_def)

lemma find_lock_hit:
  assumes "LockOrder_inv s" "LockOrder_find_lock lock s \<noteq> kLocks"
  shows "SlotTable_get (LockOrder_find_lock lock s) (lo_locks s) = Some lock"
    and "LockOrder_find_lock lock s < kLocks"
proof -
  show lt: "LockOrder_find_lock lock s < kLocks"
    using assms st.find_if_bound[of "\<lambda>r. r = lock" "lo_locks s"]
    by (simp add: LockOrder_find_lock_def LockOrder_lengths)
  then show "SlotTable_get (LockOrder_find_lock lock s) (lo_locks s) = Some lock"
    using st.find_if_hit[of "\<lambda>r. r = lock" "lo_locks s"] assms(1)
    by (simp add: LockOrder_find_lock_def LockOrder_lengths)
qed

lemma find_lock_miss:
  assumes "LockOrder_inv s" "LockOrder_find_lock lock s = kLocks"
  shows "SlotTable_get i (lo_locks s) \<noteq> Some lock"
  using assms st.find_if_miss_iff[of "\<lambda>r. r = lock" "lo_locks s"]
  by (auto simp: LockOrder_find_lock_def LockOrder_lengths)

lemma lock_granted_inv:
  assumes inv: "LockOrder_inv s" and cpu: "cpu < kMaxCpus" and g: "lock_granted s cpu lock index s'"
  shows "LockOrder_inv s'"
proof -
  let ?E = "edge_rel (lo_graph s)" and ?E' = "edge_rel (lo_graph s')"
  have get': "\<And>i. SlotTable_get i (lo_locks s') = (if i = index then Some lock else SlotTable_get i (lo_locks s))"
    and new: "\<And>i. i \<noteq> index \<Longrightarrow> SlotTable_get i (lo_locks s) \<noteq> Some lock"
    and E: "?E' = ?E \<union> set (chain_of s cpu) \<times> {index}"
    and free: "\<And>h. h \<in> set (chain_of s cpu) \<Longrightarrow> (index, h) \<notin> ?E\<^sup>*"
    and chain: "\<And>c. chain_of s' c = (if c = cpu then chain_of s cpu @ [index] else chain_of s c)"
    and shape: "LockOrder_shape s'"
    using g unfolding lock_granted_def by blast+
  note one = LockOrder_invD(2)[OF inv] and sub = LockOrder_invD(3)[OF inv]
    and ac = LockOrder_invD(4)[OF inv] and ch = LockOrder_invD(5)[OF inv] and srt = LockOrder_invD(6)[OF inv]
  have reg: "registered s' = insert index (registered s)"
    using get' by (auto simp: registered_def)
  have "acyclic ?E'" unfolding E using acyclic_add_into[OF ac finite_set free] .
  moreover have "?E' \<subseteq> registered s' \<times> registered s'"
    unfolding E reg using sub ch[OF cpu] by blast
  moreover have "set (chain_of s' c) \<subseteq> registered s'" if "c < kMaxCpus" for c
    using ch[OF that] by (auto simp: chain reg)
  moreover have "sorted_wrt (\<lambda>a b. (a, b) \<in> ?E') (chain_of s' c)" if "c < kMaxCpus" for c
    using sorted_wrt_mono_rel[OF _ srt[OF that], of "\<lambda>a b. (a, b) \<in> ?E'"]
    by (auto simp: chain E sorted_wrt_append)
  moreover have "i = j" if "SlotTable_get i (lo_locks s') = Some a" "SlotTable_get j (lo_locks s') = Some a" for i j a
  proof (cases "a = lock")
    case True
    then show ?thesis using that new[of i] new[of j] get'[of i] get'[of j] by (auto split: if_splits)
  next
    case False
    then show ?thesis using that one[of i a j] get'[of i] get'[of j] by (auto split: if_splits)
  qed
  ultimately show ?thesis using shape by (intro LockOrder_invI)
qed

section \<open>Every operation on every branch\<close>

text \<open>The slot an acquisition works on: the lock's own, or the lowest vacant one.\<close>

definition lock_slot :: "u64 \<Rightarrow> LockOrder \<Rightarrow> nat" where
  "lock_slot lock s =
     (if LockOrder_find_lock lock s = kLocks then LockOrder_vacant_slot s else LockOrder_find_lock lock s)"

lemma lock_slot_facts:
  assumes inv: "LockOrder_inv s" and ne: "lock_slot lock s \<noteq> kLocks"
  shows "lock_slot lock s < kLocks"
    and "SlotTable_get (lock_slot lock s) (lo_locks s) =
      (if LockOrder_find_lock lock s = kLocks then None else Some lock)"
    and "\<And>i. i \<noteq> lock_slot lock s \<Longrightarrow> SlotTable_get i (lo_locks s) \<noteq> Some lock"
proof -
  have vac: "LockOrder_find_lock lock s = kLocks \<Longrightarrow>
      lock_slot lock s < kLocks \<and> SlotTable_get (lock_slot lock s) (lo_locks s) = None"
    using ne st.vacant_bound[of 0 "lo_locks s"] st.vacant_free[of 0 "lo_locks s"] inv
    by (simp add: lock_slot_def LockOrder_vacant_slot_def LockOrder_lengths)
  show "lock_slot lock s < kLocks"
    using vac find_lock_hit(2)[OF inv] by (auto simp: lock_slot_def)
  show got: "SlotTable_get (lock_slot lock s) (lo_locks s) =
      (if LockOrder_find_lock lock s = kLocks then None else Some lock)"
    using vac find_lock_hit(1)[OF inv] by (simp add: lock_slot_def)
  show "SlotTable_get i (lo_locks s) \<noteq> Some lock" if "i \<noteq> lock_slot lock s" for i
  proof (cases "LockOrder_find_lock lock s = kLocks")
    case True
    then show ?thesis using find_lock_miss[OF inv] by blast
  next
    case False
    then show ?thesis
      using got that inv unfolding LockOrder_inv_def by auto
  qed
qed

lemma chain_view: "chain_of s cpu = StaticStack_view (lo_held s ! cpu)"
  by (simp add: chain_of_def)

lemma full_iff: "LockOrder_inv s \<Longrightarrow> cpu < kMaxCpus \<Longrightarrow>
    StaticStack_full (lo_held s ! cpu) \<longleftrightarrow> length (chain_of s cpu) = kDepth"
  by (auto simp: LockOrder_inv_def LockOrder_shape_def chain_of_def StaticStack_defs)

lemma acquire_granted_state:
  assumes inv: "LockOrder_inv s" and cpu: "cpu < kMaxCpus" and ne: "lock_slot lock s \<noteq> kLocks"
    and room: "length (chain_of s cpu) \<noteq> kDepth"
    and push: "StaticStack_push (lock_slot lock s) (lo_held s ! cpu) = (pushed, held')"
    and free: "\<And>h. h \<in> set (chain_of s cpu) \<Longrightarrow> (lock_slot lock s, h) \<notin> (edge_rel (lo_graph s))\<^sup>*"
  shows "pushed \<and> lock_granted s cpu lock (lock_slot lock s)
     (s\<lparr>lo_locks := if SlotTable_get (lock_slot lock s) (lo_locks s) = None
          then snd (SlotTable_insert lock 0 (lo_locks s)) else lo_locks s,
        lo_graph := fold (\<lambda>h g. DirectedGraph_connect h (lock_slot lock s) g)
          (StaticStack_view (lo_held s ! cpu)) (lo_graph s),
        lo_held := (lo_held s)[cpu := held']\<rparr>)"
    (is "_ \<and> lock_granted _ _ _ ?i ?s'")
proof -
  note slot = lock_slot_facts[OF inv ne]
  have st: "StaticStack_inv (lo_held s ! cpu)" "StaticStack_depth (lo_held s ! cpu) = kDepth"
    using inv cpu by (auto simp: LockOrder_inv_def LockOrder_shape_def)
  have pushed: "pushed" "StaticStack_view held' = chain_of s cpu @ [?i]"
      "StaticStack_inv held'" "StaticStack_depth held' = kDepth"
    using ss.push_view[OF st(1) push] ss.view_bound[OF st(1)] st(2) room
    by (auto simp: chain_view)
  have hs: "set (chain_of s cpu) \<subseteq> {..<kLocks}"
    using inv LockOrder_index_range[OF inv] cpu unfolding LockOrder_inv_def by blast
  have graph: "edge_rel (lo_graph ?s') = edge_rel (lo_graph s) \<union> set (chain_of s cpu) \<times> {?i}"
    "DirectedGraph_inv (lo_graph ?s')" "length (lo_graph ?s') = kLocks"
    using connect_all_rel[OF LockOrder_lengths(4)[OF inv], of ?i "chain_of s cpu"] slot(1) hs
    by (auto simp: LockOrder_lengths[OF inv] Let_def chain_view)
  have get: "SlotTable_get i (lo_locks ?s') = (if i = ?i then Some lock else SlotTable_get i (lo_locks s))" for i
    using slot(1,2) inv by (auto simp: st.ins_get LockOrder_lengths lock_slot_def LockOrder_vacant_slot_def)
  have chains: "chain_of ?s' c = (if c = cpu then chain_of s cpu @ [?i] else chain_of s c)" for c
    using pushed(2) cpu by (auto simp: chain_view LockOrder_lengths[OF inv])
  have "LockOrder_shape ?s'"
    using inv pushed(3,4) graph(2,3) cpu
    by (auto simp: LockOrder_inv_def LockOrder_shape_def nth_list_update st.ins_capacity)
  then show ?thesis
    unfolding lock_granted_def using pushed(1) get slot(3) graph(1) free chains by blast
qed

lemma LockOrder_acquire_cases:
  assumes inv: "LockOrder_inv s" and cpu: "cpu < kMaxCpus"
  obtains (refused) status where "LockOrder_acquire cpu lock s = Some (status, s)"
      "status = lk_kCapacity \<longleftrightarrow> lock = 0 \<or> length (chain_of s cpu) = kDepth \<or> lock_slot lock s = kLocks"
      "status = lk_kCapacity \<or> (status \<in> {lk_kCycle, lk_kRecursive} \<and>
         (\<exists>h \<in> set (chain_of s cpu). (lock_slot lock s, h) \<in> (edge_rel (lo_graph s))\<^sup>*))"
    | (granted) s' where "LockOrder_acquire cpu lock s = Some (lk_kOk, s')"
      "lock_granted s cpu lock (lock_slot lock s) s'"
      "lock \<noteq> 0" "length (chain_of s cpu) \<noteq> kDepth" "lock_slot lock s \<noteq> kLocks"
proof (cases "lock = 0 \<or> length (chain_of s cpu) = kDepth \<or> lock_slot lock s = kLocks")
  case True
  then have "LockOrder_acquire cpu lock s = Some (lk_kCapacity, s)"
    by (auto simp: LockOrder_acquire_def full_iff[OF inv cpu] Let_def lock_slot_def)
  then show ?thesis using True by (intro refused) auto
next
  case False
  let ?i = "lock_slot lock s"
  have "?i < length (lo_graph s)"
    using lock_slot_facts(1)[OF inv] False by (simp add: LockOrder_lengths[OF inv])
  then obtain status where scan: "acquire_scan (lo_graph s) ?i (chain_of s cpu) = Some status"
    and ok: "status = lk_kOk \<longleftrightarrow> (\<forall>h \<in> set (chain_of s cpu). (?i, h) \<notin> (edge_rel (lo_graph s))\<^sup>*)"
    and kinds: "status = lk_kCycle \<or> status = lk_kRecursive \<or> status = lk_kOk"
    using acquire_scan_decides[OF LockOrder_lengths(4)[OF inv], of ?i "chain_of s cpu"] by blast
  show ?thesis
  proof (cases "status = lk_kOk")
    case refuse: False
    then have "LockOrder_acquire cpu lock s = Some (status, s)"
      using False scan
      by (auto simp: LockOrder_acquire_def full_iff[OF inv cpu] Let_def lock_slot_def chain_view)
    then show ?thesis using refuse ok kinds False by (intro refused) auto
  next
    case True
    obtain pushed held' where push: "StaticStack_push ?i (lo_held s ! cpu) = (pushed, held')"
      by fastforce
    have fresh: "SlotTable_get ?i (lo_locks s) = None \<Longrightarrow> fst (SlotTable_insert lock 0 (lo_locks s)) = ?i"
      using lock_slot_facts(2)[OF inv] False
      by (auto simp: st.ins_index lock_slot_def LockOrder_vacant_slot_def split: if_splits)
    show ?thesis
      using acquire_granted_state[OF inv cpu _ _ push] ok True False scan push fresh
      by (intro granted)
        (auto simp: LockOrder_acquire_def full_iff[OF inv cpu] Let_def lock_slot_def chain_view Check_def)
  qed
qed

lemma LockOrder_acquire_inv:
  "\<lbrakk>LockOrder_inv s; cpu < kMaxCpus; LockOrder_acquire cpu lock s = Some (status, s')\<rbrakk> \<Longrightarrow> LockOrder_inv s'"
  by (rule LockOrder_acquire_cases[of s cpu lock]) (auto intro: lock_granted_inv)

text \<open>A smaller state: fewer held locks, or a lock forgotten.\<close>

lemma LockOrder_release_cases:
  assumes inv: "LockOrder_inv s" and cpu: "cpu < kMaxCpus"
  obtains (refused) status where "LockOrder_release cpu lock s = Some (status, s)" "status \<noteq> lk_kOk"
      "chain_of s cpu = [] \<or> SlotTable_get (last (chain_of s cpu)) (lo_locks s) \<noteq> Some lock"
    | (released) s' where "LockOrder_release cpu lock s = Some (lk_kOk, s')" "LockOrder_inv s'"
      "chain_of s cpu \<noteq> []" "SlotTable_get (last (chain_of s cpu)) (lo_locks s) = Some lock"
      "\<And>c. chain_of s' c = (if c = cpu then butlast (chain_of s cpu) else chain_of s c)"
      "lo_locks s' = lo_locks s" "lo_graph s' = lo_graph s" "lo_names s' = lo_names s"
proof -
  let ?i = "LockOrder_find_lock lock s" and ?h = "lo_held s ! cpu"
  have st: "StaticStack_inv ?h" "StaticStack_depth ?h = kDepth"
    using inv cpu by (auto simp: LockOrder_inv_def LockOrder_shape_def)
  have top: "StaticStack_top ?h = (if chain_of s cpu = [] then None else Some (last (chain_of s cpu)))"
    using ss.top_view[OF st(1)] by (simp add: chain_view)
  have one: "SlotTable_get j (lo_locks s) = Some lock \<Longrightarrow> ?i \<noteq> kLocks \<and> ?i = j" for j
    using find_lock_miss[OF inv, of lock j] find_lock_hit(1)[OF inv, of lock] inv
    unfolding LockOrder_inv_def by blast
  show ?thesis
  proof (cases "?i = kLocks \<or> ?i \<notin> set (chain_of s cpu) \<or> StaticStack_top ?h \<noteq> Some ?i")
    case True
    then show ?thesis
      using one[of "last (chain_of s cpu)"] top
      by (intro refused[of "if ?i = kLocks \<or> ?i \<notin> set (chain_of s cpu) then lk_kNotHeld else lk_kOutOfOrder"])
        (auto simp: LockOrder_release_def Let_def chain_view split: if_splits)
  next
    case False
    obtain popped h' where pop: "StaticStack_pop 0 ?h = (popped, h')" by fastforce
    let ?s' = "s\<lparr>lo_held := (lo_held s)[cpu := h']\<rparr>"
    have v: "popped" "StaticStack_view h' = butlast (chain_of s cpu)" "StaticStack_inv h'"
      "StaticStack_depth h' = kDepth"
      using ss.pop_view[OF st(1) pop] False st(2) by (auto simp: chain_view)
    have chains: "chain_of ?s' c = (if c = cpu then butlast (chain_of s cpu) else chain_of s c)" for c
      using v(2) cpu by (auto simp: chain_view LockOrder_lengths[OF inv])
    have "set (butlast (chain_of s cpu)) \<subseteq> registered s"
      "sorted_wrt (\<lambda>a b. (a, b) \<in> edge_rel (lo_graph s)) (butlast (chain_of s cpu))"
      using LockOrder_invD(5,6)[OF inv cpu]
      by (auto dest: in_set_butlastD) (simp add: butlast_conv_take sorted_wrt_take)
    then have "LockOrder_inv ?s'"
      using inv v(3,4) cpu unfolding LockOrder_inv_def chains
      by (simp add: LockOrder_shape_def nth_list_update registered_def)
    then show ?thesis
      using False v(1) pop top chains find_lock_hit(1)[OF inv, of lock]
      by (intro released[of ?s']) (auto simp: LockOrder_release_def Let_def chain_view Check_def split: if_splits)
  qed
qed

lemma drop_vertex_inv:
  assumes inv: "LockOrder_inv s" and v: "v < kLocks"
    and unheld: "\<And>c. c < kMaxCpus \<Longrightarrow> v \<notin> set (chain_of s c)"
  shows "LockOrder_inv (s\<lparr>lo_locks := snd (SlotTable_erase v (lo_locks s)), lo_names := names,
      lo_graph := DirectedGraph_erase v (lo_graph s)\<rparr>)" (is "LockOrder_inv ?s'")
proof -
  note g = LockOrder_lengths[OF inv]
  let ?E = "edge_rel (lo_graph s)" and ?E' = "edge_rel (lo_graph ?s')"
  have E: "?E' = {(i, j) \<in> ?E. i \<noteq> v \<and> j \<noteq> v}"
    using DirectedGraph_erase_rel[OF g(4), of v] v g by simp
  have reg: "registered ?s' = registered s - {v}" by (auto simp: registered_def st.erase_get)
  have chains: "chain_of ?s' c = chain_of s c" for c by (simp add: chain_view)
  have shape: "LockOrder_shape ?s'"
    using inv DirectedGraph_erase_inv[OF g(4), of v] v g
    by (simp add: LockOrder_inv_def LockOrder_shape_def st.erase_capacity)
  have one: "\<And>i j a. SlotTable_get i (lo_locks ?s') = Some a \<Longrightarrow> SlotTable_get j (lo_locks ?s') = Some a \<Longrightarrow> i = j"
    using LockOrder_invD(2)[OF inv] by (simp add: st.erase_get split: if_splits)
  have ac: "acyclic ?E'" using acyclic_subset[OF LockOrder_invD(4)[OF inv], of ?E'] unfolding E by blast
  have sub: "?E' \<subseteq> registered ?s' \<times> registered ?s'"
    using LockOrder_invD(3)[OF inv] unfolding E reg by blast
  have ch: "set (chain_of ?s' c) \<subseteq> registered ?s'" if "c < kMaxCpus" for c
    using LockOrder_invD(5)[OF inv that] unheld[OF that] unfolding chains reg by blast
  have "sorted_wrt (\<lambda>a b. (a, b) \<in> ?E') (chain_of ?s' c)" if "c < kMaxCpus" for c
    using sorted_wrt_mono_rel[OF _ LockOrder_invD(6)[OF inv that], of "\<lambda>a b. (a, b) \<in> ?E'"]
      unheld[OF that] unfolding chains E by blast
  with shape one ac sub ch show ?thesis by (intro LockOrder_invI)
qed

lemma LockOrder_forget_cases:
  assumes inv: "LockOrder_inv s"
  obtains (unknown) "LockOrder_forget lock s = Some (True, s)"
      "\<And>i. SlotTable_get i (lo_locks s) \<noteq> Some lock"
    | (held) cpu h where "LockOrder_forget lock s = Some (False, s)" "cpu < kMaxCpus"
      "h \<in> set (chain_of s cpu)" "SlotTable_get h (lo_locks s) = Some lock"
    | (forgotten) s' v where "LockOrder_forget lock s = Some (True, s')" "LockOrder_inv s'"
      "SlotTable_get v (lo_locks s) = Some lock"
      "\<And>i. SlotTable_get i (lo_locks s') = (if i = v then None else SlotTable_get i (lo_locks s))"
      "edge_rel (lo_graph s') = {(i, j) \<in> edge_rel (lo_graph s). i \<noteq> v \<and> j \<noteq> v}"
      "\<And>c. chain_of s' c = chain_of s c"
proof -
  let ?i = "LockOrder_find_lock lock s"
  show ?thesis
  proof (cases "?i = kLocks")
    case True
    then show ?thesis using find_lock_miss[OF inv] by (intro unknown) (auto simp: LockOrder_forget_def)
  next
    case hit: False
    note v = find_lock_hit[OF inv hit]
    show ?thesis
    proof (cases "\<exists>chain \<in> set (lo_held s). ?i \<in> set (StaticStack_view chain)")
      case True
      then obtain cpu where "cpu < kMaxCpus" "?i \<in> set (chain_of s cpu)"
        unfolding chain_view by (metis LockOrder_lengths(3)[OF inv] in_set_conv_nth)
      then show ?thesis using v True hit by (intro held) (auto simp: LockOrder_forget_def)
    next
      case False
      let ?s' = "s\<lparr>lo_locks := snd (SlotTable_erase ?i (lo_locks s)), lo_names := (lo_names s)[?i := None],
                     lo_graph := DirectedGraph_erase ?i (lo_graph s)\<rparr>"
      have erased: "fst (SlotTable_erase ?i (lo_locks s))" using v(1) by (simp add: st.erase_ok)
      note g = LockOrder_lengths[OF inv]
      have rel: "edge_rel (lo_graph ?s') = {(i, j) \<in> edge_rel (lo_graph s). i \<noteq> ?i \<and> j \<noteq> ?i}"
        using DirectedGraph_erase_rel[OF g(4), of ?i] v(2) g by simp
      have "?i \<notin> set (chain_of s c)" if "c < kMaxCpus" for c
        using False that g(3) by (auto simp: chain_view)
      then have "LockOrder_inv ?s'" using drop_vertex_inv[OF inv v(2)] by simp
      then show ?thesis
        using hit False v erased rel
        by (intro forgotten[of ?s' ?i])
          (auto simp: LockOrder_forget_def Let_def Check_def st.erase_get chain_view split: prod.splits)
    qed
  qed
qed

text \<open>Naming a lock registers it, and panics exactly when a new name finds the table full.\<close>

lemma LockOrder_name_lock_cases:
  assumes inv: "LockOrder_inv s"
  obtains (panic) "LockOrder_name_lock lock label s = None" "lock_slot lock s = kLocks"
    | (named) s' where "LockOrder_name_lock lock label s = Some s'" "LockOrder_inv s'"
      "lo_graph s' = lo_graph s" "lo_held s' = lo_held s"
proof (cases "lock = 0 \<or> label = None \<or> LockOrder_find_lock lock s \<noteq> kLocks")
  case True
  have "LockOrder_inv (s\<lparr>lo_names := names\<rparr>)" for names
    using inv by (simp add: LockOrder_inv_def LockOrder_shape_def registered_def chain_of_def)
  then show ?thesis using True inv named
    by (cases "lock = 0 \<or> label = None") (auto simp: LockOrder_name_lock_def Let_def)
next
  case False
  show ?thesis
  proof (cases "lock_slot lock s = kLocks")
    case True
    then show ?thesis using False
      by (intro panic) (auto simp: LockOrder_name_lock_def Let_def lock_slot_def Check_def)
  next
    case ne: False
    note slot = lock_slot_facts[OF inv ne]
    let ?i = "lock_slot lock s"
    let ?s' = "s\<lparr>lo_locks := snd (SlotTable_insert lock 0 (lo_locks s)), lo_names := (lo_names s)[?i := label]\<rparr>"
    have get: "SlotTable_get i (lo_locks ?s') = (if i = ?i then Some lock else SlotTable_get i (lo_locks s))" for i
      using slot(1) inv False by (simp add: st.ins_get LockOrder_lengths lock_slot_def LockOrder_vacant_slot_def)
    have reg: "registered s \<subseteq> registered ?s'" using get by (auto simp: registered_def)
    have "i = j" if "SlotTable_get i (lo_locks ?s') = Some a" "SlotTable_get j (lo_locks ?s') = Some a" for i j a
      using that slot(3)[of i] slot(3)[of j] LockOrder_invD(2)[OF inv, of i a j] unfolding get
      by (cases "i = ?i"; cases "j = ?i") auto
    moreover have "LockOrder_shape ?s'"
      using inv by (simp add: LockOrder_inv_def LockOrder_shape_def st.ins_capacity)
    moreover have "chain_of ?s' c = chain_of s c" "lo_graph ?s' = lo_graph s" for c
      by (simp_all add: chain_of_def)
    ultimately have "LockOrder_inv ?s'"
      using LockOrder_invD(3-6)[OF inv] reg by (intro LockOrder_invI) (blast | simp)+
    then show ?thesis using False ne
      by (intro named[of ?s']) (auto simp: LockOrder_name_lock_def Let_def lock_slot_def Check_def
          st.ins_index LockOrder_vacant_slot_def)
  qed
qed

section \<open>Reachable states\<close>

text \<open>The system: any processor runs any operation, in any order.\<close>

inductive lockdep_step :: "LockOrder \<Rightarrow> LockOrder \<Rightarrow> bool" where
  acquire: "\<lbrakk>cpu < kMaxCpus; LockOrder_acquire cpu lock s = Some (status, s')\<rbrakk> \<Longrightarrow> lockdep_step s s'"
| release: "\<lbrakk>cpu < kMaxCpus; LockOrder_release cpu lock s = Some (status, s')\<rbrakk> \<Longrightarrow> lockdep_step s s'"
| forget: "LockOrder_forget lock s = Some (gone, s') \<Longrightarrow> lockdep_step s s'"
| name: "LockOrder_name_lock lock label s = Some s' \<Longrightarrow> lockdep_step s s'"

lemma lockdep_step_inv: "lockdep_step s s' \<Longrightarrow> LockOrder_inv s \<Longrightarrow> LockOrder_inv s'"
proof (induction rule: lockdep_step.induct)
  case (acquire cpu lock s status s')
  then show ?case by (rule_tac LockOrder_acquire_inv)
next
  case (release cpu lock s status s')
  then show ?case by (rule_tac LockOrder_release_cases[of s cpu lock]) auto
next
  case (forget lock s gone s')
  then show ?case by (rule_tac LockOrder_forget_cases[of s lock]) auto
next
  case (name lock label s s')
  then show ?case by (rule_tac LockOrder_name_lock_cases[of s lock label]) auto
qed

lemma lockdep_reachable_inv: "lockdep_step\<^sup>*\<^sup>* LockOrder_init s \<Longrightarrow> LockOrder_inv s"
  by (induction rule: rtranclp_induct) (auto intro: LockOrder_init_inv lockdep_step_inv)

text \<open>
  Two processors never nest the same two locks in opposite orders: whoever holds
  \<open>a\<close> under \<open>b\<close> excludes anyone holding \<open>b\<close> under \<open>a\<close>.
\<close>

lemma chains_agree:
  assumes inv: "LockOrder_inv s" and "c < kMaxCpus" "d < kMaxCpus"
    and "chain_of s c = xs @ a # ys @ b # zs"
  shows "chain_of s d \<noteq> us @ b # vs @ a # ws"
proof
  assume "chain_of s d = us @ b # vs @ a # ws"
  moreover have "sorted_wrt (\<lambda>a b. (a, b) \<in> edge_rel (lo_graph s)) (chain_of s k)" if "k < kMaxCpus" for k
    using inv that by (simp add: LockOrder_inv_def)
  ultimately have "(a, b) \<in> edge_rel (lo_graph s)" "(b, a) \<in> edge_rel (lo_graph s)"
    using assms(2-4) by (metis in_set_conv_decomp append_Cons list.set_intros sorted_wrt.simps(2) sorted_wrt_append)+
  then have "(a, a) \<in> (edge_rel (lo_graph s))\<^sup>+" by (meson trancl.simps)
  then show False using inv by (simp add: LockOrder_inv_def acyclic_def)
qed

section \<open>Properties\<close>

text \<open>
  C6. However the processors interleave acquisitions, releases, forgets and namings, the
  recorded lock order stays acyclic, and no processor holds lock \<open>a\<close> under lock \<open>b\<close> while
  another holds \<open>b\<close> under \<open>a\<close>: the AB-BA pattern never enters the held chains.
\<close>

theorem lockdep_no_inversion:
  assumes "lockdep_step\<^sup>*\<^sup>* LockOrder_init s"
  shows "acyclic (edge_rel (lo_graph s)) \<and>
    (\<forall>c < kMaxCpus. \<forall>d < kMaxCpus. \<forall>a b xs ys zs us vs ws.
       chain_of s c = xs @ a # ys @ b # zs \<longrightarrow> chain_of s d \<noteq> us @ b # vs @ a # ws)"
  using lockdep_reachable_inv[OF assms] chains_agree LockOrder_invD(4) by blast

theorem lockdep_no_inversion_witness:
  "\<exists>s. lockdep_step\<^sup>*\<^sup>* LockOrder_init s \<and> LockOrder_acquire 0 0x1000 LockOrder_init = Some (lk_kOk, s) \<and>
     acyclic (edge_rel (lo_graph s))"
proof -
  have cpu: "0 < kMaxCpus" by (simp add: kMaxCpus_def)
  have free: "lock_slot 0x1000 LockOrder_init \<noteq> kLocks" "length (chain_of LockOrder_init 0) \<noteq> kDepth"
    "chain_of LockOrder_init 0 = []"
    by (simp_all add: lock_slot_def LockOrder_init_def LockOrder_find_lock_def LockOrder_vacant_slot_def
        SlotTable_init_def SlotTable_find_if_def SlotTable_vacant_def kLocks_def kDepth_def kMaxCpus_def
        chain_of_def StaticStack_init_laws upt_rec)
  from LockOrder_init_inv cpu show ?thesis
  proof (cases rule: LockOrder_acquire_cases[of _ _ "0x1000"])
    case (refused status)
    with free show ?thesis by auto
  next
    case (granted s')
    then have "lockdep_step\<^sup>*\<^sup>* LockOrder_init s'" using lockdep_step.acquire[OF cpu] by blast
    with lockdep_no_inversion[OF this] granted show ?thesis by blast
  qed
qed

text \<open>
  C15. In every reachable state \<^verbatim>\<open>acquire\<close> returns without tripping a check, and refuses
  exactly when it must: \<open>kCapacity\<close> when the pointer is null, the chain is full or the
  identity table is full; otherwise an order error exactly when the new lock already
  reaches a held one, in which case nothing changes; otherwise the lock goes on top of the
  processor's chain and every lock held below it is ordered before it.
\<close>

theorem lockdep_acquire_decides:
  assumes "lockdep_step\<^sup>*\<^sup>* LockOrder_init s" and "cpu < kMaxCpus"
  shows "\<exists>status s'. LockOrder_acquire cpu lock s = Some (status, s') \<and>
    (status \<noteq> lk_kOk \<longrightarrow> s' = s) \<and>
    (status = lk_kCapacity \<longleftrightarrow> lock = 0 \<or> length (chain_of s cpu) = kDepth \<or> lock_slot lock s = kLocks) \<and>
    (status = lk_kOk \<longrightarrow> chain_of s' cpu = chain_of s cpu @ [lock_slot lock s] \<and>
       SlotTable_get (lock_slot lock s) (lo_locks s') = Some lock \<and>
       edge_rel (lo_graph s') = edge_rel (lo_graph s) \<union> set (chain_of s cpu) \<times> {lock_slot lock s}) \<and>
    (status \<noteq> lk_kCapacity \<longrightarrow> status \<in> {lk_kOk, lk_kCycle, lk_kRecursive} \<and>
       (status = lk_kOk \<longleftrightarrow>
          (\<forall>h \<in> set (chain_of s cpu). (lock_slot lock s, h) \<notin> (edge_rel (lo_graph s))\<^sup>*)))"
proof -
  from lockdep_reachable_inv[OF assms(1)] assms(2) show ?thesis
  proof (cases rule: LockOrder_acquire_cases[of _ _ lock])
    case (refused status)
    then show ?thesis by auto
  next
    case (granted s')
    then show ?thesis by (auto simp: lock_granted_def)
  qed
qed

theorem lockdep_acquire_decides_witness:
  "\<exists>status s'. LockOrder_acquire 3 0 LockOrder_init = Some (status, s') \<and> status = lk_kCapacity"
  using lockdep_acquire_decides[of LockOrder_init 3 0] by (auto simp: kMaxCpus_def)

end
