(* ===== verification/Vma.thy ===== *)
theory Vma
  imports Words "HOL-Library.Multiset"
begin

text \<open>
  The per-task register of address ranges, \<^verbatim>\<open>kernel/mm/vma.hpp\<close> and \<^verbatim>\<open>vma.cpp\<close>: the
  chain of regions in arrival order, the brk span beside it, and the operations behind
  mmap, munmap, mprotect, brk, fork and the page-fault lookup. The intrusive chain is a
  list. Handles the register only carries (the file node, its backend, the pinned open
  file) are opaque identities. An operation that calls \<^verbatim>\<open>new\<close> takes the allocator's
  coming answers as a list (\<open>news\<close>, see \<open>new_answer\<close>) and hands back the rest.
\<close>

section \<open>State\<close>

datatype VmaKind = VmaKind_kAnonymous | VmaKind_kFile | VmaKind_kStack | VmaKind_kDevice

text \<open>One attachment of shared storage: its identity, the storage, the attached span.\<close>

record SharedAttachment =
  sa_id :: nat
  sa_pages :: nat
  sa_start :: u64
  sa_end :: u64

record VmaRegion =
  vr_start :: u64
  vr_end :: u64
  vr_kind :: VmaKind
  vr_stack_floor :: u64
  vr_readable :: bool
  vr_writable :: bool
  vr_executable :: bool
  vr_backing :: nat
  vr_file_ops :: nat
  vr_file_self :: nat
  vr_file_lifetime :: "nat option"
  vr_open_file :: "nat option"
  vr_file_offset :: u64
  vr_shared :: "SharedAttachment option"

definition VmaRegion_blank :: VmaRegion where
  "VmaRegion_blank =
     \<lparr>vr_start = 0, vr_end = 0, vr_kind = VmaKind_kAnonymous, vr_stack_floor = 0,
      vr_readable = False, vr_writable = False, vr_executable = False, vr_backing = 0,
      vr_file_ops = 0, vr_file_self = 0, vr_file_lifetime = None, vr_open_file = None,
      vr_file_offset = 0, vr_shared = None\<rparr>"

record VmaProtection =
  vp_readable :: bool
  vp_writable :: bool
  vp_executable :: bool

record VmaStore =
  vs_regions :: "VmaRegion list"
  vs_heap :: VmaRegion
  vs_heap_break :: u64
  vs_heap_max :: u64
  vs_heap_recorded :: bool
  vs_mmap_ceiling :: u64

definition VmaStore_init :: "u64 \<Rightarrow> VmaStore" where
  "VmaStore_init mmap_top =
     \<lparr>vs_regions = [], vs_heap = VmaRegion_blank, vs_heap_break = 0, vs_heap_max = 0,
      vs_heap_recorded = False, vs_mmap_ceiling = mmap_top\<rparr>"

definition vma_kSize :: u64 where
  "vma_kSize = 4096"

text \<open>Whether the next \<^verbatim>\<open>new\<close> succeeds; past the listed answers it does.\<close>

fun new_answer :: "bool list \<Rightarrow> bool \<times> bool list" where
  "new_answer [] = (True, [])"
| "new_answer (answer # news) = (answer, news)"

section \<open>Operations\<close>

definition overlaps :: "VmaRegion \<Rightarrow> VmaRegion \<Rightarrow> bool" where
  "overlaps existing spec \<longleftrightarrow> vr_start existing < vr_end spec \<and> vr_start spec < vr_end existing"

definition overlaps_span :: "VmaRegion \<Rightarrow> u64 \<Rightarrow> u64 \<Rightarrow> bool" where
  "overlaps_span existing start end' \<longleftrightarrow> vr_start existing < end' \<and> start < vr_end existing"

definition covers :: "VmaRegion \<Rightarrow> u64 \<Rightarrow> bool" where
  "covers region address \<longleftrightarrow> vr_start region \<le> address \<and> address < vr_end region"

definition VmaStore_set_mmap_ceiling :: "u64 \<Rightarrow> VmaStore \<Rightarrow> VmaStore" where
  "VmaStore_set_mmap_ceiling ceiling' s = s\<lparr>vs_mmap_ceiling := ceiling'\<rparr>"

definition VmaStore_register_range ::
  "VmaRegion \<Rightarrow> bool list \<Rightarrow> VmaStore \<Rightarrow> unit result \<times> bool list \<times> VmaStore" where
  "VmaStore_register_range spec news s =
     (if vr_start spec \<ge> vr_end spec then (Inl kInvalidArgument, news, s)
      else if \<not> vs_heap_recorded s \<and> vr_start (vs_heap s) < vr_end (vs_heap s) \<and> overlaps (vs_heap s) spec
        then (Inl kAlreadyExists, news, s)
      else if \<exists>scan \<in> set (vs_regions s). overlaps scan spec then (Inl kAlreadyExists, news, s)
      else
        let (granted, news') = new_answer news
        in if \<not> granted then (Inl kOutOfMemory, news', s)
           else
             let born = (if vr_kind spec = VmaKind_kStack \<and> vr_stack_floor spec = 0
                         then spec\<lparr>vr_stack_floor := vr_start spec + vma_kSize\<rparr> else spec)
             in (Inr (), news', s\<lparr>vs_regions := vs_regions s @ [born]\<rparr>))"

definition VmaStore_find :: "u64 \<Rightarrow> VmaStore \<Rightarrow> VmaRegion option" where
  "VmaStore_find address s =
     (if \<not> vs_heap_recorded s \<and> covers (vs_heap s) address then Some (vs_heap s)
      else List.find (\<lambda>scan. covers scan address) (vs_regions s))"

lemma find_covers: "VmaStore_find address s = Some r \<Longrightarrow> covers r address"
  by (auto simp: VmaStore_find_def find_Some_iff split: if_splits)

text \<open>The walk of \<^verbatim>\<open>stack_contains\<close> from the cursor up to the end.\<close>

function stack_walk :: "u64 \<Rightarrow> u64 \<Rightarrow> VmaStore \<Rightarrow> bool" where
  "stack_walk cursor end' s =
     (if \<not> cursor < end' then True
      else case VmaStore_find cursor s of
             None \<Rightarrow> False
           | Some region \<Rightarrow>
               if vr_kind region \<noteq> VmaKind_kStack \<or> \<not> vr_readable region \<or> \<not> vr_writable region \<or>
                  cursor < vr_stack_floor region then False
               else stack_walk (math_Min (vr_end region) end') end' s)"
  by pat_completeness auto
termination
  by (relation "measure (\<lambda>(cursor, end', _). unat end' - unat cursor)")
    (auto dest!: find_covers simp: covers_def math_Min_def word_less_nat_alt)

declare stack_walk.simps [simp del]

definition VmaStore_stack_contains :: "u64 \<Rightarrow> u64 \<Rightarrow> VmaStore \<Rightarrow> bool" where
  "VmaStore_stack_contains start bytes s =
     (if bytes = 0 \<or> bytes > NOT 0 - start then False else stack_walk start (start + bytes) s)"

definition VmaStore_teardown :: "VmaStore \<Rightarrow> VmaStore" where
  "VmaStore_teardown s = s\<lparr>vs_regions := []\<rparr>"

definition VmaStore_region_count :: "VmaStore \<Rightarrow> nat" where
  "VmaStore_region_count s = length (vs_regions s)"

definition VmaStore_seed_heap :: "u64 \<Rightarrow> u64 \<Rightarrow> VmaStore \<Rightarrow> VmaStore" where
  "VmaStore_seed_heap base max' s =
     s\<lparr>vs_heap := (vs_heap s)\<lparr>vr_start := base, vr_end := base, vr_kind := VmaKind_kAnonymous,
          vr_readable := True, vr_writable := True, vr_executable := False, vr_backing := 0,
          vr_file_offset := 0\<rparr>,
       vs_heap_break := base, vs_heap_max := max', vs_heap_recorded := False\<rparr>"

text \<open>
  One pass of \<^verbatim>\<open>find_free_spot\<close>: each span in the way pushes the candidate below itself. The
  outer loop repeats passes until one moves nothing.
\<close>

definition push_below :: "u64 \<Rightarrow> VmaRegion \<Rightarrow> u64 \<times> bool \<Rightarrow> u64 \<times> bool" where
  "push_below bytes scan state =
     (case state of (spot_end, moved) \<Rightarrow>
       if vr_start scan < spot_end \<and> vr_end scan > spot_end - bytes then (vr_start scan, True)
       else (spot_end, moved))"

definition free_spot_pass :: "u64 \<Rightarrow> VmaStore \<Rightarrow> u64 \<Rightarrow> u64 \<times> bool" where
  "free_spot_pass bytes s spot_end =
     fold (push_below bytes) (vs_regions s)
       (if vs_heap_recorded s then (spot_end, False) else push_below bytes (vs_heap s) (spot_end, False))"

lemma push_below_fold:
  "fold (push_below bytes) xs (e, m) = (e', m') \<Longrightarrow> e' \<le> e \<and> (m' \<longrightarrow> m \<or> e' < e) \<and> (m \<longrightarrow> m')"
proof (induction xs arbitrary: e m)
  case (Cons x xs)
  obtain e1 m1 where one: "push_below bytes x (e, m) = (e1, m1)" by fastforce
  then have "e1 \<le> e \<and> (m1 \<longrightarrow> m \<or> e1 < e) \<and> (m \<longrightarrow> m1)" by (auto simp: push_below_def split: if_splits)
  moreover have "e' \<le> e1 \<and> (m' \<longrightarrow> m1 \<or> e' < e1) \<and> (m1 \<longrightarrow> m')"
    using Cons.IH[of e1 m1] Cons.prems one by simp
  ultimately show ?case by force
qed simp

lemma free_spot_pass_moves: "free_spot_pass bytes s e = (e', True) \<Longrightarrow> e' < e"
proof -
  assume "free_spot_pass bytes s e = (e', True)"
  then have "fold (push_below bytes) ((if vs_heap_recorded s then [] else [vs_heap s]) @ vs_regions s) (e, False) = (e', True)"
    by (auto simp: free_spot_pass_def)
  from push_below_fold[OF this] show "e' < e" by simp
qed

function free_spot_hunt :: "u64 \<Rightarrow> VmaStore \<Rightarrow> u64 \<Rightarrow> u64" where
  "free_spot_hunt bytes s spot_end =
     (case free_spot_pass bytes s spot_end of
        (lower, True) \<Rightarrow> free_spot_hunt bytes s lower
      | (same, False) \<Rightarrow> same)"
  by pat_completeness auto
termination
  by (relation "measure (\<lambda>(_, _, spot_end). unat spot_end)")
    (auto dest!: free_spot_pass_moves[OF sym] simp: word_less_nat_alt)

declare free_spot_hunt.simps [simp del]

definition VmaStore_find_free_spot :: "u64 \<Rightarrow> u64 \<Rightarrow> VmaStore \<Rightarrow> u64 result" where
  "VmaStore_find_free_spot ceiling' bytes s =
     (if bytes = 0 \<or> ceiling' < bytes then Inl kOutOfMemory
      else
        let spot_end = free_spot_hunt bytes s ceiling'
        in if spot_end < bytes then Inl kOutOfMemory else Inr (spot_end - bytes))"

text \<open>
  The loop of \<^verbatim>\<open>unregister_range\<close> over the chain: \<open>behind\<close> are the regions passed, the
  third argument starts at \<^verbatim>\<open>scan\<close>. A split pushes its tail to the back of the chain, where
  the loop meets it later unless \<^verbatim>\<open>scan\<close> was the last region.
\<close>

function withdraw ::
  "u64 \<Rightarrow> u64 \<Rightarrow> VmaRegion list \<Rightarrow> VmaRegion list \<Rightarrow> bool list \<Rightarrow> unit result \<times> bool list \<times> VmaRegion list" where
  "withdraw start end' behind [] news = (Inr (), news, behind)"
| "withdraw start end' behind (scan # rest) news =
     (if overlaps_span scan start end' then
        let keeps_head = vr_start scan < start;
            keeps_tail = vr_end scan > end'
        in if keeps_head \<and> keeps_tail then
             let (granted, news') = new_answer news
             in if \<not> granted then (Inl kOutOfMemory, news', behind @ scan # rest)
                else
                  let tail = scan\<lparr>vr_start := end',
                        vr_file_offset := vr_file_offset scan + (end' - vr_start scan)\<rparr>;
                      head = scan\<lparr>vr_end := start\<rparr>
                  in if rest = [] then (Inr (), news', behind @ [head, tail])
                     else withdraw start end' (behind @ [head]) (rest @ [tail]) news'
           else if keeps_head then
             withdraw start end' (behind @ [scan\<lparr>vr_end := start\<rparr>]) rest news
           else if keeps_tail then
             withdraw start end'
               (behind @ [scan\<lparr>vr_start := end',
                   vr_file_offset := vr_file_offset scan + (end' - vr_start scan)\<rparr>]) rest news
           else withdraw start end' behind rest news
      else withdraw start end' (behind @ [scan]) rest news)"
  by pat_completeness auto
termination
  by (relation "measure (\<lambda>(start, end', _, pending, _).
        sum_list (map (\<lambda>r. if overlaps_span r start end' then 2 else 1) pending))")
    (auto simp: overlaps_span_def)

text \<open>The conditions on the brk span that \<^verbatim>\<open>unregister_range\<close> and \<^verbatim>\<open>protect\<close> compute.\<close>

definition heap_covered :: "u64 \<Rightarrow> u64 \<Rightarrow> VmaStore \<Rightarrow> bool" where
  "heap_covered start end' s \<longleftrightarrow> \<not> vs_heap_recorded s \<and> vr_start (vs_heap s) < vr_end (vs_heap s) \<and>
     overlaps_span (vs_heap s) start end'"

definition whole_heap :: "u64 \<Rightarrow> u64 \<Rightarrow> VmaStore \<Rightarrow> bool" where
  "whole_heap start end' s \<longleftrightarrow> heap_covered start end' s \<and> start \<le> vr_start (vs_heap s) \<and> vr_end (vs_heap s) \<le> end'"

definition VmaStore_unregister_range ::
  "u64 \<Rightarrow> u64 \<Rightarrow> bool list \<Rightarrow> VmaStore \<Rightarrow> unit result \<times> bool list \<times> VmaStore" where
  "VmaStore_unregister_range start end' news s =
     (if start \<ge> end' then (Inl kInvalidArgument, news, s)
      else
        let heap_cut = heap_covered start end' s;
            (granted, news') = (if heap_cut then new_answer news else (True, news))
        in if \<not> granted then (Inl kOutOfMemory, news', s)
           else
             let s' = (if heap_cut
                       then s\<lparr>vs_regions := vs_regions s @ [vs_heap s], vs_heap_recorded := True\<rparr> else s);
                 (answer, news'', regions) = withdraw start end' [] (vs_regions s') news'
             in (answer, news'', s'\<lparr>vs_regions := regions\<rparr>))"

text \<open>The end of \<^verbatim>\<open>move_heap_end\<close>: an error of the chain update is passed on, otherwise the
  span and the break move.\<close>

definition heap_end_commit ::
  "u64 \<Rightarrow> u64 \<Rightarrow> unit result \<times> bool list \<times> VmaStore \<Rightarrow> u64 result \<times> bool list \<times> VmaStore" where
  "heap_end_commit wanted target outcome =
     (case outcome of
        (Inl e, news, s) \<Rightarrow> (Inl e, news, s)
      | (Inr _, news, s) \<Rightarrow>
          (Inr target, news, s\<lparr>vs_heap := (vs_heap s)\<lparr>vr_end := wanted\<rparr>, vs_heap_break := target\<rparr>))"

definition heap_extension :: "u64 \<Rightarrow> u64 \<Rightarrow> VmaRegion" where
  "heap_extension start end' =
     VmaRegion_blank\<lparr>vr_start := start, vr_end := end', vr_kind := VmaKind_kAnonymous,
       vr_readable := True, vr_writable := True\<rparr>"

definition VmaStore_move_heap_end :: "u64 \<Rightarrow> bool list \<Rightarrow> VmaStore \<Rightarrow> u64 result \<times> bool list \<times> VmaStore" where
  "VmaStore_move_heap_end target news s =
     (let heap = vs_heap s;
          wanted = math_AlignUp target vma_kSize
      in if vr_start heap = 0 \<and> vr_end heap = 0 then (Inl kNotFound, news, s)
         else if target = 0 then (Inr (vs_heap_break s), news, s)
         else if target < vr_start heap \<or> target > vs_heap_max s then (Inl kInvalidArgument, news, s)
         else if wanted > vr_end heap \<and> (\<exists>scan \<in> set (vs_regions s). overlaps_span scan (vr_end heap) wanted)
           then (Inl kAlreadyExists, news, s)
         else heap_end_commit wanted target
           (if vs_heap_recorded s \<and> wanted > vr_end heap
            then VmaStore_register_range (heap_extension (vr_end heap) wanted) news s
            else if vs_heap_recorded s \<and> wanted < vr_end heap
            then VmaStore_unregister_range wanted (vr_end heap) news s
            else (Inr (), news, s)))"

text \<open>
  \<^verbatim>\<open>stage_protection\<close>: the three stretches of a source cut at both ends, the middle one under
  the new terms. \<open>None\<close> is a refused allocation.
\<close>

fun stage_parts ::
  "VmaRegion \<Rightarrow> VmaProtection \<Rightarrow> (bool \<times> u64 \<times> u64) list \<Rightarrow> bool list \<Rightarrow> VmaRegion list option \<times> bool list" where
  "stage_parts source terms [] news = (Some [], news)"
| "stage_parts source terms ((middle, lo, hi) # cuts) news =
     (if lo = hi then stage_parts source terms cuts news
      else
        let (granted, news') = new_answer news
        in if \<not> granted then (None, news')
           else
             let part = source\<lparr>vr_start := lo, vr_end := hi,
                   vr_file_offset := vr_file_offset source + (lo - vr_start source)\<rparr>;
                 part' = (if middle then part\<lparr>vr_readable := vp_readable terms,
                   vr_writable := vp_writable terms, vr_executable := vp_executable terms\<rparr> else part);
                 (parts, news'') = stage_parts source terms cuts news'
             in (map_option ((#) part') parts, news''))"

definition stage_protection ::
  "VmaRegion \<Rightarrow> u64 \<Rightarrow> u64 \<Rightarrow> VmaProtection \<Rightarrow> bool list \<Rightarrow> VmaRegion list option \<times> bool list" where
  "stage_protection source start end' terms news =
     (let cut_start = math_Max start (vr_start source);
          cut_end = math_Min end' (vr_end source)
      in stage_parts source terms
           [(False, vr_start source, cut_start), (True, cut_start, cut_end), (False, cut_end, vr_end source)] news)"

text \<open>Staging every overlapped region of the chain, in order, stopping at the first refusal.\<close>

fun stage_all ::
  "VmaRegion list \<Rightarrow> u64 \<Rightarrow> u64 \<Rightarrow> VmaProtection \<Rightarrow> bool list \<Rightarrow> VmaRegion list option \<times> bool list" where
  "stage_all [] start end' terms news = (Some [], news)"
| "stage_all (scan # rest) start end' terms news =
     (if overlaps_span scan start end' then
        case stage_protection scan start end' terms news of
          (None, news') \<Rightarrow> (None, news')
        | (Some parts, news') \<Rightarrow>
            (case stage_all rest start end' terms news' of
               (None, news'') \<Rightarrow> (None, news'')
             | (Some others, news'') \<Rightarrow> (Some (parts @ others), news''))
      else stage_all rest start end' terms news)"

text \<open>The furthest point reached from \<open>spot\<close> by one region of the register.\<close>

definition span_reach :: "VmaStore \<Rightarrow> u64 \<Rightarrow> u64" where
  "span_reach s spot =
     fold (\<lambda>scan reach. if vr_start scan \<le> spot \<and> spot < vr_end scan
                        then math_Max reach (vr_end scan) else reach)
       (vs_regions s)
       (if \<not> vs_heap_recorded s \<and> vr_start (vs_heap s) \<le> spot \<and> spot < vr_end (vs_heap s)
        then vr_end (vs_heap s) else spot)"

function VmaStore_span_known :: "u64 \<Rightarrow> u64 \<Rightarrow> VmaStore \<Rightarrow> bool" where
  "VmaStore_span_known spot end' s =
     (if \<not> spot < end' then True
      else let reach = span_reach s spot
           in if reach \<le> spot then False else VmaStore_span_known reach end' s)"
  by pat_completeness auto
termination
  by (relation "measure (\<lambda>(spot, end', _). unat end' - unat spot)")
    (auto simp: word_less_nat_alt word_le_nat_alt)

declare VmaStore_span_known.simps [simp del]

definition VmaStore_protect ::
  "u64 \<Rightarrow> u64 \<Rightarrow> VmaProtection \<Rightarrow> bool list \<Rightarrow> VmaStore \<Rightarrow> unit result \<times> bool list \<times> VmaStore" where
  "VmaStore_protect start end' terms news s =
     (if start \<ge> end' \<or> \<not> VmaStore_span_known start end' s then (Inl kInvalidArgument, news, s)
      else
        case stage_all (vs_regions s) start end' terms news of
          (None, news') \<Rightarrow> (Inl kOutOfMemory, news', s)
        | (Some batch, news') \<Rightarrow>
            let heap = vs_heap s
            in case (if heap_covered start end' s \<and> \<not> whole_heap start end' s
                     then stage_protection heap start end' terms news' else (Some [], news')) of
                 (None, news'') \<Rightarrow> (Inl kOutOfMemory, news'', s)
               | (Some heap_parts, news'') \<Rightarrow>
                   let kept = filter (\<lambda>scan. \<not> overlaps_span scan start end') (vs_regions s);
                       s' = (if whole_heap start end' s then
                               s\<lparr>vs_heap := heap\<lparr>vr_readable := vp_readable terms,
                                   vr_writable := vp_writable terms, vr_executable := vp_executable terms\<rparr>\<rparr>
                             else if heap_covered start end' s then s\<lparr>vs_heap_recorded := True\<rparr>
                             else s)
                   in (Inr (), news'', s'\<lparr>vs_regions := kept @ batch @ heap_parts\<rparr>))"

definition VmaStore_max_end :: "VmaStore \<Rightarrow> u64" where
  "VmaStore_max_end s =
     fold (\<lambda>scan highest. math_Max highest (vr_end scan)) (vs_regions s) (vr_end (vs_heap s))"

text \<open>
  \<^verbatim>\<open>clone\<close>: regions are registered one by one in the copy; a shared attachment is created
  once per attached start and found again for the other regions of that attachment.
  \<open>clone_region\<close> builds the region to register for \<^verbatim>\<open>scan\<close>; \<open>fresh_id\<close> names the next
  attachment object. \<open>None\<close> is the null pointer.
\<close>

definition clone_region ::
  "VmaRegion \<Rightarrow> nat \<Rightarrow> bool list \<Rightarrow> VmaRegion list \<Rightarrow> VmaRegion \<times> nat \<times> bool \<times> bool list" where
  "clone_region scan fresh_id news born_regions =
     (case vr_shared scan of
        None \<Rightarrow> (scan, fresh_id, True, news)
      | Some own \<Rightarrow>
          (case List.find (\<lambda>born. case vr_shared born of Some a \<Rightarrow> sa_start a = sa_start own | None \<Rightarrow> False)
                  born_regions of
             Some born \<Rightarrow> (scan\<lparr>vr_shared := vr_shared born\<rparr>, fresh_id, True, news)
           | None \<Rightarrow>
               let (granted, news') = new_answer news
               in (scan\<lparr>vr_shared := Some (own\<lparr>sa_id := fresh_id\<rparr>)\<rparr>, fresh_id + 1, granted, news')))"

fun clone_regions ::
  "VmaRegion list \<Rightarrow> nat \<Rightarrow> bool list \<Rightarrow> VmaStore \<Rightarrow> VmaStore option \<times> bool list" where
  "clone_regions [] fresh_id news copy = (Some copy, news)"
| "clone_regions (scan # rest) fresh_id news copy =
     (let (region, fresh_id', granted, news') = clone_region scan fresh_id news (vs_regions copy)
      in if \<not> granted then (None, news')
         else case VmaStore_register_range region news' copy of
                (Inl _, news'', _) \<Rightarrow> (None, news'')
              | (Inr _, news'', copy') \<Rightarrow> clone_regions rest fresh_id' news'' copy')"

definition VmaStore_clone :: "u64 \<Rightarrow> nat \<Rightarrow> bool list \<Rightarrow> VmaStore \<Rightarrow> VmaStore option \<times> bool list" where
  "VmaStore_clone mmap_top fresh_id news s =
     (let (granted, news') = new_answer news
      in if \<not> granted then (None, news')
         else clone_regions (vs_regions s) fresh_id news'
           ((VmaStore_init mmap_top)\<lparr>vs_heap := vs_heap s, vs_heap_max := vs_heap_max s,
              vs_heap_break := vs_heap_break s, vs_heap_recorded := vs_heap_recorded s,
              vs_mmap_ceiling := vs_mmap_ceiling s\<rparr>))"

section \<open>The register as a map from addresses to terms\<close>

text \<open>
  What the register promises about one byte: the region's terms with the span removed and
  the file offset moved to that byte. Splitting and trimming must not change it.
\<close>

definition region_at :: "VmaRegion \<Rightarrow> u64 \<Rightarrow> VmaRegion" where
  "region_at r a = r\<lparr>vr_start := 0, vr_end := 0, vr_file_offset := vr_file_offset r + (a - vr_start r)\<rparr>"

definition vma_view :: "VmaStore \<Rightarrow> u64 \<Rightarrow> VmaRegion option" where
  "vma_view s a = map_option (\<lambda>r. region_at r a) (VmaStore_find a s)"

text \<open>The spans that cover anything: the brk span while it is not recorded in the chain and
  not empty, and the chain.\<close>

definition live_spans :: "VmaStore \<Rightarrow> VmaRegion list" where
  "live_spans s = (if \<not> vs_heap_recorded s \<and> vr_start (vs_heap s) < vr_end (vs_heap s) then [vs_heap s] else []) @
     vs_regions s"

definition apart :: "VmaRegion \<Rightarrow> VmaRegion \<Rightarrow> bool" where
  "apart x y \<longleftrightarrow> \<not> overlaps x y"

definition spans_ok :: "VmaRegion list \<Rightarrow> bool" where
  "spans_ok xs \<longleftrightarrow> sorted_wrt apart xs \<and> (\<forall>r \<in> set xs. vr_start r < vr_end r)"

definition vma_inv :: "VmaStore \<Rightarrow> bool" where
  "vma_inv s \<longleftrightarrow> spans_ok (live_spans s) \<and> vr_start (vs_heap s) \<le> vr_end (vs_heap s) \<and>
     unat (vs_heap_max s) + 4095 < 2 ^ 64"

definition in_span :: "u64 \<Rightarrow> u64 \<Rightarrow> u64 \<Rightarrow> bool" where
  "in_span start end' a \<longleftrightarrow> start \<le> a \<and> a < end'"

lemma apart_sym: "apart x y \<longleftrightarrow> apart y x"
  by (auto simp: apart_def overlaps_def)

lemma covers_not_apart: "covers x a \<Longrightarrow> covers y a \<Longrightarrow> \<not> apart x y"
  by (auto simp: covers_def apart_def overlaps_def)

lemma spans_unique:
  "\<lbrakk>spans_ok xs; x \<in> set xs; y \<in> set xs; covers x a; covers y a\<rbrakk> \<Longrightarrow> x = y"
  unfolding spans_ok_def
  by (induction xs) (auto dest: covers_not_apart apart_sym[THEN iffD1])

lemma find_live_set: "VmaStore_find a s = Some r \<Longrightarrow> r \<in> set (live_spans s) \<and> covers r a"
  by (auto simp: VmaStore_find_def live_spans_def covers_def find_Some_iff split: if_splits)

lemma find_None_iff_live: "VmaStore_find a s = None \<longleftrightarrow> (\<forall>r \<in> set (live_spans s). \<not> covers r a)"
  by (auto simp: VmaStore_find_def live_spans_def covers_def find_None_iff)

lemma find_live:
  assumes "vma_inv s"
  shows "VmaStore_find a s = Some r \<longleftrightarrow> r \<in> set (live_spans s) \<and> covers r a"
proof
  assume r: "r \<in> set (live_spans s) \<and> covers r a"
  then obtain q where q: "VmaStore_find a s = Some q"
    using find_None_iff_live[of a s] by (cases "VmaStore_find a s") auto
  have "spans_ok (live_spans s)" using assms by (simp add: vma_inv_def)
  then have "q = r" using spans_unique find_live_set[OF q] r by blast
  with q show "VmaStore_find a s = Some r" by simp
qed (rule find_live_set)

lemma view_Some:
  assumes "vma_inv s"
  shows "vma_view s a = Some t \<longleftrightarrow> (\<exists>r \<in> set (live_spans s). covers r a \<and> region_at r a = t)"
  unfolding vma_view_def map_option_eq_Some find_live[OF assms] by blast

text \<open>Two registers whose spans cover the same bytes with the same terms look the same.\<close>

lemma view_eqI:
  assumes "\<And>t. vma_view s a = Some t \<longleftrightarrow> m = Some t"
  shows "vma_view s a = m"
  by (metis assms not_None_eq)

lemma spans_ok_mset:
  assumes "mset xs = mset ys" "spans_ok xs"
  shows "spans_ok ys"
proof -
  have "sorted_wrt apart xs \<Longrightarrow> mset xs = mset ys \<Longrightarrow> sorted_wrt apart ys" for xs ys
  proof (induction xs arbitrary: ys)
    case (Cons x xs)
    then have "x \<in> set ys" by (metis list.set_intros(1) set_mset_mset)
    then obtain as bs where ys: "ys = as @ x # bs" by (meson split_list)
    with Cons.prems(2) have "mset xs = mset (as @ bs)" by simp
    moreover from this have "set xs = set (as @ bs)" by (metis set_mset_mset)
    ultimately show ?case
      using Cons.IH[of "as @ bs"] Cons.prems(1) unfolding ys sorted_wrt_append
      by (auto simp: apart_sym sorted_wrt_append)
  qed simp
  moreover have "set xs = set ys" using assms(1) by (metis set_mset_mset)
  ultimately show ?thesis using assms by (auto simp: spans_ok_def)
qed

text \<open>Cutting each span into pieces of its own keeps the spans apart.\<close>

definition cuts_of :: "(VmaRegion \<Rightarrow> VmaRegion list) \<Rightarrow> VmaRegion \<Rightarrow> bool" where
  "cuts_of f r \<longleftrightarrow> spans_ok (f r) \<and>
     (\<forall>p \<in> set (f r). vr_start r \<le> vr_start p \<and> vr_end p \<le> vr_end r)"

lemma spans_ok_concat:
  assumes "spans_ok xs" "\<And>r. r \<in> set xs \<Longrightarrow> cuts_of f r"
  shows "spans_ok (concat (map f xs))"
  using assms
proof (induction xs)
  case (Cons x xs)
  have "apart p q" if p: "p \<in> set (f x)" and q: "q \<in> set (f y)" and y: "y \<in> set xs" for p q y
  proof -
    have "apart x y" using Cons.prems(1) y by (simp add: spans_ok_def)
    moreover have "cuts_of f x" "cuts_of f y" using Cons.prems(2) y by auto
    ultimately show ?thesis using p q by (force simp: cuts_of_def apart_def overlaps_def)
  qed
  with Cons show ?case by (auto simp: spans_ok_def sorted_wrt_append cuts_of_def)
qed (simp add: spans_ok_def)

section \<open>Registering\<close>

lemma spans_ok_append:
  "spans_ok (xs @ [r]) \<longleftrightarrow> spans_ok xs \<and> vr_start r < vr_end r \<and> (\<forall>x \<in> set xs. apart x r)"
  by (auto simp: spans_ok_def sorted_wrt_append)

lemma spans_ok_suffix: "spans_ok (xs @ ys) \<Longrightarrow> spans_ok ys"
  by (simp add: spans_ok_def sorted_wrt_append)

text \<open>The region a registration records.\<close>

definition born_region :: "VmaRegion \<Rightarrow> VmaRegion" where
  "born_region spec =
     (if vr_kind spec = VmaKind_kStack \<and> vr_stack_floor spec = 0
      then spec\<lparr>vr_stack_floor := vr_start spec + vma_kSize\<rparr> else spec)"

lemma born_region_span [simp]:
  "vr_start (born_region spec) = vr_start spec" "vr_end (born_region spec) = vr_end spec"
  "covers (born_region spec) a \<longleftrightarrow> covers spec a"
  by (simp_all add: born_region_def covers_def)

lemma VmaStore_register_range_cases:
  obtains (refused) e news' where "VmaStore_register_range spec news s = (Inl e, news', s)"
      "vr_start spec < vr_end spec \<Longrightarrow> \<forall>r \<in> set (live_spans s). apart r spec \<Longrightarrow> e = kOutOfMemory"
    | (recorded) news' where "VmaStore_register_range spec news s =
        (Inr (), news', s\<lparr>vs_regions := vs_regions s @ [born_region spec]\<rparr>)"
      "vr_start spec < vr_end spec" "\<forall>r \<in> set (live_spans s). apart r spec" "fst (new_answer news)"
proof (cases "vr_start spec < vr_end spec \<and> (\<forall>r \<in> set (live_spans s). apart r spec) \<and> fst (new_answer news)")
  case True
  then have "VmaStore_register_range spec news s =
      (Inr (), snd (new_answer news), s\<lparr>vs_regions := vs_regions s @ [born_region spec]\<rparr>)"
    by (auto simp: VmaStore_register_range_def live_spans_def apart_def born_region_def split: prod.splits)
  then show ?thesis using True recorded by blast
next
  case False
  then have "\<exists>e news'. VmaStore_register_range spec news s = (Inl e, news', s) \<and>
      (vr_start spec < vr_end spec \<longrightarrow> (\<forall>r \<in> set (live_spans s). apart r spec) \<longrightarrow> e = kOutOfMemory)"
    by (auto simp: VmaStore_register_range_def live_spans_def apart_def split: prod.splits)
  then show ?thesis using refused by blast
qed

lemma recorded_state:
  assumes "vma_inv s" "vr_start spec < vr_end spec" "\<forall>r \<in> set (live_spans s). apart r spec"
  shows "vma_inv (s\<lparr>vs_regions := vs_regions s @ [born_region spec]\<rparr>)" (is "vma_inv ?s'")
    and "vma_view (s\<lparr>vs_regions := vs_regions s @ [born_region spec]\<rparr>) a =
      (if in_span (vr_start spec) (vr_end spec) a then Some (region_at (born_region spec) a) else vma_view s a)"
proof -
  have live: "live_spans ?s' = live_spans s @ [born_region spec]" by (simp add: live_spans_def)
  have "\<forall>r \<in> set (live_spans s). apart r (born_region spec)"
    using assms(3) by (simp add: apart_def overlaps_def)
  then show inv: "vma_inv ?s'"
    using assms(1,2) unfolding vma_inv_def live spans_ok_append by simp
  have "\<not> covers r a" if "r \<in> set (live_spans s)" "covers spec a" for r
    using assms(3) that covers_not_apart by blast
  then show "vma_view ?s' a =
      (if in_span (vr_start spec) (vr_end spec) a then Some (region_at (born_region spec) a) else vma_view s a)"
    by (intro view_eqI)
      (auto simp: view_Some[OF inv] view_Some[OF assms(1)] live in_span_def covers_def)
qed

section \<open>Withdrawing\<close>

text \<open>What is left of one region when a stretch is withdrawn.\<close>

definition left_pieces :: "u64 \<Rightarrow> u64 \<Rightarrow> VmaRegion \<Rightarrow> VmaRegion list" where
  "left_pieces start end' r =
     (if overlaps_span r start end' then
        (if vr_start r < start then [r\<lparr>vr_end := start\<rparr>] else []) @
        (if vr_end r > end' then [r\<lparr>vr_start := end', vr_file_offset := vr_file_offset r + (end' - vr_start r)\<rparr>]
         else [])
      else [r])"

lemma left_pieces_cuts:
  "start < end' \<Longrightarrow> vr_start r < vr_end r \<Longrightarrow> cuts_of (left_pieces start end') r"
  by (auto simp: cuts_of_def left_pieces_def spans_ok_def apart_def overlaps_def overlaps_span_def)

lemma left_pieces_at:
  assumes "start < end'"
  shows "(\<exists>p \<in> set (left_pieces start end' r). covers p a \<and> region_at p a = t) \<longleftrightarrow>
    covers r a \<and> \<not> in_span start end' a \<and> region_at r a = t"
  using assms
  by (cases "overlaps_span r start end'"; cases "vr_start r < start"; cases "end' < vr_end r")
    (auto simp: left_pieces_def overlaps_span_def covers_def in_span_def region_at_def)

lemma withdraw_split:
  assumes "overlaps_span scan start end'" "vr_start scan < start" "end' < vr_end scan"
  shows "withdraw start end' behind (scan # rest) news =
    (let tail = scan\<lparr>vr_start := end', vr_file_offset := vr_file_offset scan + (end' - vr_start scan)\<rparr>;
         head = scan\<lparr>vr_end := start\<rparr>;
         (granted, news') = new_answer news
     in if \<not> granted then (Inl kOutOfMemory, news', behind @ scan # rest)
        else if rest = [] then (Inr (), news', behind @ [head, tail])
        else withdraw start end' (behind @ [head]) (rest @ [tail]) news')"
  using assms by (simp add: Let_def split: prod.splits)

lemma withdraw_keep:
  assumes "\<not> (overlaps_span scan start end' \<and> vr_start scan < start \<and> end' < vr_end scan)"
  shows "withdraw start end' behind (scan # rest) news =
    withdraw start end' (behind @ left_pieces start end' scan) rest news"
  using assms by (auto simp: Let_def left_pieces_def)

lemmas withdraw_unfold = withdraw_split withdraw_keep
declare withdraw.simps(2) [simp del]

lemma withdraw_plain:
  "\<forall>y \<in> set pending. \<not> (overlaps_span y start end' \<and> vr_start y < start \<and> end' < vr_end y) \<Longrightarrow>
     withdraw start end' behind pending news =
       (Inr (), news, behind @ concat (map (left_pieces start end') pending))"
  by (induction pending arbitrary: behind) (auto simp: withdraw_keep)

lemma withdraw_skip:
  "\<forall>x \<in> set xs. \<not> overlaps_span x start end' \<Longrightarrow>
     withdraw start end' behind (xs @ pending) news = withdraw start end' (behind @ xs) pending news"
  by (induction xs arbitrary: behind) (auto simp: withdraw_keep left_pieces_def)

lemma left_pieces_same:
  "\<forall>x \<in> set xs. \<not> overlaps_span x start end' \<Longrightarrow> concat (map (left_pieces start end') xs) = xs"
  by (induction xs) (auto simp: left_pieces_def)

text \<open>
  Regions apart from each other: only one can need a split, and then no other one is
  touched, so a refused allocation leaves the chain as it was.
\<close>

lemma withdraw_result:
  assumes ok: "spans_ok pending" and lt: "start < end'"
  obtains (oom) news' where "withdraw start end' behind pending news = (Inl kOutOfMemory, news', behind @ pending)"
      "\<not> fst (new_answer news)"
    | (cut) news' out where "withdraw start end' behind pending news = (Inr (), news', out)"
      "mset out = mset behind + mset (concat (map (left_pieces start end') pending))"
proof (cases "\<exists>y \<in> set pending. overlaps_span y start end' \<and> vr_start y < start \<and> end' < vr_end y")
  case False
  then show ?thesis using cut withdraw_plain[of pending start end' behind news] by auto
next
  case True
  then obtain xs y ys where p: "pending = xs @ y # ys"
    and y: "overlaps_span y start end'" "vr_start y < start" "end' < vr_end y"
    by (metis split_list)
  have other: "\<not> overlaps_span x start end'" if "x \<in> set xs \<union> set ys" for x
  proof -
    have "apart x y" using ok that unfolding p spans_ok_def sorted_wrt_append
      by (auto simp: apart_sym)
    with y show ?thesis by (auto simp: apart_def overlaps_def overlaps_span_def)
  qed
  let ?head = "y\<lparr>vr_end := start\<rparr>"
  let ?tail = "y\<lparr>vr_start := end', vr_file_offset := vr_file_offset y + (end' - vr_start y)\<rparr>"
  have go: "withdraw start end' behind pending news = withdraw start end' (behind @ xs) (y # ys) news"
    unfolding p using other by (intro withdraw_skip) simp
  have "\<not> overlaps_span ?tail start end'" by (simp add: overlaps_span_def)
  then have "\<forall>z \<in> set (ys @ [?tail]). \<not> overlaps_span z start end'" using other by simp
  then have rest: "withdraw start end' (behind @ xs @ [?head]) (ys @ [?tail]) news' =
      (Inr (), news', behind @ xs @ ?head # ys @ [?tail])" for news'
    using withdraw_skip[of "ys @ [?tail]" start end' "behind @ xs @ [?head]" "[]" news'] by simp
  have pieces: "concat (map (left_pieces start end') pending) = xs @ [?head, ?tail] @ ys"
    using y left_pieces_same[of xs start end'] left_pieces_same[of ys start end'] other
    by (simp add: p left_pieces_def)
  show ?thesis
  proof (cases "fst (new_answer news)")
    case True
    then have "withdraw start end' behind pending news =
        (Inr (), snd (new_answer news), behind @ xs @ ?head # ys @ [?tail])"
      unfolding go withdraw_split[OF y] using rest by (auto simp: Let_def split: prod.splits)
    then show ?thesis using pieces by (intro cut) auto
  next
    case False
    then have "withdraw start end' behind pending news = (Inl kOutOfMemory, snd (new_answer news), behind @ pending)"
      unfolding go withdraw_split[OF y] by (auto simp: p Let_def split: prod.splits)
    then show ?thesis using False by (intro oom)
  qed
qed

text \<open>Replacing every span by pieces that say the same about some bytes and nothing about
  the others.\<close>

lemma cut_view:
  assumes inv: "vma_inv s" and pieces: "mset (live_spans s') = mset (concat (map f (live_spans s)))"
    and cuts: "\<And>r. vr_start r < vr_end r \<Longrightarrow> cuts_of f r"
    and at: "\<And>r t. vr_start r < vr_end r \<Longrightarrow>
      (\<exists>p \<in> set (f r). covers p a \<and> region_at p a = t) \<longleftrightarrow> covers r a \<and> g (region_at r a) = Some t"
    and heap: "vr_start (vs_heap s') \<le> vr_end (vs_heap s')" "vs_heap_max s' = vs_heap_max s"
  shows "vma_inv s'" and "vma_view s' a = Option.bind (vma_view s a) g"
proof -
  have ok: "spans_ok (live_spans s)" using inv by (simp add: vma_inv_def)
  then have "cuts_of f r" if "r \<in> set (live_spans s)" for r
    using that cuts by (simp add: spans_ok_def)
  from spans_ok_concat[OF ok this] have "spans_ok (concat (map f (live_spans s)))" .
  then have "spans_ok (live_spans s')" using spans_ok_mset[OF pieces[symmetric]] by simp
  then show inv': "vma_inv s'" using heap inv by (simp add: vma_inv_def)
  have "set (live_spans s') = (\<Union>r \<in> set (live_spans s). set (f r))"
    using arg_cong[OF pieces, of set_mset] by (simp only: set_mset_mset set_concat set_map image_image)
  then have "(\<exists>p \<in> set (live_spans s'). covers p a \<and> region_at p a = t) \<longleftrightarrow>
      (\<exists>r \<in> set (live_spans s). covers r a \<and> g (region_at r a) = Some t)" for t
    using ok unfolding spans_ok_def by (simp only: bex_UN) (rule bex_cong[OF refl at], blast)
  moreover have "Option.bind (vma_view s a) g = Some t \<longleftrightarrow>
      (\<exists>r \<in> set (live_spans s). covers r a \<and> g (region_at r a) = Some t)" for t
    unfolding bind_eq_Some_conv view_Some[OF inv] by blast
  ultimately have "vma_view s' a = Some t \<longleftrightarrow> Option.bind (vma_view s a) g = Some t" for t
    by (simp only: view_Some[OF inv'])
  then show "vma_view s' a = Option.bind (vma_view s a) g" by (rule view_eqI)
qed

lemma withdraw_stretch_view:
  assumes inv: "vma_inv s" and lt: "start < end'"
    and pieces: "mset (live_spans s') = mset (concat (map (left_pieces start end') (live_spans s)))"
    and heap: "vr_start (vs_heap s') \<le> vr_end (vs_heap s')" "vs_heap_max s' = vs_heap_max s"
  shows "vma_inv s'" and "vma_view s' a = (if in_span start end' a then None else vma_view s a)"
proof -
  let ?g = "\<lambda>t. if in_span start end' a then None else Some t"
  have at: "(\<exists>p \<in> set (left_pieces start end' r). covers p a \<and> region_at p a = t) \<longleftrightarrow>
      covers r a \<and> ?g (region_at r a) = Some t" for r t
    using left_pieces_at[OF lt, of r a t] by simp
  note * = cut_view[OF inv pieces left_pieces_cuts[OF lt] at heap]
  show "vma_inv s'" by (rule *(1))
  show "vma_view s' a = (if in_span start end' a then None else vma_view s a)"
    using *(2) by (cases "vma_view s a") auto
qed

text \<open>Moving the brk span into the chain changes nothing that can be seen.\<close>

lemma record_heap_live:
  assumes "\<not> vs_heap_recorded s" "vr_start (vs_heap s) < vr_end (vs_heap s)"
  shows "mset (live_spans (s\<lparr>vs_regions := vs_regions s @ [vs_heap s], vs_heap_recorded := True\<rparr>)) = mset (live_spans s)"
  using assms by (simp add: live_spans_def)

lemma same_spans_view:
  assumes inv: "vma_inv s" and "mset (live_spans s') = mset (live_spans s)"
    and heap: "vs_heap s' = vs_heap s" "vs_heap_max s' = vs_heap_max s"
  shows "vma_inv s'" and "vma_view s' = vma_view s"
proof -
  show inv': "vma_inv s'"
    using inv spans_ok_mset[OF assms(2)[symmetric]] heap by (simp add: vma_inv_def)
  have "set (live_spans s') = set (live_spans s)" using assms(2) by (metis set_mset_mset)
  then show "vma_view s' = vma_view s"
    by (intro ext view_eqI) (simp only: view_Some[OF inv'] view_Some[OF inv])
qed

lemma VmaStore_unregister_range_cases:
  assumes inv: "vma_inv s" and lt: "start < end'"
  obtains (oom) news' s' where "VmaStore_unregister_range start end' news s = (Inl kOutOfMemory, news', s')"
      "vma_inv s'" "vma_view s' = vma_view s"
    | (withdrawn) news' s' where "VmaStore_unregister_range start end' news s = (Inr (), news', s')"
      "vma_inv s'" "\<And>a. vma_view s' a = (if in_span start end' a then None else vma_view s a)"
      "vs_heap s' = vs_heap s" "vs_heap_max s' = vs_heap_max s" "vs_heap_recorded s \<Longrightarrow> vs_heap_recorded s'"
proof -
  define cut where "cut = heap_covered start end' s"
  define s1 where "s1 = (if cut then s\<lparr>vs_regions := vs_regions s @ [vs_heap s], vs_heap_recorded := True\<rparr> else s)"
  obtain granted news1 where na: "(if cut then new_answer news else (True, news)) = (granted, news1)" by fastforce
  have nle: "(end' \<le> start) = False" using lt by (simp add: not_le)
  have unf: "VmaStore_unregister_range start end' news s =
      (if \<not> granted then (Inl kOutOfMemory, news1, s)
       else let (answer, news2, regions) = withdraw start end' [] (vs_regions s1) news1
            in (answer, news2, s1\<lparr>vs_regions := regions\<rparr>))"
    using na nle unfolding VmaStore_unregister_range_def s1_def cut_def[symmetric]
    by (simp add: Let_def)
  have live: "mset (live_spans s1) = mset (live_spans s)" "vs_heap s1 = vs_heap s" "vs_heap_max s1 = vs_heap_max s"
    using record_heap_live[of s] by (auto simp: s1_def cut_def heap_covered_def)
  note one = same_spans_view[OF inv live]
  have heap: "vr_start (vs_heap s) \<le> vr_end (vs_heap s)" using inv by (simp add: vma_inv_def)
  have uncut: "\<not> overlaps_span (vs_heap s1) start end'"
    if "\<not> vs_heap_recorded s1" "vr_start (vs_heap s1) < vr_end (vs_heap s1)"
  proof (cases cut)
    case True
    then show ?thesis using that(1) by (simp add: s1_def)
  next
    case False
    then have "s1 = s" by (simp add: s1_def)
    with False that show ?thesis by (simp add: cut_def heap_covered_def)
  qed
  have ok: "spans_ok (vs_regions s1)"
    using one(1) spans_ok_suffix unfolding vma_inv_def live_spans_def by blast
  show ?thesis
  proof (cases granted)
    case False
    then show ?thesis using unf inv oom[of news1 s] by simp
  next
    case True
    from ok lt show ?thesis
    proof (cases rule: withdraw_result[where behind = "[]" and news = news1])
      case (oom news')
      then have "VmaStore_unregister_range start end' news s = (Inl kOutOfMemory, news', s1)"
        using unf True by simp
      then show ?thesis using that(1) one by blast
    next
      case (cut news' out)
      let ?s' = "s1\<lparr>vs_regions := out\<rparr>"
      have "mset (live_spans ?s') = mset (concat (map (left_pieces start end') (live_spans s1)))"
        using cut(2) uncut by (auto simp: live_spans_def left_pieces_def)
      note w = withdraw_stretch_view[OF one(1) lt this]
      have "VmaStore_unregister_range start end' news s = (Inr (), news', ?s')"
        using unf True cut(1) by simp
      moreover have "vma_inv ?s'" using w(1) live heap by simp
      moreover have "vma_view ?s' a = (if in_span start end' a then None else vma_view s a)" for a
        using w(2)[of a] live heap one(2) by simp
      moreover have "vs_heap_recorded s \<Longrightarrow> vs_heap_recorded ?s'" by (simp add: s1_def)
      ultimately show ?thesis using that(2)[of news' ?s'] live by simp
    qed
  qed
qed

section \<open>Rewriting the terms of a stretch\<close>

definition new_terms :: "VmaProtection \<Rightarrow> VmaRegion \<Rightarrow> VmaRegion" where
  "new_terms terms r = r\<lparr>vr_readable := vp_readable terms, vr_writable := vp_writable terms,
     vr_executable := vp_executable terms\<rparr>"

definition part_of :: "VmaRegion \<Rightarrow> VmaProtection \<Rightarrow> bool \<times> u64 \<times> u64 \<Rightarrow> VmaRegion list" where
  "part_of source terms c =
     (case c of (middle, lo, hi) \<Rightarrow>
       if lo = hi then []
       else let part = source\<lparr>vr_start := lo, vr_end := hi,
                  vr_file_offset := vr_file_offset source + (lo - vr_start source)\<rparr>
            in [if middle then new_terms terms part else part])"

definition protected_pieces :: "u64 \<Rightarrow> u64 \<Rightarrow> VmaProtection \<Rightarrow> VmaRegion \<Rightarrow> VmaRegion list" where
  "protected_pieces start end' terms r =
     (if overlaps_span r start end' then
        let cut_start = math_Max start (vr_start r);
            cut_end = math_Min end' (vr_end r)
        in part_of r terms (False, vr_start r, cut_start) @ part_of r terms (True, cut_start, cut_end) @
           part_of r terms (False, cut_end, vr_end r)
      else [r])"

lemma stage_parts_Some:
  "stage_parts source terms cuts news = (Some parts, news') \<Longrightarrow> parts = concat (map (part_of source terms) cuts)"
proof (induction cuts arbitrary: news parts)
  case (Cons c cuts)
  obtain middle lo hi where c: "c = (middle, lo, hi)" by (cases c)
  obtain granted news1 where na: "new_answer news = (granted, news1)" by fastforce
  obtain more' news2 where sp: "stage_parts source terms cuts news1 = (more', news2)" by fastforce
  show ?case
    using Cons.prems Cons.IH[of news1] Cons.IH[of news] sp
    by (auto simp: c na part_of_def new_terms_def Let_def split: if_splits)
qed simp

lemma stage_protection_Some:
  assumes "stage_protection r start end' terms news = (Some parts, news')" "overlaps_span r start end'"
  shows "parts = protected_pieces start end' terms r"
  using stage_parts_Some[OF assms(1)[unfolded stage_protection_def Let_def]] assms(2)
  by (simp add: protected_pieces_def Let_def)

lemma stage_all_Some:
  "stage_all xs start end' terms news = (Some parts, news') \<Longrightarrow>
     parts = concat (map (protected_pieces start end' terms) (filter (\<lambda>r. overlaps_span r start end') xs))"
proof (induction xs arbitrary: news parts)
  case (Cons x xs)
  then show ?case
    by (auto dest!: stage_protection_Some split: if_splits prod.splits option.splits)
qed simp

lemma kept_and_parts:
  "mset (filter (\<lambda>r. \<not> overlaps_span r start end') xs) +
     mset (concat (map (protected_pieces start end' terms) (filter (\<lambda>r. overlaps_span r start end') xs))) =
   mset (concat (map (protected_pieces start end' terms) xs))"
  by (induction xs) (auto simp: protected_pieces_def)

text \<open>The cut of a non-empty region and an overlapping non-empty stretch.\<close>

lemma cut_bounds:
  assumes "overlaps_span r start end'" "start < end'" "vr_start r < vr_end r"
  shows "vr_start r \<le> math_Max start (vr_start r)" "math_Max start (vr_start r) < math_Min end' (vr_end r)"
    "math_Min end' (vr_end r) \<le> vr_end r"
  using assms by (auto simp: overlaps_span_def math_Max_def math_Min_def)

lemma protected_pieces_cuts:
  assumes "start < end'" "vr_start r < vr_end r"
  shows "cuts_of (protected_pieces start end' terms) r"
proof (cases "overlaps_span r start end'")
  case True
  define cs ce where "cs = math_Max start (vr_start r)" and "ce = math_Min end' (vr_end r)"
  have b: "vr_start r \<le> cs" "cs < ce" "ce \<le> vr_end r"
    using cut_bounds[OF True assms] by (simp_all add: cs_def ce_def)
  then show ?thesis
    using True unfolding cuts_of_def protected_pieces_def Let_def cs_def[symmetric] ce_def[symmetric]
    by (auto simp: spans_ok_def part_of_def new_terms_def apart_def overlaps_def)
next
  case False
  then show ?thesis using assms(2) by (simp add: cuts_of_def protected_pieces_def spans_ok_def)
qed

lemma part_at:
  "(\<exists>p \<in> set (part_of r terms (middle, lo, hi)). covers p a \<and> region_at p a = t) \<longleftrightarrow>
     lo \<le> a \<and> a < hi \<and> t = (if middle then new_terms terms (region_at r a) else region_at r a)"
  by (auto simp: part_of_def new_terms_def covers_def region_at_def)

lemma protected_pieces_at:
  assumes "start < end'" "vr_start r < vr_end r"
  shows "(\<exists>p \<in> set (protected_pieces start end' terms r). covers p a \<and> region_at p a = t) \<longleftrightarrow>
    covers r a \<and> t = (if in_span start end' a then new_terms terms (region_at r a) else region_at r a)"
proof (cases "overlaps_span r start end'")
  case True
  define cs ce where "cs = math_Max start (vr_start r)" and "ce = math_Min end' (vr_end r)"
  have b: "vr_start r \<le> cs" "cs < ce" "ce \<le> vr_end r"
    using cut_bounds[OF True assms] by (simp_all add: cs_def ce_def)
  have mid: "cs \<le> a \<and> a < ce \<longleftrightarrow> covers r a \<and> in_span start end' a"
    by (auto simp: cs_def ce_def math_Max_def math_Min_def covers_def in_span_def)
  have eq: "protected_pieces start end' terms r = part_of r terms (False, vr_start r, cs) @
      part_of r terms (True, cs, ce) @ part_of r terms (False, ce, vr_end r)"
    using True by (simp add: protected_pieces_def Let_def cs_def ce_def)
  have "(\<exists>p \<in> set (protected_pieces start end' terms r). covers p a \<and> region_at p a = t) \<longleftrightarrow>
      vr_start r \<le> a \<and> a < cs \<and> t = region_at r a \<or> cs \<le> a \<and> a < ce \<and> t = new_terms terms (region_at r a) \<or>
      ce \<le> a \<and> a < vr_end r \<and> t = region_at r a"
    unfolding eq set_append bex_Un part_at by simp
  also have "\<dots> \<longleftrightarrow> covers r a \<and> t = (if in_span start end' a then new_terms terms (region_at r a) else region_at r a)"
    using b mid by (auto simp: covers_def)
  finally show ?thesis .
next
  case False
  then have "\<not> in_span start end' a" if "covers r a"
    using that by (auto simp: overlaps_span_def covers_def in_span_def)
  then show ?thesis using False by (auto simp: protected_pieces_def)
qed

lemma new_terms_span [simp]:
  "vr_start (new_terms terms r) = vr_start r" "vr_end (new_terms terms r) = vr_end r"
  by (simp_all add: new_terms_def)

lemma whole_heap_pieces:
  assumes "whole_heap start end' s"
  shows "protected_pieces start end' terms (vs_heap s) = [new_terms terms (vs_heap s)]"
proof -
  have "math_Max start (vr_start (vs_heap s)) = vr_start (vs_heap s)" "math_Min end' (vr_end (vs_heap s)) = vr_end (vs_heap s)"
    using assms by (auto simp: whole_heap_def math_Max_def math_Min_def)
  then show ?thesis
    using assms by (auto simp: protected_pieces_def whole_heap_def heap_covered_def part_of_def Let_def)
qed

lemma VmaStore_protect_cases:
  assumes inv: "vma_inv s" and lt: "start < end'" and known: "VmaStore_span_known start end' s"
  obtains (oom) news' where "VmaStore_protect start end' terms news s = (Inl kOutOfMemory, news', s)"
    | (rewritten) news' s' where "VmaStore_protect start end' terms news s = (Inr (), news', s')" "vma_inv s'"
      "\<And>a. vma_view s' a =
         (if in_span start end' a then map_option (new_terms terms) (vma_view s a) else vma_view s a)"
proof -
  let ?f = "protected_pieces start end' terms"
  define hc wh where "hc = heap_covered start end' s" and "wh = whole_heap start end' s"
  have nle: "(end' \<le> start) = False" using lt by (simp add: not_le)
  obtain batch news1 where st: "stage_all (vs_regions s) start end' terms news = (batch, news1)" by fastforce
  obtain hp news2 where hp: "(if hc \<and> \<not> wh then stage_protection (vs_heap s) start end' terms news1
      else (Some [], news1)) = (hp, news2)" by fastforce
  show ?thesis
  proof (cases "batch = None \<or> hp = None")
    case True
    then have "\<exists>news'. VmaStore_protect start end' terms news s = (Inl kOutOfMemory, news', s)"
      using st hp known nle unfolding VmaStore_protect_def hc_def[symmetric] wh_def[symmetric]
      by (cases batch) (simp_all add: Let_def)
    then show ?thesis using oom by blast
  next
    case False
    then obtain bs hs where bs: "batch = Some bs" and hs: "hp = Some hs" by auto
    let ?s' = "(if wh then s\<lparr>vs_heap := new_terms terms (vs_heap s)\<rparr> else if hc then s\<lparr>vs_heap_recorded := True\<rparr> else s)
        \<lparr>vs_regions := filter (\<lambda>scan. \<not> overlaps_span scan start end') (vs_regions s) @ bs @ hs\<rparr>"
    have run: "VmaStore_protect start end' terms news s = (Inr (), news2, ?s')"
      using st hp known nle bs hs unfolding VmaStore_protect_def hc_def[symmetric] wh_def[symmetric]
      by (simp add: Let_def new_terms_def)
    have bs': "bs = concat (map ?f (filter (\<lambda>r. overlaps_span r start end') (vs_regions s)))"
      using stage_all_Some st bs by blast
    have live: "mset (live_spans ?s') = mset (concat (map ?f (live_spans s)))"
    proof (cases hc)
      case True
      note covered = this[unfolded hc_def heap_covered_def]
      show ?thesis
      proof (cases wh)
        case True
        then have "hs = []" using hp hs by simp
        then show ?thesis
          using True covered whole_heap_pieces[of start end' s terms] kept_and_parts[of start end' "vs_regions s" terms]
          by (simp add: live_spans_def bs' wh_def)
      next
        case False
        then have "hs = ?f (vs_heap s)"
          using hp hs \<open>hc\<close> stage_protection_Some covered by auto
        then show ?thesis
          using False \<open>hc\<close> covered kept_and_parts[of start end' "vs_regions s" terms]
          by (simp add: live_spans_def bs')
      qed
    next
      case False
      then have no: "hs = []" "\<not> wh" using hp hs by (auto simp: wh_def hc_def whole_heap_def)
      have "?f (vs_heap s) = [vs_heap s]" if "\<not> vs_heap_recorded s" "vr_start (vs_heap s) < vr_end (vs_heap s)"
        using False that by (simp add: hc_def heap_covered_def protected_pieces_def)
      then show ?thesis
        using False no kept_and_parts[of start end' "vs_regions s" terms] by (simp add: live_spans_def bs')
    qed
    have heap: "vr_start (vs_heap ?s') \<le> vr_end (vs_heap ?s')" "vs_heap_max ?s' = vs_heap_max s"
      using inv by (simp_all add: vma_inv_def)
    have at: "(\<exists>p \<in> set (?f r). covers p a \<and> region_at p a = t) \<longleftrightarrow>
        covers r a \<and> Some (if in_span start end' a then new_terms terms (region_at r a) else region_at r a) = Some t"
      if "vr_start r < vr_end r" for r t a
      using protected_pieces_at[OF lt that, of terms a t] by auto
    note view = cut_view[OF inv live protected_pieces_cuts[OF lt] at heap]
    have "vma_view ?s' a = (if in_span start end' a then map_option (new_terms terms) (vma_view s a) else vma_view s a)" for a
      using view(2)[of a] by (cases "vma_view s a") auto
    then show ?thesis using rewritten[OF run view(1)] by blast
  qed
qed

end
