(* ===== verification/Vma_Walks.thy ===== *)
theory Vma_Walks
  imports Vma
begin

text \<open>
  The loops of the register: the coverage walk behind mprotect, the stack check, the hunt
  for room behind mmap, the moves of the break, and the copy made for fork. Each is shown
  to decide or establish what its comment promises, over the view of \<^verbatim>\<open>Vma\<close>.
\<close>

section \<open>Walks over the register\<close>

lemma span_reach_fold:
  "fold (\<lambda>scan reach. if vr_start scan \<le> spot \<and> spot < vr_end scan then math_Max reach (vr_end scan) else reach) xs m = m' \<Longrightarrow>
     m \<le> m' \<and> (m' = m \<or> (\<exists>r \<in> set xs. covers r spot \<and> vr_end r = m')) \<and> (\<forall>r \<in> set xs. covers r spot \<longrightarrow> vr_end r \<le> m')"
proof (induction xs arbitrary: m)
  case (Cons x xs)
  define m1 where "m1 = (if vr_start x \<le> spot \<and> spot < vr_end x then math_Max m (vr_end x) else m)"
  have m1: "m \<le> m1" "m1 = m \<or> (covers x spot \<and> vr_end x = m1)" "covers x spot \<longrightarrow> vr_end x \<le> m1"
    by (auto simp: m1_def math_Max_def covers_def max_def)
  have "m1 \<le> m' \<and> (m' = m1 \<or> (\<exists>r \<in> set xs. covers r spot \<and> vr_end r = m')) \<and>
      (\<forall>r \<in> set xs. covers r spot \<longrightarrow> vr_end r \<le> m')"
    using Cons.IH[of m1] Cons.prems unfolding m1_def by simp
  with m1 show ?case by (metis list.set_intros order_trans set_ConsD)
qed simp

lemma span_reach_cases:
  "(span_reach s spot \<le> spot \<and> (\<forall>r \<in> set (live_spans s). \<not> covers r spot)) \<or>
   (\<exists>r \<in> set (live_spans s). covers r spot \<and> vr_end r = span_reach s spot)"
proof -
  define m0 where "m0 = (if \<not> vs_heap_recorded s \<and> covers (vs_heap s) spot then vr_end (vs_heap s) else spot)"
  have "span_reach s spot = fold (\<lambda>scan reach. if vr_start scan \<le> spot \<and> spot < vr_end scan then math_Max reach (vr_end scan) else reach) (vs_regions s) m0"
    by (simp add: span_reach_def m0_def covers_def)
  note f = span_reach_fold[OF this[symmetric]]
  have m0: "m0 = spot \<and> (vs_heap_recorded s \<or> \<not> covers (vs_heap s) spot) \<or>
      \<not> vs_heap_recorded s \<and> covers (vs_heap s) spot \<and> m0 = vr_end (vs_heap s)"
    by (auto simp: m0_def)
  have big: "covers r spot \<Longrightarrow> spot < vr_end r" for r by (simp add: covers_def)
  have heap: "covers (vs_heap s) spot \<Longrightarrow> \<not> vs_heap_recorded s \<Longrightarrow> vs_heap s \<in> set (live_spans s)"
    by (auto simp: live_spans_def covers_def)
  have sub: "set (vs_regions s) \<subseteq> set (live_spans s)" by (auto simp: live_spans_def)
  have live: "r \<in> set (live_spans s) \<Longrightarrow> r \<in> set (vs_regions s) \<or> r = vs_heap s \<and> \<not> vs_heap_recorded s" for r
    by (auto simp: live_spans_def split: if_splits)
  show ?thesis
  proof (cases "span_reach s spot = m0")
    case True
    with m0 heap f big live show ?thesis by (metis leD order_refl)
  next
    case False
    with f sub show ?thesis by blast
  qed
qed

lemma VmaStore_span_known_iff:
  "VmaStore_span_known start end' s \<longleftrightarrow> (\<forall>a. in_span start end' a \<longrightarrow> vma_view s a \<noteq> None)"
proof (induction start end' s rule: VmaStore_span_known.induct)
  case (1 spot end' s)
  show ?case
  proof (cases "spot < end'")
    case lt: True
    show ?thesis
    proof (cases "span_reach s spot \<le> spot")
      case True
      have "\<not> covers r spot" if "r \<in> set (live_spans s)" for r
        using span_reach_cases[of s spot] True that by (force simp: covers_def)
      then have "vma_view s spot = None" by (simp add: vma_view_def find_None_iff_live)
      moreover have "in_span spot end' spot" using lt by (simp add: in_span_def)
      ultimately show ?thesis using True lt by (subst VmaStore_span_known.simps) (auto simp: Let_def)
    next
      case False
      then obtain r where r: "r \<in> set (live_spans s)" "covers r spot" "vr_end r = span_reach s spot"
        using span_reach_cases[of s spot] by blast
      have "vma_view s a \<noteq> None" if "in_span spot (span_reach s spot) a" for a
        using r that find_None_iff_live[of a s] by (auto simp: vma_view_def in_span_def covers_def)
      then have "(\<forall>a. in_span spot end' a \<longrightarrow> vma_view s a \<noteq> None) \<longleftrightarrow>
          (\<forall>a. in_span (span_reach s spot) end' a \<longrightarrow> vma_view s a \<noteq> None)"
        using r(2,3) by (auto simp: in_span_def covers_def not_le)
          (meson leI less_le_trans order_less_imp_le order_trans)+
      moreover have "VmaStore_span_known spot end' s = VmaStore_span_known (span_reach s spot) end' s"
        using lt False by (subst VmaStore_span_known.simps) (simp add: Let_def)
      ultimately show ?thesis using 1[OF _ refl] lt False by simp
    qed
  next
    case False
    then show ?thesis by (subst VmaStore_span_known.simps) (auto simp: in_span_def)
  qed
qed

text \<open>A byte of usable stack.\<close>

definition stack_byte :: "VmaStore \<Rightarrow> u64 \<Rightarrow> bool" where
  "stack_byte s a \<longleftrightarrow> (\<exists>r. VmaStore_find a s = Some r \<and> vr_kind r = VmaKind_kStack \<and> vr_readable r \<and>
     vr_writable r \<and> vr_stack_floor r \<le> a)"

lemma stack_walk_iff:
  assumes "vma_inv s"
  shows "stack_walk cursor end' s \<longleftrightarrow> (\<forall>a. in_span cursor end' a \<longrightarrow> stack_byte s a)"
  using assms
proof (induction cursor end' s rule: stack_walk.induct)
  case (1 cursor end' s)
  show ?case
  proof (cases "cursor < end' \<and> stack_byte s cursor")
    case True
    then obtain r where r: "VmaStore_find cursor s = Some r" "vr_kind r = VmaKind_kStack" "vr_readable r"
      "vr_writable r" "vr_stack_floor r \<le> cursor" by (auto simp: stack_byte_def)
    have next': "vr_start r \<le> cursor" "cursor < vr_end r" using find_covers[OF r(1)] by (auto simp: covers_def)
    have here: "stack_byte s a" if "in_span cursor (vr_end r) a" for a
    proof -
      have "VmaStore_find a s = Some r"
        using find_live[OF "1.prems"] r(1) next' that by (auto simp: covers_def in_span_def)
      then show ?thesis using r that by (auto simp: stack_byte_def in_span_def)
    qed
    have "stack_walk cursor end' s = stack_walk (math_Min (vr_end r) end') end' s"
      using True r leD[OF r(5)] by (subst stack_walk.simps) simp
    moreover have "(\<forall>a. in_span cursor end' a \<longrightarrow> stack_byte s a) \<longleftrightarrow>
        (\<forall>a. in_span (math_Min (vr_end r) end') end' a \<longrightarrow> stack_byte s a)" (is "?L \<longleftrightarrow> ?R")
    proof
      assume ?L
      moreover have "cursor \<le> math_Min (vr_end r) end'" using True next' by (auto simp: math_Min_def)
      ultimately show ?R unfolding in_span_def by (meson order_trans)
    next
      assume R: ?R
      show ?L
      proof (intro allI impI)
        fix a assume "in_span cursor end' a"
        then show "stack_byte s a"
          using here[of a] R by (cases "a < vr_end r") (auto simp: in_span_def math_Min_def)
      qed
    qed
    ultimately show ?thesis using "1.IH"[OF _ r(1)] "1.prems" True r by auto
  next
    case False
    then show ?thesis
      by (subst stack_walk.simps)
        (auto simp: in_span_def stack_byte_def not_less not_le split: option.splits)
  qed
qed

section \<open>Hunting for room\<close>

text \<open>The spans the hunt avoids (an unrecorded brk span counts even when empty), and a
  stretch none of them reaches into, over the natural numbers.\<close>

definition obstacles :: "VmaStore \<Rightarrow> VmaRegion list" where
  "obstacles s = (if vs_heap_recorded s then [] else [vs_heap s]) @ vs_regions s"

definition clear_stretch :: "VmaStore \<Rightarrow> nat \<Rightarrow> nat \<Rightarrow> bool" where
  "clear_stretch s lo bytes \<longleftrightarrow> (\<forall>r \<in> set (obstacles s). \<not> (unat (vr_start r) < lo + bytes \<and> lo < unat (vr_end r)))"

lemma free_spot_pass_obstacles:
  "free_spot_pass bytes s e = fold (push_below bytes) (obstacles s) (e, False)"
  by (simp add: free_spot_pass_def obstacles_def)

lemma push_below_bound:
  assumes "fold (push_below bytes) xs (e, m) = (e', m')"
    and "\<forall>r \<in> set xs. \<not> (unat (vr_start r) < lo + unat bytes \<and> lo < unat (vr_end r))"
    and "lo + unat bytes \<le> unat e"
  shows "lo + unat bytes \<le> unat e'"
  using assms
proof (induction xs arbitrary: e m)
  case (Cons x xs)
  obtain e1 m1 where one: "push_below bytes x (e, m) = (e1, m1)" by fastforce
  have "bytes \<le> e" using Cons.prems(3) by (simp add: word_le_nat_alt)
  then have sub: "unat (e - bytes) = unat e - unat bytes" by (rule unat_sub)
  have "lo + unat bytes \<le> unat e1"
    using one Cons.prems(2,3) sub by (auto simp: push_below_def word_less_nat_alt split: if_splits)
  then show ?case using Cons.IH[of e1 m1] Cons.prems one by simp
qed simp

lemma push_below_step:
  "push_below bytes x (e, m) = (if vr_start x < e \<and> vr_end x > e - bytes then (vr_start x, True) else (e, m))"
  by (simp add: push_below_def)

lemma push_below_still:
  "fold (push_below bytes) xs (e, m) = (e', False) \<Longrightarrow>
     e' = e \<and> (\<forall>r \<in> set xs. \<not> (vr_start r < e \<and> vr_end r > e - bytes))"
proof (induction xs arbitrary: m)
  case (Cons x xs)
  have "\<not> (vr_start x < e \<and> vr_end x > e - bytes)"
  proof
    assume fires: "vr_start x < e \<and> vr_end x > e - bytes"
    then have "fold (push_below bytes) xs (vr_start x, True) = (e', False)"
      using Cons.prems by (simp add: push_below_step)
    from push_below_fold[OF this] show False by simp
  qed
  moreover from this have "fold (push_below bytes) xs (e, m) = (e', False)"
    using Cons.prems by (simp add: push_below_step split: if_splits)
  ultimately show ?case using Cons.IH by auto
qed simp

lemma free_spot_hunt_spec:
  "\<lbrakk>clear_stretch s lo (unat bytes); lo + unat bytes \<le> unat e\<rbrakk> \<Longrightarrow> lo + unat bytes \<le> unat (free_spot_hunt bytes s e)"
  "bytes \<le> free_spot_hunt bytes s e \<Longrightarrow>
     clear_stretch s (unat (free_spot_hunt bytes s e) - unat bytes) (unat bytes)"
  "free_spot_hunt bytes s e \<le> e"
proof (induction bytes s e rule: free_spot_hunt.induct)
  case (1 bytes s e)
  obtain e' m where pass: "free_spot_pass bytes s e = (e', m)" by fastforce
  note fold = pass[unfolded free_spot_pass_obstacles]
  have unf: "free_spot_hunt bytes s e = (if m then free_spot_hunt bytes s e' else e')"
    by (subst free_spot_hunt.simps) (simp add: pass split: bool.splits)
  have still: "e' = e" "\<forall>r \<in> set (obstacles s). \<not> (vr_start r < e \<and> vr_end r > e - bytes)" if "\<not> m"
    using push_below_still fold that by auto
  {
    case 1
    then have "lo + unat bytes \<le> unat e'" using push_below_bound[OF fold] by (simp add: clear_stretch_def)
    then show ?case using "1.IH"(1)[OF pass[symmetric]] 1 unf by (cases m) auto
  next
    case 2
    then show ?case
    proof (cases m)
      case False
      then have "unat (e - bytes) = unat e - unat bytes" using 2 unf still(1) by (simp add: unat_sub)
      then show ?thesis using still False unf 2
        by (auto simp: clear_stretch_def word_less_nat_alt word_le_nat_alt not_less)
    qed (use "1.IH"(2)[OF pass[symmetric]] unf 2 in auto)
  next
    case 3
    then show ?case
      using unf "1.IH"(3)[OF pass[symmetric]] push_below_fold[OF fold] by (cases m) auto
  }
qed

section \<open>Moving the break\<close>

lemma AlignUp_page:
  assumes "unat target + 4095 < 2 ^ 64"
  shows "target \<le> math_AlignUp target vma_kSize"
proof -
  have "unat (math_AlignUp target vma_kSize) = (unat target + 4095) div 4096 * 4096"
    using unat_math_AlignUp[of vma_kSize target] assms by (simp add: vma_kSize_def)
  moreover have "unat target \<le> (unat target + 4095) div 4096 * 4096"
    using div_mult_mod_eq[of "unat target + 4095" 4096] mod_less_divisor[of 4096 "unat target + 4095"] by linarith
  ultimately show ?thesis by (simp add: word_le_nat_alt)
qed

lemma heap_resize:
  fixes target :: u64
  assumes inv: "vma_inv s" and raw: "\<not> vs_heap_recorded s" and up: "vr_start (vs_heap s) \<le> wanted"
    and room: "vr_end (vs_heap s) < wanted \<Longrightarrow> \<forall>r \<in> set (vs_regions s). \<not> overlaps_span r (vr_end (vs_heap s)) wanted"
  defines "s' \<equiv> s\<lparr>vs_heap := (vs_heap s)\<lparr>vr_end := wanted\<rparr>, vs_heap_break := target\<rparr>"
  shows "vma_inv s'"
    and "vma_view s' a =
      (if in_span wanted (vr_end (vs_heap s)) a then None
       else if in_span (vr_end (vs_heap s)) wanted a then Some (region_at (vs_heap s) a)
       else vma_view s a)"
proof -
  let ?h = "vs_heap s" and ?h' = "(vs_heap s)\<lparr>vr_end := wanted\<rparr>"
  have le: "vr_start ?h \<le> vr_end ?h" using inv by (simp add: vma_inv_def)
  have ok: "spans_ok ((if vr_start ?h < vr_end ?h then [?h] else []) @ vs_regions s)"
    using inv raw by (simp add: vma_inv_def live_spans_def)
  note regs = spans_ok_suffix[OF ok]
  have ne: "vr_start r < vr_end r" if "r \<in> set (vs_regions s)" for r
    using regs that unfolding spans_ok_def by blast
  have old: "apart ?h r" if "r \<in> set (vs_regions s)" "vr_start ?h < vr_end ?h" for r
  proof -
    from ok that(2) have "spans_ok (?h # vs_regions s)" by (simp only: if_True append.simps)
    with that(1) show ?thesis unfolding spans_ok_def sorted_wrt.simps by blast
  qed
  have new: "apart ?h' r" if r: "r \<in> set (vs_regions s)" and lt: "vr_start ?h < wanted" for r
  proof (cases "vr_end ?h < wanted")
    case True
    with room r have "\<not> overlaps_span r (vr_end ?h) wanted" by blast
    moreover have "apart ?h r \<or> vr_start ?h = vr_end ?h" using old[OF r] le by force
    ultimately show ?thesis using ne[OF r] le
      by (auto simp: apart_def overlaps_def overlaps_span_def)
  next
    case False
    show ?thesis
    proof (cases "vr_start ?h < vr_end ?h")
      case True
      from old[OF r this] False show ?thesis by (auto simp: apart_def overlaps_def)
    qed (use False le lt in auto)
  qed
  have live: "live_spans s' = (if vr_start ?h < wanted then [?h'] else []) @ vs_regions s"
    using raw by (simp add: s'_def live_spans_def)
  have "spans_ok (live_spans s')" using regs new unfolding live spans_ok_def by simp
  then show inv': "vma_inv s'" using inv up by (simp add: vma_inv_def s'_def)
  have at: "region_at ?h' a = region_at ?h a" by (simp add: region_at_def)
  have view': "vma_view s' a = Some t \<longleftrightarrow> covers ?h' a \<and> region_at ?h a = t \<or>
      (\<exists>r \<in> set (vs_regions s). covers r a \<and> region_at r a = t)" for t
    unfolding view_Some[OF inv'] live at[symmetric]
    by (cases "vr_start ?h < wanted") (auto simp: covers_def)
  have view: "vma_view s a = Some t \<longleftrightarrow> covers ?h a \<and> region_at ?h a = t \<or>
      (\<exists>r \<in> set (vs_regions s). covers r a \<and> region_at r a = t)" for t
    unfolding view_Some[OF inv] live_spans_def using raw
    by (cases "vr_start ?h < vr_end ?h") (auto simp: covers_def)
  have reg: "\<not> covers ?h a \<and> \<not> covers ?h' a" if "r \<in> set (vs_regions s)" "covers r a" for r
  proof
    have "covers ?h' a \<Longrightarrow> vr_start ?h < wanted" by (auto simp: covers_def)
    then show "\<not> covers ?h' a" using new[OF that(1)] covers_not_apart that(2) by blast
    have "covers ?h a \<Longrightarrow> vr_start ?h < vr_end ?h" by (auto simp: covers_def)
    then show "\<not> covers ?h a" using old[OF that(1)] covers_not_apart that(2) by blast
  qed
  have "vma_view s' a = Some t \<longleftrightarrow>
      (if in_span wanted (vr_end ?h) a then None
       else if in_span (vr_end ?h) wanted a then Some (region_at ?h a) else vma_view s a) = Some t" for t
  proof (cases "in_span wanted (vr_end ?h) a \<or> in_span (vr_end ?h) wanted a")
    case True
    then have in_h: "covers ?h a \<and> \<not> covers ?h' a \<and> in_span wanted (vr_end ?h) a \<or>
        \<not> covers ?h a \<and> covers ?h' a \<and> \<not> in_span wanted (vr_end ?h) a \<and> in_span (vr_end ?h) wanted a"
      using up le by (auto simp: covers_def in_span_def)
    moreover have "\<not> (\<exists>r \<in> set (vs_regions s). covers r a \<and> region_at r a = t)" using reg in_h by blast
    ultimately show ?thesis unfolding view' by auto
  next
    case False
    then have "covers ?h a \<longleftrightarrow> covers ?h' a" by (auto simp: covers_def in_span_def)
    then show ?thesis using False unfolding view' by (simp add: view)
  qed
  then show "vma_view s' a =
      (if in_span wanted (vr_end ?h) a then None
       else if in_span (vr_end ?h) wanted a then Some (region_at ?h a) else vma_view s a)"
    by (rule view_eqI)
qed

text \<open>
  A recorded brk span is a plain bound: growing registers the extension, shrinking
  withdraws the stretch above the new end. The span's own end does not show in the view.
\<close>

lemma recorded_heap_end:
  assumes "vma_inv s" "vs_heap_recorded s" "vr_start (vs_heap s) \<le> wanted"
  shows "vma_inv (s\<lparr>vs_heap := (vs_heap s)\<lparr>vr_end := wanted\<rparr>, vs_heap_break := target\<rparr>)"
    and "vma_view (s\<lparr>vs_heap := (vs_heap s)\<lparr>vr_end := wanted\<rparr>, vs_heap_break := target\<rparr>) = vma_view s"
  using assms by (simp_all add: vma_inv_def live_spans_def vma_view_def VmaStore_find_def fun_eq_iff)

text \<open>What a successful move shows: nothing above the new end up to the old one, something
  in the stretch gained, everything else as before.\<close>

definition break_moved :: "VmaStore \<Rightarrow> u64 \<Rightarrow> VmaStore \<Rightarrow> bool" where
  "break_moved s target s' \<longleftrightarrow>
     (let old = vr_end (vs_heap s); wanted = math_AlignUp target vma_kSize
      in vs_heap_break s' = target \<and> vr_end (vs_heap s') = wanted \<and>
         (\<forall>a. in_span wanted old a \<longrightarrow> vma_view s' a = None) \<and>
         (\<forall>a. in_span old wanted a \<longrightarrow> vma_view s' a \<noteq> None) \<and>
         (\<forall>a. \<not> in_span wanted old a \<longrightarrow> \<not> in_span old wanted a \<longrightarrow> vma_view s' a = vma_view s a))"

lemma heap_end_commit_raw:
  assumes inv: "vma_inv s" and raw: "\<not> vs_heap_recorded s"
    and up: "vr_start (vs_heap s) \<le> math_AlignUp target vma_kSize"
    and room: "vr_end (vs_heap s) < math_AlignUp target vma_kSize \<Longrightarrow>
      \<forall>r \<in> set (vs_regions s). \<not> overlaps_span r (vr_end (vs_heap s)) (math_AlignUp target vma_kSize)"
  shows "\<exists>s'. heap_end_commit (math_AlignUp target vma_kSize) target (Inr (), news, s) = (Inr target, news, s') \<and>
    vma_inv s' \<and> break_moved s target s'"
  using heap_resize[OF inv raw up room, of target]
  by (auto simp: heap_end_commit_def break_moved_def Let_def in_span_def)

lemma heap_end_commit_recorded:
  assumes "vma_inv s1" "vs_heap_recorded s1" "vs_heap s1 = vs_heap s"
    and up: "vr_start (vs_heap s) \<le> math_AlignUp target vma_kSize"
    and "\<And>a. in_span (math_AlignUp target vma_kSize) (vr_end (vs_heap s)) a \<Longrightarrow> vma_view s1 a = None"
    and "\<And>a. in_span (vr_end (vs_heap s)) (math_AlignUp target vma_kSize) a \<Longrightarrow> vma_view s1 a \<noteq> None"
    and "\<And>a. \<not> in_span (math_AlignUp target vma_kSize) (vr_end (vs_heap s)) a \<Longrightarrow>
      \<not> in_span (vr_end (vs_heap s)) (math_AlignUp target vma_kSize) a \<Longrightarrow> vma_view s1 a = vma_view s a"
  shows "\<exists>s'. heap_end_commit (math_AlignUp target vma_kSize) target (Inr (), news, s1) = (Inr target, news, s') \<and>
    vma_inv s' \<and> break_moved s target s'"
  using recorded_heap_end[OF assms(1,2), of "math_AlignUp target vma_kSize" target] assms
  by (auto simp: heap_end_commit_def break_moved_def Let_def)

lemma VmaStore_move_heap_end_cases:
  assumes inv: "vma_inv s" and ne: "target \<noteq> 0"
  obtains (refused) e news' s' where "VmaStore_move_heap_end target news s = (Inl e, news', s')"
      "vma_inv s'" "vma_view s' = vma_view s"
    | (moved) news' s' where "VmaStore_move_heap_end target news s = (Inr target, news', s')"
      "vma_inv s'" "break_moved s target s'"
proof -
  let ?h = "vs_heap s"
  define w where "w = math_AlignUp target vma_kSize"
  define early where "early \<longleftrightarrow> vr_start ?h = 0 \<and> vr_end ?h = 0 \<or> (target < vr_start ?h \<or> target > vs_heap_max s) \<or>
    vr_end ?h < w \<and> (\<exists>scan \<in> set (vs_regions s). overlaps_span scan (vr_end ?h) w)"
  show ?thesis
  proof (cases early)
    case True
    then have "\<exists>e. VmaStore_move_heap_end target news s = (Inl e, news, s)"
      using ne unfolding early_def by (auto simp: VmaStore_move_heap_end_def Let_def w_def)
    then show ?thesis using refused inv by blast
  next
    case False
    then have go: "vr_start ?h \<le> target" "target \<le> vs_heap_max s"
      and room: "vr_end ?h < w \<Longrightarrow> \<forall>r \<in> set (vs_regions s). \<not> overlaps_span r (vr_end ?h) w"
      by (auto simp: early_def not_less)
    have run: "VmaStore_move_heap_end target news s = heap_end_commit w target
       (if vs_heap_recorded s \<and> w > vr_end ?h then VmaStore_register_range (heap_extension (vr_end ?h) w) news s
        else if vs_heap_recorded s \<and> w < vr_end ?h then VmaStore_unregister_range w (vr_end ?h) news s
        else (Inr (), news, s))"
    proof -
      have "\<not> (vr_start ?h = 0 \<and> vr_end ?h = 0)" "\<not> (target < vr_start ?h \<or> target > vs_heap_max s)"
        "\<not> (w > vr_end ?h \<and> (\<exists>scan \<in> set (vs_regions s). overlaps_span scan (vr_end ?h) w))"
        using False unfolding early_def by blast+
      then show ?thesis unfolding VmaStore_move_heap_end_def Let_def w_def[symmetric] by (simp only: ne if_False)
    qed
    have "unat target + 4095 < 2 ^ 64" using go(2) inv by (simp add: vma_inv_def word_le_nat_alt)
    then have up: "vr_start ?h \<le> w" using AlignUp_page[of target] go(1) unfolding w_def by (meson order_trans)
    consider (raw) "\<not> vs_heap_recorded s" | (grow) "vs_heap_recorded s" "vr_end ?h < w"
      | (shrink) "vs_heap_recorded s" "w < vr_end ?h" | (same) "vs_heap_recorded s" "w = vr_end ?h" by force
    then show ?thesis
    proof cases
      case raw
      then show ?thesis using heap_end_commit_raw[OF inv raw up[unfolded w_def] room[unfolded w_def], of news] run moved
        unfolding w_def by auto
    next
      case grow
      let ?x = "heap_extension (vr_end ?h) w"
      have x: "vr_start ?x = vr_end ?h" "vr_end ?x = w" by (simp_all add: heap_extension_def)
      have ap: "vr_start ?x < vr_end ?x" "\<forall>r \<in> set (live_spans s). apart r ?x"
        using grow room x by (auto simp: live_spans_def apart_def overlaps_def overlaps_span_def)
      show ?thesis
      proof (cases rule: VmaStore_register_range_cases[of ?x news s])
        case (refused e news')
        then show ?thesis using that(1)[of e news' s] run grow inv by (simp add: heap_end_commit_def)
      next
        case (recorded news')
        let ?s1 = "s\<lparr>vs_regions := vs_regions s @ [born_region ?x]\<rparr>"
        note r = recorded_state[OF inv ap]
        have "\<not> in_span w (vr_end ?h) a" for a using grow(2) by (auto simp: in_span_def)
        then have "\<exists>s'. heap_end_commit w target (Inr (), news', ?s1) = (Inr target, news', s') \<and> vma_inv s' \<and> break_moved s target s'"
          using r x grow(1) up unfolding w_def by (intro heap_end_commit_recorded) auto
        then show ?thesis using run recorded(1) grow that(2) by auto
      qed
    next
      case shrink
      then have nw: "\<not> vr_end ?h < w" by auto
      from inv shrink(2) show ?thesis
      proof (cases rule: VmaStore_unregister_range_cases[where news = news])
        case (oom news' s')
        then show ?thesis using that(1) run shrink nw by (simp add: heap_end_commit_def)
      next
        case (withdrawn news' s1)
        have "\<not> in_span (vr_end ?h) w a" for a using shrink(2) by (auto simp: in_span_def)
        then have "\<exists>s'. heap_end_commit w target (Inr (), news', s1) = (Inr target, news', s') \<and> vma_inv s' \<and> break_moved s target s'"
          using withdrawn shrink(1) up unfolding w_def by (intro heap_end_commit_recorded) auto
        then show ?thesis using run withdrawn(1) shrink nw that(2) by auto
      qed
    next
      case same
      have "\<not> in_span w (vr_end ?h) a" "\<not> in_span (vr_end ?h) w a" for a using same(2) by (auto simp: in_span_def)
      then have "\<exists>s'. heap_end_commit w target (Inr (), news, s) = (Inr target, news, s') \<and> vma_inv s' \<and> break_moved s target s'"
        using inv same(1) up unfolding w_def by (intro heap_end_commit_recorded) auto
      then show ?thesis using run same that(2) by auto
    qed
  qed
qed

section \<open>Cloning for fork\<close>

text \<open>The same region up to the identity of its attachment object.\<close>

definition same_terms :: "VmaRegion \<Rightarrow> VmaRegion \<Rightarrow> bool" where
  "same_terms r r' \<longleftrightarrow> r' = r\<lparr>vr_shared := vr_shared r'\<rparr> \<and>
     rel_option (\<lambda>a b. b = a\<lparr>sa_id := sa_id b\<rparr>) (vr_shared r) (vr_shared r')"

text \<open>Attachments of one register that start at the same address are one attachment.\<close>

definition attachments_agree :: "VmaRegion list \<Rightarrow> bool" where
  "attachments_agree rs \<longleftrightarrow> (\<forall>r \<in> set rs. \<forall>r' \<in> set rs. \<forall>a b.
     vr_shared r = Some a \<longrightarrow> vr_shared r' = Some b \<longrightarrow> sa_start a = sa_start b \<longrightarrow> a = b)"

definition floors_set :: "VmaRegion list \<Rightarrow> bool" where
  "floors_set rs \<longleftrightarrow> (\<forall>r \<in> set rs. vr_kind r = VmaKind_kStack \<longrightarrow> vr_stack_floor r \<noteq> 0)"

lemma list_all2_partner: "list_all2 P xs ys \<Longrightarrow> y \<in> set ys \<Longrightarrow> \<exists>x \<in> set xs. P x y"
  by (induction rule: list_all2_induct) auto

lemma clone_region_terms:
  assumes "clone_region scan fresh_id news born_regions = (region, fresh_id', granted, news')"
    and "attachments_agree (dn @ scan # rest)" and "list_all2 same_terms dn born_regions"
  shows "same_terms scan region" and "vr_start region = vr_start scan" "vr_end region = vr_end scan"
    "vr_kind region = vr_kind scan" "vr_stack_floor region = vr_stack_floor scan"
proof -
  show "same_terms scan region"
  proof (cases "vr_shared scan")
    case None
    then show ?thesis using assms(1) by (auto simp: clone_region_def same_terms_def)
  next
    case (Some own)
    let ?P = "\<lambda>born. case vr_shared born of Some a \<Rightarrow> sa_start a = sa_start own | None \<Rightarrow> False"
    show ?thesis
    proof (cases "List.find ?P born_regions")
      case None
      then show ?thesis using assms(1) Some
        by (auto simp: clone_region_def same_terms_def Let_def split: prod.splits)
    next
      case born: (Some born)
      then have "born \<in> set born_regions" "?P born" by (auto simp: find_Some_iff)
      then obtain b where b: "vr_shared born = Some b" "sa_start b = sa_start own"
        by (auto split: option.splits)
      obtain d where d: "d \<in> set dn" "same_terms d born"
        using list_all2_partner[OF assms(3)] \<open>born \<in> set born_regions\<close> by blast
      then obtain a where a: "vr_shared d = Some a" "b = a\<lparr>sa_id := sa_id b\<rparr>"
        using b(1) by (auto simp: same_terms_def option_rel_Some2)
      have "sa_start a = sa_start b" by (subst a(2)) simp
      then have "sa_start a = sa_start own" using b(2) by simp
      then have "a = own" using assms(2) d(1) a(1) Some by (auto simp: attachments_agree_def)
      then show ?thesis using assms(1) Some born b(1) a(2)
        by (auto simp: clone_region_def same_terms_def)
    qed
  qed
  then obtain x where "region = scan\<lparr>vr_shared := x\<rparr>" unfolding same_terms_def by blast
  then show "vr_start region = vr_start scan" "vr_end region = vr_end scan"
    "vr_kind region = vr_kind scan" "vr_stack_floor region = vr_stack_floor scan" by simp_all
qed

lemma clone_region_shape:
  "clone_region scan fresh_id news born_regions = (region, fresh_id', granted, news') \<Longrightarrow>
     (\<exists>x. region = scan\<lparr>vr_shared := x\<rparr>) \<and> (news = [] \<longrightarrow> granted \<and> news' = [])"
  by (auto simp: clone_region_def Let_def split: option.splits prod.splits intro: exI[of _ None])

lemma clone_regions_faithful:
  assumes "clone_regions rest fresh_id news copy = (Some copy', news')"
    and "attachments_agree (dn @ rest)" "floors_set (dn @ rest)" "list_all2 same_terms dn (vs_regions copy)"
  shows "list_all2 same_terms (dn @ rest) (vs_regions copy') \<and> copy' = copy\<lparr>vs_regions := vs_regions copy'\<rparr>"
  using assms
proof (induction rest arbitrary: fresh_id news copy dn)
  case (Cons scan rest)
  obtain region fresh_id1 granted news1 where cr:
      "clone_region scan fresh_id news (vs_regions copy) = (region, fresh_id1, granted, news1)"
    by (metis prod_cases4)
  note t = clone_region_terms[OF cr Cons.prems(2,4)]
  have "born_region region = region"
    using t Cons.prems(3) by (auto simp: born_region_def floors_set_def)
  moreover have granted using Cons.prems(1) cr by (simp split: if_splits)
  ultimately obtain news2 where more:
      "clone_regions rest fresh_id1 news2 (copy\<lparr>vs_regions := vs_regions copy @ [region]\<rparr>) = (Some copy', news')"
    using Cons.prems(1) cr
    by (cases rule: VmaStore_register_range_cases[of region news1 copy]) auto
  have "list_all2 same_terms (dn @ [scan]) (vs_regions copy @ [region])"
    using Cons.prems(4) t(1) by (simp add: list_all2_appendI)
  with Cons.IH[OF more, of "dn @ [scan]"] Cons.prems(2,3) show ?case by simp
qed simp

lemma clone_regions_total:
  assumes "spans_ok (live_spans s)" "vs_regions s = dn @ rest"
    and "list_all2 (\<lambda>r r'. vr_start r' = vr_start r \<and> vr_end r' = vr_end r) dn (vs_regions copy)"
    and "vs_heap copy = vs_heap s" "vs_heap_recorded copy = vs_heap_recorded s"
  shows "\<exists>copy'. clone_regions rest fresh_id [] copy = (Some copy', [])"
  using assms(2-5)
proof (induction rest arbitrary: fresh_id copy dn)
  case (Cons scan rest)
  obtain region fresh_id1 granted news1 where cr:
      "clone_region scan fresh_id [] (vs_regions copy) = (region, fresh_id1, granted, news1)"
    by (metis prod_cases4)
  then obtain x where x: "region = scan\<lparr>vr_shared := x\<rparr>" "granted" "news1 = []"
    using clone_region_shape by blast
  define hp where "hp = (if \<not> vs_heap_recorded s \<and> vr_start (vs_heap s) < vr_end (vs_heap s) then [vs_heap s] else [])"
  have live: "live_spans s = hp @ dn @ scan # rest" "live_spans copy = hp @ vs_regions copy"
    using Cons.prems by (simp_all add: live_spans_def hp_def)
  have ap: "apart r scan" if "r \<in> set hp \<union> set dn" for r
    using assms(1) that unfolding live spans_ok_def sorted_wrt_append by auto
  have "apart r' region" if r': "r' \<in> set (live_spans copy)" for r'
  proof (cases "r' \<in> set hp")
    case True
    then show ?thesis using ap[of r'] x(1) by (simp add: apart_def overlaps_def)
  next
    case False
    then obtain r where "r \<in> set dn" "vr_start r' = vr_start r" "vr_end r' = vr_end r"
      using r' live(2) list_all2_partner[OF Cons.prems(2)] by auto
    then show ?thesis using ap[of r] x(1) by (simp add: apart_def overlaps_def)
  qed
  moreover have "vr_start region < vr_end region"
    using assms(1) x(1) unfolding live spans_ok_def by simp
  ultimately have "VmaStore_register_range region [] copy =
      (Inr (), [], copy\<lparr>vs_regions := vs_regions copy @ [born_region region]\<rparr>)"
    by (cases rule: VmaStore_register_range_cases[of region "[]" copy])
      (auto simp: VmaStore_register_range_def split: if_splits)
  moreover have "\<exists>copy'. clone_regions rest fresh_id1 [] (copy\<lparr>vs_regions := vs_regions copy @ [born_region region]\<rparr>) = (Some copy', [])"
    using Cons.prems x(1) by (intro Cons.IH[of "dn @ [scan]"]) (simp_all add: list_all2_appendI)
  ultimately show ?case using cr x by simp
qed simp

end
