(* ===== verification/Vma_Contract.thy ===== *)
theory Vma_Contract
  imports Vma_Walks
begin

text \<open>
  The register's contract for the memory system calls, its interpretation on the model,
  and the properties of the register.
\<close>

section \<open>The contract of the register\<close>

text \<open>
  What mmap, munmap and mprotect rely on, over the view alone. \<open>place_fixed\<close> is the
  fixed-address path of \<^verbatim>\<open>HandleMmap\<close>: withdraw the stretch, then record the new region.
\<close>

definition place_fixed ::
  "(u64 \<Rightarrow> u64 \<Rightarrow> 'n \<Rightarrow> 's \<Rightarrow> unit result \<times> 'n \<times> 's) \<Rightarrow> (VmaRegion \<Rightarrow> 'n \<Rightarrow> 's \<Rightarrow> unit result \<times> 'n \<times> 's) \<Rightarrow>
   VmaRegion \<Rightarrow> 'n \<Rightarrow> 's \<Rightarrow> unit result \<times> 'n \<times> 's" where
  "place_fixed unreg reg region news s =
     (case unreg (vr_start region) (vr_end region) news s of
        (Inl e, news', s') \<Rightarrow> (Inl e, news', s')
      | (Inr _, news', s') \<Rightarrow> reg region news' s')"

locale promise_map =
  fixes view :: "'s \<Rightarrow> u64 \<Rightarrow> VmaRegion option"
    and invar :: "'s \<Rightarrow> bool"
    and reg :: "VmaRegion \<Rightarrow> 'n \<Rightarrow> 's \<Rightarrow> unit result \<times> 'n \<times> 's"
    and unreg :: "u64 \<Rightarrow> u64 \<Rightarrow> 'n \<Rightarrow> 's \<Rightarrow> unit result \<times> 'n \<times> 's"
    and prot :: "u64 \<Rightarrow> u64 \<Rightarrow> VmaProtection \<Rightarrow> 'n \<Rightarrow> 's \<Rightarrow> unit result \<times> 'n \<times> 's"
  assumes reg_ok: "\<lbrakk>invar s; reg r news s = (Inr u, news', s')\<rbrakk> \<Longrightarrow> invar s' \<and> vr_start r < vr_end r \<and>
      (\<forall>a. view s' a = (if in_span (vr_start r) (vr_end r) a then Some (region_at (born_region r) a) else view s a)) \<and>
      (\<forall>a. in_span (vr_start r) (vr_end r) a \<longrightarrow> view s a = None)"
    and reg_refused: "\<lbrakk>invar s; reg r news s = (Inl e, news', s')\<rbrakk> \<Longrightarrow> s' = s"
    and reg_room: "\<lbrakk>invar s; reg r news s = (Inl e, news', s'); vr_start r < vr_end r;
      \<forall>a. in_span (vr_start r) (vr_end r) a \<longrightarrow> view s a = None\<rbrakk> \<Longrightarrow> e = kOutOfMemory"
    and unreg_ok: "\<lbrakk>invar s; unreg lo hi news s = (Inr u, news', s')\<rbrakk> \<Longrightarrow> invar s' \<and> lo < hi \<and>
      (\<forall>a. view s' a = (if in_span lo hi a then None else view s a))"
    and unreg_refused: "\<lbrakk>invar s; unreg lo hi news s = (Inl e, news', s')\<rbrakk> \<Longrightarrow> invar s' \<and> view s' = view s \<and>
      e = (if lo < hi then kOutOfMemory else kInvalidArgument)"
    and prot_ok: "\<lbrakk>invar s; prot lo hi terms news s = (Inr u, news', s')\<rbrakk> \<Longrightarrow> invar s' \<and>
      (\<forall>a. view s' a = (if in_span lo hi a then map_option (new_terms terms) (view s a) else view s a)) \<and>
      (\<forall>a. in_span lo hi a \<longrightarrow> view s a \<noteq> None)"
    and prot_refused: "\<lbrakk>invar s; prot lo hi terms news s = (Inl e, news', s')\<rbrakk> \<Longrightarrow> s' = s"
begin

lemma place_fixed_ok:
  assumes "invar s" "place_fixed unreg reg r news s = (Inr u, news', s')"
  shows "invar s' \<and> (\<forall>a. view s' a =
    (if in_span (vr_start r) (vr_end r) a then Some (region_at (born_region r) a) else view s a))"
proof (cases "unreg (vr_start r) (vr_end r) news s")
  case (fields answer news1 s1)
  then obtain v where v: "answer = Inr v" and reg: "reg r news1 s1 = (Inr u, news', s')"
    using assms(2) by (cases answer) (simp_all add: place_fixed_def)
  note un = unreg_ok[OF assms(1) fields[unfolded v]]
  then have "invar s1" by blast
  note ok = reg_ok[OF this reg]
  show ?thesis using un ok by simp
qed

lemma place_fixed_refused:
  assumes "invar s" "place_fixed unreg reg r news s = (Inl e, news', s')" "vr_start r < vr_end r"
  shows "e = kOutOfMemory \<and> invar s' \<and> (\<forall>a. \<not> in_span (vr_start r) (vr_end r) a \<longrightarrow> view s' a = view s a)"
proof (cases "unreg (vr_start r) (vr_end r) news s")
  case (fields answer news1 s1)
  show ?thesis
  proof (cases answer)
    case (Inl e1)
    then show ?thesis using assms fields unreg_refused[of s "vr_start r" "vr_end r" news e1 news1 s1]
      by (simp add: place_fixed_def)
  next
    case (Inr u)
    note un = unreg_ok[OF assms(1) fields[unfolded Inr]]
    have reg: "reg r news1 s1 = (Inl e, news', s')" using assms(2) fields Inr by (simp add: place_fixed_def)
    have "e = kOutOfMemory" using reg_room[OF _ reg assms(3)] un by simp
    moreover have "s' = s1" using reg_refused[OF _ reg] un by simp
    ultimately show ?thesis using un by simp
  qed
qed

lemma unreg_after_reg:
  assumes "invar s" "reg r news s = (Inr u, news1, s1)" "unreg (vr_start r) (vr_end r) news1 s1 = (Inr v, news2, s2)"
  shows "view s2 = view s"
proof
  fix a
  note ok = reg_ok[OF assms(1,2)]
  then have "invar s1" by blast
  note un = unreg_ok[OF this assms(3)]
  show "view s2 a = view s a"
    using ok un by (cases "in_span (vr_start r) (vr_end r) a") simp_all
qed

end

lemma view_None_iff: "vma_view s a = None \<longleftrightarrow> (\<forall>x \<in> set (live_spans s). \<not> covers x a)"
  by (simp add: vma_view_def find_None_iff_live)

lemma apart_uncovered:
  assumes "\<forall>x \<in> set (live_spans s). apart x r" "in_span (vr_start r) (vr_end r) a"
  shows "vma_view s a = None"
proof -
  have "covers r a" using assms(2) by (simp add: in_span_def covers_def)
  then show ?thesis unfolding view_None_iff using assms(1) covers_not_apart by blast
qed

lemma uncovered_apart:
  assumes inv: "vma_inv s" and ne: "vr_start r < vr_end r"
    and none: "\<forall>a. in_span (vr_start r) (vr_end r) a \<longrightarrow> vma_view s a = None"
    and x: "x \<in> set (live_spans s)"
  shows "apart x r"
proof (rule ccontr)
  assume "\<not> apart x r"
  then have ov: "vr_start x < vr_end r" "vr_start r < vr_end x" by (auto simp: apart_def overlaps_def)
  have xne: "vr_start x < vr_end x" using inv x unfolding vma_inv_def spans_ok_def by blast
  let ?a = "max (vr_start x) (vr_start r)"
  have "in_span (vr_start r) (vr_end r) ?a" "covers x ?a"
    using ov ne xne by (auto simp: in_span_def covers_def max_def)
  then show False using none x unfolding view_None_iff by blast
qed

interpretation vma: promise_map vma_view vma_inv VmaStore_register_range VmaStore_unregister_range VmaStore_protect
proof
  fix s :: VmaStore and r news news' s' and u :: unit
  assume inv: "vma_inv s" and run: "VmaStore_register_range r news s = (Inr u, news', s')"
  show "vma_inv s' \<and> vr_start r < vr_end r \<and>
      (\<forall>a. vma_view s' a = (if in_span (vr_start r) (vr_end r) a then Some (region_at (born_region r) a) else vma_view s a)) \<and>
      (\<forall>a. in_span (vr_start r) (vr_end r) a \<longrightarrow> vma_view s a = None)"
  proof (cases rule: VmaStore_register_range_cases[of r news s])
    case (recorded news1)
    then have "s' = s\<lparr>vs_regions := vs_regions s @ [born_region r]\<rparr>" using run by simp
    with recorded_state[OF inv recorded(2,3)] apart_uncovered[OF recorded(3)] recorded(2) show ?thesis by simp
  qed (use run in simp)
next
  fix s :: VmaStore and r news news' s' and e
  assume inv: "vma_inv s" and run: "VmaStore_register_range r news s = (Inl e, news', s')"
  show "s' = s" using run by (cases rule: VmaStore_register_range_cases[of r news s]) auto
  assume ne: "vr_start r < vr_end r" and "\<forall>a. in_span (vr_start r) (vr_end r) a \<longrightarrow> vma_view s a = None"
  then have "\<forall>x \<in> set (live_spans s). apart x r" using uncovered_apart[OF inv] by blast
  then show "e = kOutOfMemory"
    using run ne by (cases rule: VmaStore_register_range_cases[of r news s]) auto
next
  fix s :: VmaStore and lo hi news news' s' and u :: unit
  assume inv: "vma_inv s" and run: "VmaStore_unregister_range lo hi news s = (Inr u, news', s')"
  then have lt: "lo < hi" by (auto simp: VmaStore_unregister_range_def split: if_splits)
  from inv lt show "vma_inv s' \<and> lo < hi \<and> (\<forall>a. vma_view s' a = (if in_span lo hi a then None else vma_view s a))"
  proof (cases rule: VmaStore_unregister_range_cases[where news = news])
    case (withdrawn news1 s1)
    then show ?thesis using run lt by simp
  qed (use run in simp)
next
  fix s :: VmaStore and lo hi news news' s' and e
  assume inv: "vma_inv s" and run: "VmaStore_unregister_range lo hi news s = (Inl e, news', s')"
  show "vma_inv s' \<and> vma_view s' = vma_view s \<and> e = (if lo < hi then kOutOfMemory else kInvalidArgument)"
  proof (cases "lo < hi")
    case True
    from inv True show ?thesis
    proof (cases rule: VmaStore_unregister_range_cases[where news = news])
      case (oom news1 s1)
      then show ?thesis using run True by simp
    qed (use run in simp)
  next
    case False
    then have "hi \<le> lo" by (simp add: not_less)
    then show ?thesis using run inv False by (simp add: VmaStore_unregister_range_def)
  qed
next
  fix s :: VmaStore and lo hi terms news news' s' and u :: unit
  assume inv: "vma_inv s" and run: "VmaStore_protect lo hi terms news s = (Inr u, news', s')"
  then have g: "lo < hi" "VmaStore_span_known lo hi s" by (auto simp: VmaStore_protect_def split: if_splits)
  from inv g show "vma_inv s' \<and>
      (\<forall>a. vma_view s' a = (if in_span lo hi a then map_option (new_terms terms) (vma_view s a) else vma_view s a)) \<and>
      (\<forall>a. in_span lo hi a \<longrightarrow> vma_view s a \<noteq> None)"
  proof (cases rule: VmaStore_protect_cases[where terms = terms and news = news])
    case (rewritten news1 s1)
    then show ?thesis using run g(2) by (simp add: VmaStore_span_known_iff)
  qed (use run in simp)
next
  fix s :: VmaStore and lo hi terms news news' s' and e
  assume inv: "vma_inv s" and run: "VmaStore_protect lo hi terms news s = (Inl e, news', s')"
  show "s' = s"
  proof (cases "lo < hi \<and> VmaStore_span_known lo hi s")
    case True
    then have g: "lo < hi" "VmaStore_span_known lo hi s" by auto
    from inv g show ?thesis
      by (cases rule: VmaStore_protect_cases[where terms = terms and news = news]) (use run in auto)
  next
    case False
    then have "lo \<ge> hi \<or> \<not> VmaStore_span_known lo hi s" by (auto simp: not_less)
    then show ?thesis using run by (simp add: VmaStore_protect_def)
  qed
qed

section \<open>Properties\<close>

text \<open>Two regions and a register holding them, for the witnesses.\<close>

definition sample_region :: "u64 \<Rightarrow> u64 \<Rightarrow> VmaRegion" where
  "sample_region lo hi = VmaRegion_blank\<lparr>vr_start := lo, vr_end := hi, vr_readable := True\<rparr>"

definition sample_store :: VmaStore where
  "sample_store = (VmaStore_init 0x100000)\<lparr>vs_regions := [sample_region 0x4000 0x8000, sample_region 0xa000 0xb000]\<rparr>"

lemmas sample_defs = sample_store_def sample_region_def VmaRegion_blank_def VmaStore_init_def

lemma sample_store_inv: "vma_inv sample_store"
  by (simp add: vma_inv_def live_spans_def spans_ok_def apart_def overlaps_def sample_defs)







text \<open>
  C13. \<^verbatim>\<open>find_free_spot\<close> always ends, and answers the highest stretch below the ceiling that no
  recorded span reaches into; it reports out of memory exactly when there is none.
\<close>

theorem vma_free_spot_highest:
  assumes "bytes \<noteq> 0" and "bytes \<le> ceiling'"
  shows "case VmaStore_find_free_spot ceiling' bytes s of
      Inr lo \<Rightarrow> clear_stretch s (unat lo) (unat bytes) \<and> unat lo + unat bytes \<le> unat ceiling' \<and>
        (\<forall>lo'. clear_stretch s lo' (unat bytes) \<and> lo' + unat bytes \<le> unat ceiling' \<longrightarrow> lo' \<le> unat lo)
    | Inl e \<Rightarrow> e = kOutOfMemory \<and>
        (\<forall>lo'. lo' + unat bytes \<le> unat ceiling' \<longrightarrow> \<not> clear_stretch s lo' (unat bytes))"
proof -
  let ?e = "free_spot_hunt bytes s ceiling'"
  have nlt: "\<not> ceiling' < bytes" using assms(2) by (simp add: not_less)
  show ?thesis
  proof (cases "?e < bytes")
    case True
    then have "\<not> (lo' + unat bytes \<le> unat ceiling' \<and> clear_stretch s lo' (unat bytes))" for lo'
      using free_spot_hunt_spec(1)[of s lo' bytes ceiling'] by (auto simp: word_less_nat_alt)
    then show ?thesis using True nlt assms(1) by (auto simp: VmaStore_find_free_spot_def Let_def)
  next
    case False
    then have le: "bytes \<le> ?e" by (simp add: not_less)
    then have u: "unat (?e - bytes) = unat ?e - unat bytes" "unat bytes \<le> unat ?e"
      by (simp_all add: unat_sub word_le_nat_alt)
    have "lo' \<le> unat (?e - bytes)" if "clear_stretch s lo' (unat bytes)" "lo' + unat bytes \<le> unat ceiling'" for lo'
      using free_spot_hunt_spec(1)[OF that] u by simp
    moreover have "unat ?e \<le> unat ceiling'" using free_spot_hunt_spec(3) by (simp add: word_le_nat_alt[symmetric])
    ultimately show ?thesis
      using False nlt assms(1) u free_spot_hunt_spec(2)[OF le] by (simp add: VmaStore_find_free_spot_def Let_def)
  qed
qed

theorem vma_free_spot_highest_witness:
  "\<exists>lo. VmaStore_find_free_spot 0xb000 0x2000 sample_store = Inr lo \<and> unat lo \<ge> 0x8000"
proof -
  have clear: "clear_stretch sample_store 0x8000 (unat (0x2000 :: u64))"
    by (simp add: clear_stretch_def obstacles_def sample_defs)
  then show ?thesis
    using vma_free_spot_highest[of "0x2000" "0xb000" sample_store]
    by (cases "VmaStore_find_free_spot 0xb000 0x2000 sample_store")
      (auto dest!: spec[of _ "0x8000"])
qed





text \<open>
  Attachments are told apart by their start alone. Attach segment 7 at 0x1000 for two
  pages, unmap its first page, attach segment 9 there: the copy's byte 0x1000 then rides
  segment 7 although the original rides segment 9.
\<close>

definition two_attachments :: VmaStore where
  "two_attachments =
     (let shared = (\<lambda>lo hi pages n. VmaRegion_blank\<lparr>vr_start := lo, vr_end := hi,
            vr_shared := Some \<lparr>sa_id = n, sa_pages = pages, sa_start = lo, sa_end = hi\<rparr>\<rparr>);
          (_, _, s1) = VmaStore_register_range (shared 0x1000 0x3000 7 0) [] (VmaStore_init 0x100000);
          (_, _, s2) = VmaStore_unregister_range 0x1000 0x2000 [] s1;
          (_, _, s3) = VmaStore_register_range (shared 0x1000 0x2000 9 1) [] s2
      in s3)"

theorem vma_clone_merges_attachments:
  "\<exists>copy. VmaStore_clone 0x100000 2 [] two_attachments = (Some copy, []) \<and>
     map_option (\<lambda>r. map_option sa_pages (vr_shared r)) (VmaStore_find 0x1000 two_attachments) = Some (Some 9) \<and>
     map_option (\<lambda>r. map_option sa_pages (vr_shared r)) (VmaStore_find 0x1000 copy) = Some (Some 7)"
proof -
  have two: "two_attachments = (VmaStore_init 0x100000)\<lparr>vs_regions :=
     [VmaRegion_blank\<lparr>vr_start := 0x2000, vr_end := 0x3000, vr_file_offset := 0x1000,
        vr_shared := Some \<lparr>sa_id = 0, sa_pages = 7, sa_start = 0x1000, sa_end = 0x3000\<rparr>\<rparr>,
      VmaRegion_blank\<lparr>vr_start := 0x1000, vr_end := 0x2000,
        vr_shared := Some \<lparr>sa_id = 1, sa_pages = 9, sa_start = 0x1000, sa_end = 0x2000\<rparr>\<rparr>]\<rparr>"
    by (simp add: two_attachments_def Let_def VmaStore_register_range_def VmaStore_unregister_range_def
        withdraw.simps heap_covered_def overlaps_def overlaps_span_def VmaStore_init_def VmaRegion_blank_def)
  show ?thesis
    unfolding two
    by (simp add: VmaStore_clone_def clone_region_def VmaStore_register_range_def overlaps_def
        VmaStore_init_def VmaRegion_blank_def VmaStore_find_def covers_def Let_def)
qed

end
