(* ===== verification/Bytes.thy ===== *)
theory Bytes
  imports Words
begin

text \<open>
  Byte order (\<^verbatim>\<open>base/include/cinux/byte_order.hpp\<close>) and the Internet checksum
  (\<^verbatim>\<open>checksum.hpp\<close>). A byte buffer is a list of 8-bit words; reading past its end, which
  the source leaves to its callers, is unspecified here and writing there changes nothing.
\<close>

unbundle bit_operations_syntax

section \<open>Words in byte buffers\<close>

definition ReadWord16 :: "u8 list \<Rightarrow> nat \<Rightarrow> u16" where
  "ReadWord16 data offset = ucast (data ! offset) OR push_bit 8 (ucast (data ! (offset + 1)))"

definition ReadWord32 :: "u8 list \<Rightarrow> nat \<Rightarrow> u32" where
  "ReadWord32 data offset =
     ucast (data ! offset) OR push_bit 8 (ucast (data ! (offset + 1))) OR
     push_bit 16 (ucast (data ! (offset + 2))) OR push_bit 24 (ucast (data ! (offset + 3)))"

definition ReadWord64 :: "u8 list \<Rightarrow> nat \<Rightarrow> u64" where
  "ReadWord64 data offset =
     ucast (ReadWord32 data offset) OR push_bit 32 (ucast (ReadWord32 data (offset + 4)))"

definition WriteWord16 :: "u8 list \<Rightarrow> nat \<Rightarrow> u16 \<Rightarrow> u8 list" where
  "WriteWord16 data offset value = data[offset := ucast value, offset + 1 := ucast (drop_bit 8 value)]"

definition WriteWord32 :: "u8 list \<Rightarrow> nat \<Rightarrow> u32 \<Rightarrow> u8 list" where
  "WriteWord32 data offset value =
     data[offset := ucast value, offset + 1 := ucast (drop_bit 8 value),
          offset + 2 := ucast (drop_bit 16 value), offset + 3 := ucast (drop_bit 24 value)]"

definition WriteWord64 :: "u8 list \<Rightarrow> nat \<Rightarrow> u64 \<Rightarrow> u8 list" where
  "WriteWord64 data offset value =
     WriteWord32 (WriteWord32 data offset (ucast value)) (offset + 4) (ucast (drop_bit 32 value))"

definition WriteWord16Be :: "u8 list \<Rightarrow> nat \<Rightarrow> u16 \<Rightarrow> u8 list" where
  "WriteWord16Be data offset value = data[offset := ucast (drop_bit 8 value), offset + 1 := ucast value]"

definition WriteWord32Be :: "u8 list \<Rightarrow> nat \<Rightarrow> u32 \<Rightarrow> u8 list" where
  "WriteWord32Be data offset value =
     data[offset := ucast (drop_bit 24 value), offset + 1 := ucast (drop_bit 16 value),
          offset + 2 := ucast (drop_bit 8 value), offset + 3 := ucast value]"

definition ReadWord16Be :: "u8 list \<Rightarrow> nat \<Rightarrow> u16" where
  "ReadWord16Be data offset = push_bit 8 (ucast (data ! offset)) OR ucast (data ! (offset + 1))"

definition ReadWord32Be :: "u8 list \<Rightarrow> nat \<Rightarrow> u32" where
  "ReadWord32Be data offset =
     push_bit 24 (ucast (data ! offset)) OR push_bit 16 (ucast (data ! (offset + 1))) OR
     push_bit 8 (ucast (data ! (offset + 2))) OR ucast (data ! (offset + 3))"

named_theorems write_simps \<open>lengths and bytes of a buffer after a write\<close>

lemma write_length [write_simps]:
  "length (WriteWord16 data k v) = length data" "length (WriteWord32 data k w) = length data"
  "length (WriteWord64 data k x) = length data"
  "length (WriteWord16Be data k v) = length data" "length (WriteWord32Be data k w) = length data"
  by (simp_all add: WriteWord16_def WriteWord32_def WriteWord64_def WriteWord16Be_def WriteWord32Be_def)

lemma write16be_nth [write_simps]:
  "k + 1 < length data \<Longrightarrow> WriteWord16Be data k v ! i =
     (if i = k then ucast (drop_bit 8 v) else if i = k + 1 then ucast v else data ! i)"
  by (auto simp: WriteWord16Be_def nth_list_update)

lemma write32be_nth [write_simps]:
  "k + 3 < length data \<Longrightarrow> WriteWord32Be data k v ! i =
     (if i = k then ucast (drop_bit 24 v) else if i = k + 1 then ucast (drop_bit 16 v)
      else if i = k + 2 then ucast (drop_bit 8 v) else if i = k + 3 then ucast v else data ! i)"
  by (auto simp: WriteWord32Be_def nth_list_update)

lemma join16: "ucast (ucast v :: u8) OR push_bit 8 (ucast (ucast (drop_bit 8 v) :: u8)) = (v :: u16)"
  by (rule bit_word_eqI) (auto simp: bit_simps)

lemma join32:
  "ucast (ucast v :: u8) OR push_bit 8 (ucast (ucast (drop_bit 8 v) :: u8)) OR
   push_bit 16 (ucast (ucast (drop_bit 16 v) :: u8)) OR push_bit 24 (ucast (ucast (drop_bit 24 v) :: u8)) = (v :: u32)"
proof (rule bit_word_eqI)
  fix n assume "n < LENGTH(32)"
  then consider "n < 8" | "8 \<le> n" "n < 16" | "16 \<le> n" "n < 24" | "24 \<le> n" "n < 32" by fastforce
  then show "bit (ucast (ucast v :: u8) OR push_bit 8 (ucast (ucast (drop_bit 8 v) :: u8)) OR
      push_bit 16 (ucast (ucast (drop_bit 16 v) :: u8)) OR push_bit 24 (ucast (ucast (drop_bit 24 v) :: u8)) :: u32) n
    = bit v n"
    by cases (auto simp: bit_simps)
qed

lemma join64: "ucast (ucast v :: u32) OR push_bit 32 (ucast (ucast (drop_bit 32 v) :: u32)) = (v :: u64)"
  by (rule bit_word_eqI) (auto simp: bit_simps)

lemma read_write16: "k + 1 < length data \<Longrightarrow> ReadWord16 (WriteWord16 data k v) k = v"
  using join16[of v] by (simp add: ReadWord16_def WriteWord16_def)

lemma read_write32: "k + 3 < length data \<Longrightarrow> ReadWord32 (WriteWord32 data k v) k = v"
  using join32[of v] by (simp add: ReadWord32_def WriteWord32_def)

lemma read_write64: "k + 7 < length data \<Longrightarrow> ReadWord64 (WriteWord64 data k v) k = v"
proof -
  assume len: "k + 7 < length data"
  let ?lo = "WriteWord32 data k (ucast v)"
  have "ReadWord32 (WriteWord32 ?lo (k + 4) w) k = ReadWord32 ?lo k" for w
    by (simp add: ReadWord32_def WriteWord32_def)
  then have "ReadWord32 (WriteWord64 data k v) k = ucast v"
    using len by (simp add: WriteWord64_def read_write32)
  moreover have "ReadWord32 (WriteWord64 data k v) (k + 4) = ucast (drop_bit 32 v)"
    using len by (simp add: WriteWord64_def read_write32 write_simps)
  ultimately show ?thesis using join64[of v] by (simp add: ReadWord64_def)
qed

lemma read_write16be: "k + 1 < length data \<Longrightarrow> ReadWord16Be (WriteWord16Be data k v) k = v"
  using join16[of v] by (simp add: ReadWord16Be_def write_simps or.commute)

lemma read_write32be: "k + 3 < length data \<Longrightarrow> ReadWord32Be (WriteWord32Be data k v) k = v"
  using join32[of v] by (simp add: ReadWord32Be_def write_simps ac_simps)

section \<open>The Internet checksum\<close>

record InternetChecksum =
  ic_sum :: u32
  ic_pending :: u8
  ic_has_pending :: bool

definition InternetChecksum_init :: InternetChecksum where
  "InternetChecksum_init = \<lparr>ic_sum = 0, ic_pending = 0, ic_has_pending = False\<rparr>"

definition pair_word :: "u8 \<Rightarrow> u8 \<Rightarrow> u32" where
  "pair_word high low = BitMask_deposit 0 8 (ucast low) (BitMask_deposit 8 8 (ucast high) 0)"

text \<open>The loop over whole pairs and the odd byte kept for the next call.\<close>

fun checksum_pairs :: "u8 list \<Rightarrow> InternetChecksum \<Rightarrow> InternetChecksum" where
  "checksum_pairs [] c = c"
| "checksum_pairs [a] c = c\<lparr>ic_pending := a, ic_has_pending := True\<rparr>"
| "checksum_pairs (a # b # rest) c = checksum_pairs rest (c\<lparr>ic_sum := ic_sum c + pair_word a b\<rparr>)"

definition InternetChecksum_add :: "u8 list \<Rightarrow> InternetChecksum \<Rightarrow> InternetChecksum" where
  "InternetChecksum_add data c =
     (if ic_has_pending c \<and> data \<noteq> [] then
        checksum_pairs (tl data)
          (c\<lparr>ic_sum := ic_sum c + pair_word (ic_pending c) (hd data), ic_has_pending := False\<rparr>)
      else checksum_pairs data c)"

lemma fold_step_less:
  fixes acc :: u32
  assumes "acc AND Ones 16 \<noteq> acc"
  shows "unat (BitMask_extract 0 16 acc + BitMask_extract 16 16 acc) < unat acc"
    and "unat (BitMask_extract 0 16 acc + BitMask_extract 16 16 acc) = unat acc mod 65536 + unat acc div 65536"
    and "65536 \<le> unat acc"
proof -
  have ones: "(Ones 16 :: u32) = mask 16" by (rule bit_word_eqI) (auto simp: bit_Ones bit_simps)
  have lo: "BitMask_extract 0 16 acc = take_bit 16 acc"
    by (rule bit_word_eqI) (auto simp: bit_BitMask_extract bit_simps)
  have hi: "BitMask_extract 16 16 acc = drop_bit 16 acc"
    by (rule bit_word_eqI) (auto simp: bit_BitMask_extract bit_simps dest: bit_imp_le_length)
  have ulo: "unat (take_bit 16 acc) = unat acc mod 65536"
    by (simp add: unsigned_take_bit_eq take_bit_eq_mod unat_mod_distrib)
  have uhi: "unat (drop_bit 16 acc) = unat acc div 65536"
    by (simp add: unsigned_drop_bit_eq drop_bit_eq_div take_bit_eq_mod unat_div_distrib)
  show big: "65536 \<le> unat acc"
  proof (rule ccontr)
    assume "\<not> 65536 \<le> unat acc"
    then have "take_bit 16 acc = acc" by (simp add: word_unat_eq_iff ulo)
    with assms show False by (simp add: ones take_bit_eq_mask)
  qed
  have "unat acc mod 65536 + unat acc div 65536 < unat acc"
    using big div_mult_mod_eq[of "unat acc" 65536] by linarith
  moreover have "unat acc < 2 ^ 32" using unsigned_less[of acc] by simp
  ultimately have s: "unat acc mod 65536 + unat acc div 65536 < 2 ^ 32" by linarith
  then show eq: "unat (BitMask_extract 0 16 acc + BitMask_extract 16 16 acc) =
      unat acc mod 65536 + unat acc div 65536"
    by (simp add: lo hi unat_word_ariths ulo uhi)
  show "unat (BitMask_extract 0 16 acc + BitMask_extract 16 16 acc) < unat acc"
    using \<open>unat acc mod 65536 + unat acc div 65536 < unat acc\<close> by (simp add: eq)
qed

function fold_carries :: "u32 \<Rightarrow> u32" where
  "fold_carries acc =
     (if acc AND Ones 16 \<noteq> acc
      then fold_carries (BitMask_extract 0 16 acc + BitMask_extract 16 16 acc) else acc)"
  by pat_completeness auto
termination
  by (relation "measure unat") (auto simp: fold_step_less(1))

declare fold_carries.simps [simp del]

definition InternetChecksum_value :: "InternetChecksum \<Rightarrow> u16" where
  "InternetChecksum_value c =
     (let total = (if ic_has_pending c then ic_sum c + pair_word (ic_pending c) 0 else ic_sum c)
      in ucast (NOT (fold_carries total) AND Ones 16))"


subsection \<open>What the sum computes\<close>

text \<open>
  The sum of RFC 1071 over the naturals: bytes paired big-endian, the last odd byte padded with
  zero. \<^term>\<open>pair_sum\<close> counts whole pairs only, the part of the sum already folded in.
\<close>

fun be_sum :: "u8 list \<Rightarrow> nat" where
  "be_sum [] = 0"
| "be_sum [a] = 256 * unat a"
| "be_sum (a # b # rest) = 256 * unat a + unat b + be_sum rest"

fun pair_sum :: "u8 list \<Rightarrow> nat" where
  "pair_sum (a # b # rest) = 256 * unat a + unat b + pair_sum rest"
| "pair_sum _ = 0"

definition ones_sum :: "nat \<Rightarrow> nat" where
  "ones_sum n = (if n = 0 then 0 else (n - 1) mod 65535 + 1)"

definition checksum_of :: "u8 list \<Rightarrow> nat" where
  "checksum_of bs = 65535 - ones_sum (be_sum bs)"

lemma be_sum_append: "even (length xs) \<Longrightarrow> be_sum (xs @ ys) = be_sum xs + be_sum ys"
  by (induction xs rule: be_sum.induct) auto

lemma pair_sum_append: "even (length xs) \<Longrightarrow> pair_sum (xs @ ys) = pair_sum xs + pair_sum ys"
  by (induction xs rule: be_sum.induct) auto

lemma pair_sum_snoc_odd: "even (length xs) \<Longrightarrow> pair_sum (xs @ [a]) = pair_sum xs"
  by (simp add: pair_sum_append)

lemma be_sum_pair_sum:
  "be_sum bs = pair_sum bs + (if odd (length bs) then 256 * unat (last bs) else 0)"
  by (induction bs rule: be_sum.induct) auto

lemma be_sum_bound: "be_sum bs \<le> 65535 * ((length bs + 1) div 2)"
proof (induction bs rule: be_sum.induct)
  case (2 a)
  have "unat a < 256" using unsigned_less[of a] by simp
  then show ?case by simp
next
  case (3 a b rest)
  have "unat a < 256" "unat b < 256" using unsigned_less[of a] unsigned_less[of b] by simp_all
  with 3 show ?case by simp
qed simp

lemma ones_sum_le: "ones_sum n \<le> 65535"
  using mod_less_divisor[of 65535 "n - 1"] unfolding ones_sum_def by (simp add: Suc_le_eq del: mod_less_divisor)

lemma ones_sum_small: "n \<le> 65535 \<Longrightarrow> ones_sum n = n"
  unfolding ones_sum_def by auto

lemma ones_sum_step:
  assumes "65536 \<le> n"
  shows "ones_sum (n mod 65536 + n div 65536) = ones_sum n"
proof -
  define q r where "q = n div 65536" and "r = n mod 65536"
  have n: "n = q * 65536 + r" unfolding q_def r_def by simp
  have q: "1 \<le> q" using assms unfolding q_def by (simp add: div_greater_zero_iff Suc_le_eq)
  have "n - 1 = q * 65535 + (r + q - 1)" using q unfolding n by (simp add: algebra_simps)
  then have "(n - 1) mod 65535 = (r + q - 1) mod 65535" by simp
  then show ?thesis using q assms unfolding ones_sum_def q_def[symmetric] r_def[symmetric] by simp
qed

lemma ones_sum_cong: "0 < n \<Longrightarrow> n mod 65535 = 0 \<Longrightarrow> ones_sum n = 65535"
proof -
  assume n: "0 < n" "n mod 65535 = 0"
  then obtain k where k: "n = 65535 * k" by auto
  with n have "1 \<le> k" by (cases k) auto
  then have "n - 1 = 65534 + 65535 * (k - 1)" using k by (cases k) auto
  then show ?thesis using n by (simp add: ones_sum_def)
qed

lemma unat_fold_carries: "unat (fold_carries w) = ones_sum (unat w)"
proof (induction w rule: fold_carries.induct)
  case (1 w)
  show ?case
  proof (cases "w AND Ones 16 = w")
    case True
    have "bit w n \<longrightarrow> n < 16" for n using arg_cong[OF True, of "\<lambda>x. bit x n"] by (auto simp: bit_and_iff bit_Ones)
    then have "take_bit 16 w = w" by (intro bit_word_eqI) (auto simp: bit_take_bit_iff)
    then have "unat w = take_bit 16 (unat w)" by (metis unsigned_take_bit_eq)
    then have "unat w < 2 ^ 16" by (metis take_bit_nat_less_exp)
    then show ?thesis using True by (simp add: fold_carries.simps[of w] ones_sum_small)
  next
    case False
    then show ?thesis
      using 1[OF False] fold_step_less(2,3)[OF False] ones_sum_step
      by (simp add: fold_carries.simps[of w])
  qed
qed

lemma unat_pair_word: "unat (pair_word a b) = 256 * unat a + unat b"
proof -
  have high: "bit a n \<Longrightarrow> n < 8" for n using bit_imp_le_length[of a n] by simp
  have low: "bit b n \<Longrightarrow> n < 8" for n using bit_imp_le_length[of b n] by simp
  have "pair_word a b = push_bit 8 (ucast a) OR ucast b"
  proof (rule bit_word_eqI)
    fix n assume n: "n < LENGTH(32)"
    show "bit (pair_word a b) n = bit (push_bit 8 (ucast a) OR ucast b :: u32) n"
      using n high[of "n - 8"] low[of n]
      by (cases "n < 8"; cases "n < 16") (auto simp: pair_word_def bit_BitMask_deposit bit_simps)
  qed
  also have "\<dots> = push_bit 8 (ucast a) + ucast b"
    by (rule disjunctive_add[symmetric]) (auto simp: bit_simps dest: low)
  finally have "pair_word a b = push_bit 8 (ucast a) + ucast b" .
  moreover have "unat a < 256" "unat b < 256" using unsigned_less[of a] unsigned_less[of b] by simp_all
  ultimately show ?thesis
    by (simp add: push_bit_eq_mult unat_word_ariths unsigned_ucast_eq take_bit_eq_mod)
qed

lemma pair_word_of_nat: "pair_word a b = of_nat (256 * unat a + unat b)"
  using arg_cong[OF unat_pair_word[of a b], of "of_nat :: nat \<Rightarrow> u32"] by simp

text \<open>The accumulator after the bytes \<^term>\<open>bs\<close>, in whatever spans they came.\<close>

definition checksum_rep :: "u8 list \<Rightarrow> InternetChecksum \<Rightarrow> bool" where
  "checksum_rep bs c \<longleftrightarrow> ic_sum c = of_nat (pair_sum bs) \<and> ic_has_pending c = odd (length bs) \<and>
     (odd (length bs) \<longrightarrow> ic_pending c = last bs)"

lemma checksum_rep_init: "checksum_rep [] InternetChecksum_init"
  by (simp add: checksum_rep_def InternetChecksum_init_def)

lemma checksum_rep_pairs:
  "checksum_rep bs c \<Longrightarrow> even (length bs) \<Longrightarrow> checksum_rep (bs @ data) (checksum_pairs data c)"
proof (induction data c arbitrary: bs rule: checksum_pairs.induct)
  case (2 a c)
  then show ?case by (simp add: checksum_rep_def pair_sum_append)
next
  case (3 a b rest c)
  have "checksum_rep (bs @ [a, b]) (c\<lparr>ic_sum := ic_sum c + pair_word a b\<rparr>)"
    using 3(2,3) by (simp add: checksum_rep_def pair_sum_append pair_word_of_nat)
  from 3(1)[OF this] 3(3) show ?case by simp
qed simp

lemma checksum_rep_add:
  assumes "checksum_rep bs c"
  shows "checksum_rep (bs @ data) (InternetChecksum_add data c)"
proof (cases "odd (length bs) \<and> data \<noteq> []")
  case True
  then obtain b rest front where data: "data = b # rest" and bs: "bs = front @ [last bs]" "even (length front)"
    by (cases data; cases bs rule: rev_cases) auto
  let ?c = "c\<lparr>ic_sum := ic_sum c + pair_word (ic_pending c) b, ic_has_pending := False\<rparr>"
  have "pair_sum (bs @ [b]) = pair_sum bs + (256 * unat (last bs) + unat b)"
    by (subst (1 2) bs(1)) (simp add: bs(2) pair_sum_append)
  then have "checksum_rep (bs @ [b]) ?c"
    using True assms by (simp add: checksum_rep_def pair_word_of_nat)
  from checksum_rep_pairs[OF this] True assms data show ?thesis
    by (simp add: InternetChecksum_add_def checksum_rep_def)
next
  case False
  then show ?thesis using assms checksum_rep_pairs[OF assms, of data]
    by (cases data) (auto simp: InternetChecksum_add_def checksum_rep_def)
qed

lemma checksum_rep_spans: "checksum_rep (concat spans) (fold InternetChecksum_add spans InternetChecksum_init)"
proof (induction spans rule: rev_induct)
  case (snoc span spans)
  then show ?case using checksum_rep_add by simp
qed (simp add: checksum_rep_init)


lemma checksum_value_rep:
  assumes "checksum_rep bs c" "length bs \<le> 131072"
  shows "unat (InternetChecksum_value c) = checksum_of bs"
proof -
  let ?w = "if ic_has_pending c then ic_sum c + pair_word (ic_pending c) 0 else ic_sum c"
  have w: "?w = of_nat (be_sum bs)"
    using assms(1) by (simp add: checksum_rep_def pair_word_of_nat be_sum_pair_sum)
  have "(length bs + 1) div 2 \<le> 65536" using assms(2) by simp
  then have "be_sum bs \<le> 65535 * 65536" using be_sum_bound[of bs] by (meson le_trans mult_le_mono2)
  then have uw: "unat ?w = be_sum bs" unfolding w by (simp add: unat_of_nat take_bit_eq_mod)
  have "unat (fold_carries ?w) \<le> 65535" by (simp add: unat_fold_carries ones_sum_le)
  moreover have "InternetChecksum_value c = ucast (NOT (fold_carries ?w) AND Ones 16)"
    by (simp add: InternetChecksum_value_def)
  moreover have "unat (ucast (NOT x AND Ones 16 :: u32) :: u16) = 65535 - unat x" if "unat x \<le> 65535" for x :: u32
  proof -
    have "ucast (NOT x AND Ones 16 :: u32) = (NOT (ucast x) :: u16)"
      by (rule bit_word_eqI) (auto simp: bit_simps bit_Ones)
    moreover have u: "unat (ucast x :: u16) = unat x"
      using that by (simp add: unsigned_ucast_eq take_bit_eq_mod)
    moreover have "NOT (ucast x) = (65535 :: u16) - ucast x" by (simp add: not_eq_complement)
    moreover have "ucast x \<le> (65535 :: u16)" using that u by (simp add: word_le_nat_alt)
    ultimately show ?thesis by (simp add: unat_sub)
  qed
  ultimately show ?thesis by (simp only: checksum_of_def unat_fold_carries uw)
qed

lemma checksum_spans_value:
  "length (concat spans) \<le> 131072 \<Longrightarrow>
   unat (InternetChecksum_value (fold InternetChecksum_add spans InternetChecksum_init)) = checksum_of (concat spans)"
  using checksum_value_rep[OF checksum_rep_spans] .

subsection \<open>Sealing\<close>

lemma unat_high_low: "256 * unat (ucast (drop_bit 8 v) :: u8) + unat (ucast v :: u8) = unat (v :: u16)"
proof -
  have "unat v < 65536" using unsigned_less[of v] by simp
  then have "unat v div 256 < 256" by (simp add: less_mult_imp_div_less)
  then show ?thesis
    by (simp add: unsigned_ucast_eq unsigned_drop_bit_eq take_bit_eq_mod drop_bit_eq_div unat_div_distrib)
qed

lemma be_sum_field:
  assumes "even k" "k + 1 < length bs"
  shows "be_sum (WriteWord16Be bs k v) = be_sum (WriteWord16Be bs k 0) + unat v"
proof -
  define pre post where "pre = take k bs" and "post = drop (k + 2) bs"
  have split: "WriteWord16Be bs k w = pre @ [ucast (drop_bit 8 w), ucast w] @ post" for w
    using assms(2) unfolding pre_def post_def WriteWord16Be_def
    by (intro nth_equalityI)
      (auto simp: nth_append nth_list_update nth_Cons split: nat.split intro!: arg_cong[where f = "nth bs"])
  have "even (length pre)" using assms unfolding pre_def by simp
  then show ?thesis unfolding split by (simp add: be_sum_append unat_high_low)
qed

lemma checksum_of_sealed:
  assumes "even k" "k + 1 < length bs" "unat v = checksum_of (WriteWord16Be bs k 0)"
  shows "checksum_of (WriteWord16Be bs k v) = 0"
proof -
  define s where "s = be_sum (WriteWord16Be bs k 0)"
  have "be_sum (WriteWord16Be bs k v) = s + (65535 - ones_sum s)"
    using be_sum_field[OF assms(1,2), of v] assms(3) unfolding s_def checksum_of_def by simp
  moreover have "ones_sum (s + (65535 - ones_sum s)) = 65535"
  proof (cases "s = 0")
    case False
    define q where "q = (s - 1) div 65535"
    have s: "s = 65535 * q + ones_sum s" using False div_mult_mod_eq[of "s - 1" 65535]
      unfolding q_def ones_sum_def by simp
    have "s + (65535 - ones_sum s) = 65535 * (q + 1)" 
      using ones_sum_le[of s] by (subst (1) s) (simp only: add.assoc le_add_diff_inverse distrib_left mult_1_right)
    then show ?thesis using ones_sum_cong[of "65535 * (q + 1)"] by (simp del: mult_Suc_right)
  qed (simp add: ones_sum_def)
  ultimately show ?thesis by (simp add: checksum_of_def)
qed


text \<open>
  C21. Whatever the split of a packet into spans, odd boundaries included, the accumulator of
  \<^verbatim>\<open>checksum.hpp\<close> answers the checksum RFC 1071 defines over the concatenated bytes: the
  complement of the sum of the big-endian words with end-around carry. The 32-bit running sum does
  not overflow for anything up to 128 KiB.
\<close>

theorem checksum_split_independent:
  assumes "length (concat spans) \<le> 131072"
  shows "unat (InternetChecksum_value (fold InternetChecksum_add spans InternetChecksum_init)) =
    65535 - ones_sum (be_sum (concat spans))"
  using checksum_spans_value[OF assms] by (simp add: checksum_of_def)

theorem checksum_split_independent_witness:
  "unat (InternetChecksum_value
     (fold InternetChecksum_add [[0x45], [0x00, 0xFF], [], [0xFF, 0x01, 0x02]] InternetChecksum_init)) =
   65535 - ones_sum (be_sum [0x45, 0x00, 0xFF, 0xFF, 0x01, 0x02])"
  using checksum_split_independent[of "[[0x45], [0x00, 0xFF], [], [0xFF, 0x01, 0x02]]"] by simp

text \<open>
  C37. The receiver's whole test: a packet whose checksum field, zeroed, was then filled with the
  checksum of the packet sums to zero, whatever spans the receiver feeds.
\<close>

theorem checksum_sealed_verifies:
  assumes "even k" "k + 1 < length packet" "length packet \<le> 131072"
    and "sealed = WriteWord16Be packet k
           (InternetChecksum_value (InternetChecksum_add (WriteWord16Be packet k 0) InternetChecksum_init))"
    and "concat spans = sealed"
  shows "InternetChecksum_value (fold InternetChecksum_add spans InternetChecksum_init) = 0"
proof -
  let ?v = "InternetChecksum_value (InternetChecksum_add (WriteWord16Be packet k 0) InternetChecksum_init)"
  have "unat ?v = checksum_of (WriteWord16Be packet k 0)"
    using checksum_spans_value[of "[WriteWord16Be packet k 0]"] assms(3) by (simp add: write_simps)
  then have "checksum_of sealed = 0" using checksum_of_sealed[OF assms(1,2)] assms(4) by simp
  moreover have "length sealed \<le> 131072" using assms(3,4) by (simp add: write_simps)
  ultimately have "unat (InternetChecksum_value (fold InternetChecksum_add spans InternetChecksum_init)) = 0"
    using checksum_spans_value[of spans] assms(5) by simp
  then show ?thesis by (simp add: unat_eq_zero)
qed

theorem checksum_sealed_verifies_witness:
  "InternetChecksum_value (fold InternetChecksum_add [[WriteWord16Be [8, 0, 0, 0, 7] 2
     (InternetChecksum_value (InternetChecksum_add (WriteWord16Be [8, 0, 0, 0, 7] 2 0) InternetChecksum_init)) ! 0],
     tl (WriteWord16Be [8, 0, 0, 0, 7] 2
     (InternetChecksum_value (InternetChecksum_add (WriteWord16Be [8, 0, 0, 0, 7] 2 0) InternetChecksum_init)))]
     InternetChecksum_init) = 0"
  by (rule checksum_sealed_verifies[of 2 "[8, 0, 0, 0, 7]", OF _ _ _ refl]) (simp_all add: WriteWord16Be_def)



end
