(* ===== verification/NetLayout.thy ===== *)
theory NetLayout
  imports Bytes
begin

text \<open>
  The header shapes of \<^verbatim>\<open>kernel/net/net_layout.hpp\<close> and \<^verbatim>\<open>net_layout.cpp\<close>: Ethernet, ARP, IPv4,
  ICMP echo, UDP and TCP. A parser takes a pointer and a length; here both are one byte list, whose
  length is the length argument. Each error enumeration is a datatype and each parser a sum.
\<close>

unbundle bit_operations_syntax

section \<open>Numbers\<close>

abbreviation (input) kMacAddressBytes :: nat where "kMacAddressBytes \<equiv> 6"
abbreviation (input) kEthernetHeaderBytes :: nat where "kEthernetHeaderBytes \<equiv> 14"
abbreviation (input) kMaxEthernetFrame :: nat where "kMaxEthernetFrame \<equiv> 1518"
abbreviation (input) kEtherTypeIpv4 :: u16 where "kEtherTypeIpv4 \<equiv> 0x0800"
abbreviation (input) kEtherTypeArp :: u16 where "kEtherTypeArp \<equiv> 0x0806"
abbreviation (input) kArpPacketBytes :: nat where "kArpPacketBytes \<equiv> 28"
abbreviation (input) kArpHardwareEthernet :: u16 where "kArpHardwareEthernet \<equiv> 1"
abbreviation (input) kIpv4Version :: u8 where "kIpv4Version \<equiv> 4"
abbreviation (input) kIpv4AddressBytes :: nat where "kIpv4AddressBytes \<equiv> 4"
abbreviation (input) kMinIpv4HeaderBytes :: nat where "kMinIpv4HeaderBytes \<equiv> 20"
abbreviation (input) kIpv4ProtocolIcmp :: u8 where "kIpv4ProtocolIcmp \<equiv> 1"
abbreviation (input) kIpv4ProtocolTcp :: u8 where "kIpv4ProtocolTcp \<equiv> 6"
abbreviation (input) kIpv4ProtocolUdp :: u8 where "kIpv4ProtocolUdp \<equiv> 17"
abbreviation (input) kIcmpEchoHeaderBytes :: nat where "kIcmpEchoHeaderBytes \<equiv> 8"
abbreviation (input) kUdpHeaderBytes :: nat where "kUdpHeaderBytes \<equiv> 8"
abbreviation (input) kTcpHeaderBytes :: nat where "kTcpHeaderBytes \<equiv> 20"
abbreviation (input) kMaxDatagramBytes :: nat where "kMaxDatagramBytes \<equiv> 1500"

section \<open>Nibbles\<close>

definition LowNibble :: "u8 \<Rightarrow> u8" where
  "LowNibble value = ucast ((ucast value :: u32) AND 0xF)"

definition HighNibble :: "u8 \<Rightarrow> u8" where
  "HighNibble value = ucast (drop_bit 4 (ucast value :: u32) AND 0xF)"

lemma unat_u8_less: "unat (w :: u8) < 256"
  using unsigned_less[of w] by simp

lemma unat_u16_less: "unat (w :: u16) < 65536"
  using unsigned_less[of w] by simp

lemma nibble_mask: "(0xF :: u32) = mask 4"
  by (simp add: mask_eq_exp_minus_1)

lemma unat_LowNibble: "unat (LowNibble v) = unat v mod 16"
proof -
  have "LowNibble v = take_bit 4 v"
    unfolding LowNibble_def nibble_mask by (rule bit_word_eqI) (auto simp: bit_simps)
  then show ?thesis by (simp add: unsigned_take_bit_eq take_bit_eq_mod unat_mod_distrib)
qed

lemma unat_HighNibble: "unat (HighNibble v) = unat v div 16"
proof -
  have "HighNibble v = drop_bit 4 v"
    unfolding HighNibble_def nibble_mask by (rule bit_word_eqI) (auto simp: bit_simps dest: bit_imp_le_length)
  then show ?thesis by (simp add: unsigned_drop_bit_eq drop_bit_eq_div unat_div_distrib)
qed

section \<open>Views\<close>

text \<open>A hardware address: six bytes.\<close>

type_synonym MacAddress = "u8 list"

record EthernetView =
  ev_destination :: MacAddress
  ev_source :: MacAddress
  ev_ethertype :: u16

datatype EthernetError = EthernetError_kFrameTooShort

record ArpView =
  av_sender_hardware :: MacAddress
  av_sender_protocol :: u32
  av_target_hardware :: MacAddress
  av_target_protocol :: u32
  av_operation :: u16

datatype ArpError =
    ArpError_kPacketTooShort
  | ArpError_kUnexpectedHardware
  | ArpError_kUnexpectedProtocol
  | ArpError_kUnexpectedAddressSizes

record Ipv4View =
  i4_header_bytes :: u8
  i4_total_length :: u16
  i4_protocol :: u8
  i4_source :: u32
  i4_destination :: u32

datatype Ipv4Error =
    Ipv4Error_kDatagramTooShort
  | Ipv4Error_kBadVersion
  | Ipv4Error_kBadHeaderWords
  | Ipv4Error_kBadTotalLength

record IcmpEchoView =
  ie_type :: u8
  ie_code :: u8
  ie_checksum :: u16
  ie_identifier :: u16
  ie_sequence :: u16

datatype IcmpEchoError = IcmpEchoError_kDatagramTooShort

record UdpView =
  ud_source_port :: u16
  ud_destination_port :: u16
  ud_length :: u16
  ud_checksum :: u16

datatype UdpError = UdpError_kDatagramTooShort | UdpError_kBadLength

record TcpView =
  tv_source_port :: u16
  tv_destination_port :: u16
  tv_sequence :: u32
  tv_acknowledgement :: u32
  tv_header_bytes :: u8
  tv_flags :: u8
  tv_window :: u16
  tv_checksum :: u16

datatype TcpError =
    TcpError_kSegmentTooShort
  | TcpError_kBadDataOffset
  | TcpError_kHeaderPastBytes

section \<open>Parsers\<close>

definition copy_mac :: "u8 list \<Rightarrow> MacAddress" where
  "copy_mac from = map (\<lambda>index. from ! index) [0..<kMacAddressBytes]"

definition ParseEthernetHeader :: "u8 list \<Rightarrow> EthernetError + EthernetView" where
  "ParseEthernetHeader frame =
     (if length frame < kEthernetHeaderBytes then Inl EthernetError_kFrameTooShort
      else Inr \<lparr>ev_destination = copy_mac frame, ev_source = copy_mac (drop kMacAddressBytes frame),
                ev_ethertype = ReadWord16Be frame (2 * kMacAddressBytes)\<rparr>)"

definition ParseArp :: "u8 list \<Rightarrow> ArpError + ArpView" where
  "ParseArp packet =
     (if length packet < kArpPacketBytes then Inl ArpError_kPacketTooShort
      else if ReadWord16Be packet 0 \<noteq> kArpHardwareEthernet then Inl ArpError_kUnexpectedHardware
      else if ReadWord16Be packet 2 \<noteq> kEtherTypeIpv4 then Inl ArpError_kUnexpectedProtocol
      else if packet ! 4 \<noteq> of_nat kMacAddressBytes \<or> packet ! 5 \<noteq> of_nat kIpv4AddressBytes
      then Inl ArpError_kUnexpectedAddressSizes
      else Inr \<lparr>av_sender_hardware = copy_mac (drop 8 packet), av_sender_protocol = ReadWord32Be packet 14,
                av_target_hardware = copy_mac (drop 18 packet), av_target_protocol = ReadWord32Be packet 24,
                av_operation = ReadWord16Be packet 6\<rparr>)"

definition ParseIpv4 :: "u8 list \<Rightarrow> Ipv4Error + Ipv4View" where
  "ParseIpv4 packet =
     (if length packet < kMinIpv4HeaderBytes then Inl Ipv4Error_kDatagramTooShort
      else if HighNibble (packet ! 0) \<noteq> kIpv4Version then Inl Ipv4Error_kBadVersion
      else let kHeaderWords = LowNibble (packet ! 0) in
        if unat kHeaderWords < kMinIpv4HeaderBytes div 4 then Inl Ipv4Error_kBadHeaderWords
        else let kHeaderBytes = kHeaderWords * 4 in
          if length packet < unat kHeaderBytes then Inl Ipv4Error_kDatagramTooShort
          else let kTotalLength = ReadWord16Be packet 2 in
            if unat kTotalLength < unat kHeaderBytes then Inl Ipv4Error_kBadTotalLength
            else Inr \<lparr>i4_header_bytes = kHeaderBytes, i4_total_length = kTotalLength,
                      i4_protocol = packet ! 9, i4_source = ReadWord32Be packet 12,
                      i4_destination = ReadWord32Be packet 16\<rparr>)"

definition ParseIcmpEcho :: "u8 list \<Rightarrow> IcmpEchoError + IcmpEchoView" where
  "ParseIcmpEcho datagram =
     (if length datagram < kIcmpEchoHeaderBytes then Inl IcmpEchoError_kDatagramTooShort
      else Inr \<lparr>ie_type = datagram ! 0, ie_code = datagram ! 1, ie_checksum = ReadWord16Be datagram 2,
                ie_identifier = ReadWord16Be datagram 4, ie_sequence = ReadWord16Be datagram 6\<rparr>)"

definition ParseUdp :: "u8 list \<Rightarrow> UdpError + UdpView" where
  "ParseUdp datagram =
     (if length datagram < kUdpHeaderBytes then Inl UdpError_kDatagramTooShort
      else Inr \<lparr>ud_source_port = ReadWord16Be datagram 0, ud_destination_port = ReadWord16Be datagram 2,
                ud_length = ReadWord16Be datagram 4, ud_checksum = ReadWord16Be datagram 6\<rparr>)"

definition ParseTcp :: "u8 list \<Rightarrow> TcpError + TcpView" where
  "ParseTcp segment =
     (if length segment < kTcpHeaderBytes then Inl TcpError_kSegmentTooShort
      else let kHeaderWords = HighNibble (segment ! 12) in
        if unat kHeaderWords < kTcpHeaderBytes div 4 then Inl TcpError_kBadDataOffset
        else let kHeaderBytes = kHeaderWords * 4 in
          if unat kHeaderBytes > length segment then Inl TcpError_kHeaderPastBytes
          else Inr \<lparr>tv_source_port = ReadWord16Be segment 0, tv_destination_port = ReadWord16Be segment 2,
                    tv_sequence = ReadWord32Be segment 4, tv_acknowledgement = ReadWord32Be segment 8,
                    tv_header_bytes = kHeaderBytes, tv_flags = segment ! 13,
                    tv_window = ReadWord16Be segment 14, tv_checksum = ReadWord16Be segment 16\<rparr>)"

section \<open>What a parsed header promises\<close>

lemma unat_times4: "unat (w :: u8) < 16 \<Longrightarrow> unat (w * 4) = unat w * 4"
  by (simp add: unat_word_ariths)

lemma ParseIpv4_bounds:
  assumes "ParseIpv4 packet = Inr view"
  shows "20 \<le> unat (i4_header_bytes view)" "unat (i4_header_bytes view) \<le> 60"
    "unat (i4_header_bytes view) \<le> length packet"
    "unat (i4_header_bytes view) \<le> unat (i4_total_length view)" "4 dvd unat (i4_header_bytes view)"
proof -
  let ?w = "LowNibble (packet ! 0)"
  have w: "unat ?w < 16" by (simp add: unat_LowNibble)
  from assms have g: "\<not> unat ?w < 5" "\<not> length packet < unat (?w * 4)"
      "\<not> unat (ReadWord16Be packet 2) < unat (?w * 4)" and
      v: "i4_header_bytes view = ?w * 4" "i4_total_length view = ReadWord16Be packet 2"
    by (auto simp: ParseIpv4_def Let_def split: if_splits)
  show "20 \<le> unat (i4_header_bytes view)" "unat (i4_header_bytes view) \<le> 60"
    "unat (i4_header_bytes view) \<le> length packet"
    "unat (i4_header_bytes view) \<le> unat (i4_total_length view)" "4 dvd unat (i4_header_bytes view)"
    using g w unfolding v unat_times4[OF w] by simp_all
qed

lemma ParseTcp_bounds:
  assumes "ParseTcp segment = Inr view"
  shows "20 \<le> unat (tv_header_bytes view)" "unat (tv_header_bytes view) \<le> 60"
    "unat (tv_header_bytes view) \<le> length segment"
proof -
  let ?w = "HighNibble (segment ! 12)"
  have w: "unat ?w < 16" using unat_u8_less[of "segment ! 12"] by (simp add: unat_HighNibble less_mult_imp_div_less)
  from assms have g: "\<not> unat ?w < 5" "\<not> unat (?w * 4) > length segment" and v: "tv_header_bytes view = ?w * 4"
    by (auto simp: ParseTcp_def Let_def split: if_splits)
  show "20 \<le> unat (tv_header_bytes view)" "unat (tv_header_bytes view) \<le> 60"
    "unat (tv_header_bytes view) \<le> length segment"
    using g w unfolding v unat_times4[OF w] by simp_all
qed

end
