(* ===== verification/Internet.thy ===== *)
theory Internet
  imports NetLayout Containers
begin

text \<open>
  The internet layer: the ARP cache (\<^verbatim>\<open>kernel/net/arp.cpp\<close>), the IPv4 module (\<^verbatim>\<open>ipv4.cpp\<close>), the
  ICMP echo module (\<^verbatim>\<open>icmp.cpp\<close>), the UDP module (\<^verbatim>\<open>udp.cpp\<close>) and the raw listeners
  (\<^verbatim>\<open>raw.cpp\<close>). Function pointers and their contexts are identities (natural numbers, None the null
  pointer); a call through one is an event in the result of the operation, in call order, and a
  datagram handed to a sink is the pair of the sink and the datagram. Statistics are 64-bit words.
\<close>

unbundle bit_operations_syntax

section \<open>Copying into a buffer\<close>

text \<open>The byte loops \<^verbatim>\<open>into[at + index] = from[index]\<close>.\<close>

fun copy_into :: "u8 list \<Rightarrow> nat \<Rightarrow> u8 list \<Rightarrow> u8 list" where
  "copy_into into at [] = into"
| "copy_into into at (b # from) = copy_into (into[at := b]) (at + 1) from"

lemma copy_into_length [write_simps]: "length (copy_into into at from) = length into"
  by (induction into at "from" rule: copy_into.induct) auto

lemma copy_into_alt:
  "at + length from \<le> length into \<Longrightarrow>
   copy_into into at from = take at into @ from @ drop (at + length from) into"
proof (induction into at "from" rule: copy_into.induct)
  case (2 into at b "from")
  then show ?case by (simp add: take_Suc_conv_app_nth upd_conv_take_nth_drop add.commute)
qed simp

lemma copy_into_nth [write_simps]:
  assumes "at + length from \<le> length into"
  shows "copy_into into at from ! i = (if at \<le> i \<and> i < at + length from then from ! (i - at) else into ! i)"
  using assms unfolding copy_into_alt[OF assms]
  by (auto simp: nth_append)

section \<open>The ARP cache\<close>

record ArpEntry =
  ae_protocol :: u32
  ae_hardware :: MacAddress
  ae_used :: bool

record ArpCache =
  ac_entries :: "ArpEntry list"
  ac_next :: nat

abbreviation (input) kArpCacheEntries :: nat where "kArpCacheEntries \<equiv> 4"

definition ArpEntry_empty :: ArpEntry where
  "ArpEntry_empty = \<lparr>ae_protocol = 0, ae_hardware = replicate kMacAddressBytes 0, ae_used = False\<rparr>"

definition ArpCache_init :: ArpCache where
  "ArpCache_init = \<lparr>ac_entries = replicate kArpCacheEntries ArpEntry_empty, ac_next = 0\<rparr>"

definition ArpCache_lookup :: "u32 \<Rightarrow> ArpCache \<Rightarrow> MacAddress option" where
  "ArpCache_lookup protocol_address c =
     map_option ae_hardware
       (find (\<lambda>entry. ae_used entry \<and> ae_protocol entry = protocol_address) (ac_entries c))"

definition ArpCache_observe :: "u8 list \<Rightarrow> ArpCache \<Rightarrow> bool \<times> ArpCache" where
  "ArpCache_observe packet c =
     (case ParseArp packet of Inl _ \<Rightarrow> (False, c)
      | Inr kView \<Rightarrow>
        (case find (\<lambda>i. ae_used (ac_entries c ! i) \<and> ae_protocol (ac_entries c ! i) = av_sender_protocol kView)
                [0..<length (ac_entries c)] of
           Some i \<Rightarrow> (True, c\<lparr>ac_entries := (ac_entries c)[i := (ac_entries c ! i)\<lparr>ae_hardware := av_sender_hardware kView\<rparr>]\<rparr>)
         | None \<Rightarrow>
             (True, c\<lparr>ac_entries := (ac_entries c)[ac_next c :=
                        \<lparr>ae_protocol = av_sender_protocol kView, ae_hardware = av_sender_hardware kView, ae_used = True\<rparr>],
                     ac_next := (ac_next c + 1) mod kArpCacheEntries\<rparr>)))"

text \<open>The caller's packet buffer is \<open>packet\<close>; all 28 bytes of it are written.\<close>

definition ArpCache_build_request :: "u8 list \<Rightarrow> MacAddress \<Rightarrow> u32 \<Rightarrow> u32 \<Rightarrow> u8 list" where
  "ArpCache_build_request packet sender_hardware sender_protocol target_protocol =
     (let p = packet[0 := 0x00, 1 := 0x01, 2 := 0x08, 3 := 0x00, 4 := of_nat kMacAddressBytes,
                     5 := of_nat kIpv4AddressBytes, 6 := 0x00, 7 := 1];
          p = fold (\<lambda>index p. p[8 + index := sender_hardware ! index, 18 + index := 0]) [0..<kMacAddressBytes] p;
          p = WriteWord32Be p 14 sender_protocol
      in WriteWord32Be p 24 target_protocol)"

section \<open>Datagrams and sinks\<close>

record OutboundDatagram =
  od_destination :: u32
  od_protocol :: u8
  od_payload :: "u8 list"

record DatagramSink =
  ds_context :: "nat option"
  ds_send :: "nat option"

type_synonym emission = "DatagramSink \<times> OutboundDatagram"

definition DatagramSink_assigned :: "DatagramSink \<Rightarrow> bool" where
  "DatagramSink_assigned s \<longleftrightarrow> ds_context s \<noteq> None \<and> ds_send s \<noteq> None"

definition SourceAddressFor :: "u32 \<Rightarrow> u32 \<Rightarrow> u32" where
  "SourceAddressFor own_address destination =
     (if destination AND 0xFF000000 = 0x7F000000 then 0x7F000001 else own_address)"

section \<open>The IPv4 module\<close>

record L4Seat =
  l4_ops :: "nat option"
  l4_self :: "nat option"

record Ipv4Stats =
  is_delivered :: u64
  is_refused_short :: u64
  is_refused_version :: u64
  is_refused_header_words :: u64
  is_refused_total_length :: u64
  is_refused_checksum :: u64
  is_unknown_protocol :: u64
  is_sent :: u64

record Ipv4Module =
  im_sink :: DatagramSink
  im_own_address :: u32
  im_protocols :: "(u8 \<times> L4Seat) list"
  im_protocol_count :: nat
  im_stats :: Ipv4Stats
  im_observer_context :: "nat option"
  im_observer :: "nat option"

datatype Ipv4Event =
    Ipv4_observed "nat option" nat "u8 list" Ipv4View
  | L4_called nat "nat option" "u8 list" Ipv4View

abbreviation (input) kMaxL4Seats :: nat where "kMaxL4Seats \<equiv> 4"

definition Ipv4Stats_zero :: Ipv4Stats where
  "Ipv4Stats_zero = \<lparr>is_delivered = 0, is_refused_short = 0, is_refused_version = 0, is_refused_header_words = 0,
     is_refused_total_length = 0, is_refused_checksum = 0, is_unknown_protocol = 0, is_sent = 0\<rparr>"

definition L4Seat_handle :: "L4Seat \<Rightarrow> u8 list \<Rightarrow> Ipv4View \<Rightarrow> Ipv4Event list" where
  "L4Seat_handle seat bytes header =
     (case l4_ops seat of None \<Rightarrow> [] | Some ops \<Rightarrow> [L4_called ops (l4_self seat) bytes header])"

definition Ipv4Module_init :: "DatagramSink \<Rightarrow> u32 \<Rightarrow> Ipv4Module \<Rightarrow> Ipv4Module" where
  "Ipv4Module_init sink own_address m =
     m\<lparr>im_sink := sink, im_own_address := own_address, im_stats := Ipv4Stats_zero, im_protocol_count := 0,
       im_observer := None, im_observer_context := None\<rparr>"

definition Ipv4Module_aim :: "DatagramSink \<Rightarrow> u32 \<Rightarrow> Ipv4Module \<Rightarrow> Ipv4Module" where
  "Ipv4Module_aim sink own_address m = m\<lparr>im_sink := sink, im_own_address := own_address\<rparr>"

definition Ipv4Module_seat_protocol :: "u8 \<Rightarrow> L4Seat \<Rightarrow> Ipv4Module \<Rightarrow> bool \<times> Ipv4Module" where
  "Ipv4Module_seat_protocol protocol seat m =
     (if im_protocol_count m = kMaxL4Seats then (False, m)
      else if \<exists>index<im_protocol_count m. fst (im_protocols m ! index) = protocol then (False, m)
      else (True, m\<lparr>im_protocols := (im_protocols m)[im_protocol_count m := (protocol, seat)],
                   im_protocol_count := im_protocol_count m + 1\<rparr>))"

definition Ipv4Stats_refuse :: "Ipv4Error \<Rightarrow> Ipv4Stats \<Rightarrow> Ipv4Stats" where
  "Ipv4Stats_refuse e s =
     (case e of Ipv4Error_kDatagramTooShort \<Rightarrow> s\<lparr>is_refused_short := is_refused_short s + 1\<rparr>
      | Ipv4Error_kBadVersion \<Rightarrow> s\<lparr>is_refused_version := is_refused_version s + 1\<rparr>
      | Ipv4Error_kBadHeaderWords \<Rightarrow> s\<lparr>is_refused_header_words := is_refused_header_words s + 1\<rparr>
      | Ipv4Error_kBadTotalLength \<Rightarrow> s\<lparr>is_refused_total_length := is_refused_total_length s + 1\<rparr>)"

definition checksum_value_of :: "u8 list list \<Rightarrow> u16" where
  "checksum_value_of spans = InternetChecksum_value (fold InternetChecksum_add spans InternetChecksum_init)"

definition Ipv4Module_handle :: "u8 list \<Rightarrow> Ipv4Module \<Rightarrow> Ipv4Event list \<times> Ipv4Module" where
  "Ipv4Module_handle bytes m =
     (case ParseIpv4 bytes of
        Inl e \<Rightarrow> ([], m\<lparr>im_stats := Ipv4Stats_refuse e (im_stats m)\<rparr>)
      | Inr kView \<Rightarrow>
          if checksum_value_of [take (unat (i4_header_bytes kView)) bytes] \<noteq> 0
          then ([], m\<lparr>im_stats := (im_stats m)\<lparr>is_refused_checksum := is_refused_checksum (im_stats m) + 1\<rparr>\<rparr>)
          else
            let kEffective = min (unat (i4_total_length kView)) (length bytes);
                kPayloadLength = kEffective - unat (i4_header_bytes kView);
                seen = (case im_observer m of None \<Rightarrow> []
                        | Some f \<Rightarrow> [Ipv4_observed (im_observer_context m) f (take kEffective bytes) kView])
            in case find (\<lambda>index. fst (im_protocols m ! index) = i4_protocol kView) [0..<im_protocol_count m] of
                 Some index \<Rightarrow>
                   (seen @ L4Seat_handle (snd (im_protocols m ! index))
                             (take kPayloadLength (drop (unat (i4_header_bytes kView)) bytes)) kView,
                    m\<lparr>im_stats := (im_stats m)\<lparr>is_delivered := is_delivered (im_stats m) + 1\<rparr>\<rparr>)
               | None \<Rightarrow> (seen, m\<lparr>im_stats := (im_stats m)\<lparr>is_unknown_protocol := is_unknown_protocol (im_stats m) + 1\<rparr>\<rparr>))"

text \<open>The datagram before its header checksum is filled in, and after.\<close>

definition ipv4_unsealed :: "u32 \<Rightarrow> OutboundDatagram \<Rightarrow> u8 list" where
  "ipv4_unsealed own_address datagram =
     (let kTotal = kMinIpv4HeaderBytes + length (od_payload datagram);
          o1 = (replicate kMaxDatagramBytes 0)[0 := ucast (push_bit 4 (ucast kIpv4Version :: u32) OR of_nat (kMinIpv4HeaderBytes div 4)), 1 := 0];
          o2 = WriteWord16Be o1 2 (of_nat kTotal);
          o3 = WriteWord16Be (WriteWord16Be o2 4 0) 6 0;
          o4 = WriteWord16Be (o3[8 := 64, 9 := od_protocol datagram]) 10 0;
          o5 = WriteWord32Be o4 12 (SourceAddressFor own_address (od_destination datagram));
          o6 = WriteWord32Be o5 16 (od_destination datagram)
      in copy_into o6 kMinIpv4HeaderBytes (od_payload datagram))"

definition ipv4_outgoing :: "u32 \<Rightarrow> OutboundDatagram \<Rightarrow> u8 list" where
  "ipv4_outgoing own_address datagram =
     (let outgoing = ipv4_unsealed own_address datagram
      in WriteWord16Be outgoing 10 (checksum_value_of [take kMinIpv4HeaderBytes outgoing]))"

definition Ipv4Module_send :: "OutboundDatagram \<Rightarrow> Ipv4Module \<Rightarrow> bool \<times> emission list \<times> Ipv4Module" where
  "Ipv4Module_send datagram m =
     (if \<not> DatagramSink_assigned (im_sink m) \<or> length (od_payload datagram) > kMaxDatagramBytes - kMinIpv4HeaderBytes
      then (False, [], m)
      else let kTotal = kMinIpv4HeaderBytes + length (od_payload datagram) in
        (True,
         [(im_sink m, \<lparr>od_destination = od_destination datagram, od_protocol = od_protocol datagram,
                       od_payload = take kTotal (ipv4_outgoing (im_own_address m) datagram)\<rparr>)],
         m\<lparr>im_stats := (im_stats m)\<lparr>is_sent := is_sent (im_stats m) + 1\<rparr>\<rparr>))"

definition Ipv4Module_observe :: "nat option \<Rightarrow> nat option \<Rightarrow> Ipv4Module \<Rightarrow> Ipv4Module" where
  "Ipv4Module_observe context receive m = m\<lparr>im_observer_context := context, im_observer := receive\<rparr>"


section \<open>The ICMP echo module\<close>

record IcmpStats =
  cs_requests_answered :: u64
  cs_replies_seen :: u64
  cs_last_identifier :: u16
  cs_last_sequence :: u16
  cs_refused_short :: u64
  cs_refused_checksum :: u64
  cs_refused_oversized :: u64

record IcmpModule =
  cm_reply_sink :: DatagramSink
  cm_stats :: IcmpStats
  cm_reply :: "u8 list"

abbreviation (input) kMaxIcmpEchoBytes :: nat where "kMaxIcmpEchoBytes \<equiv> kMaxDatagramBytes - kMinIpv4HeaderBytes"
abbreviation (input) kIcmpEchoRequest :: u8 where "kIcmpEchoRequest \<equiv> 8"
abbreviation (input) kIcmpEchoReply :: u8 where "kIcmpEchoReply \<equiv> 0"

definition IcmpStats_zero :: IcmpStats where
  "IcmpStats_zero = \<lparr>cs_requests_answered = 0, cs_replies_seen = 0, cs_last_identifier = 0, cs_last_sequence = 0,
     cs_refused_short = 0, cs_refused_checksum = 0, cs_refused_oversized = 0\<rparr>"

definition IcmpModule_init :: "DatagramSink \<Rightarrow> IcmpModule \<Rightarrow> IcmpModule" where
  "IcmpModule_init reply_sink m = m\<lparr>cm_reply_sink := reply_sink, cm_stats := IcmpStats_zero\<rparr>"

text \<open>The echo message both directions share, before its checksum is filled in.\<close>

definition icmp_unsealed :: "u8 \<Rightarrow> u8 list \<Rightarrow> u16 \<Rightarrow> u16 \<Rightarrow> u8 list \<Rightarrow> u8 list" where
  "icmp_unsealed type buffer identifier sequence rest =
     (let m1 = WriteWord16Be (buffer[0 := type, 1 := 0]) 2 0;
          m2 = WriteWord16Be (WriteWord16Be m1 4 identifier) 6 sequence
      in copy_into m2 kIcmpEchoHeaderBytes rest)"

definition icmp_reply_bytes :: "u8 list \<Rightarrow> u8 list \<Rightarrow> IcmpEchoView \<Rightarrow> u8 list" where
  "icmp_reply_bytes reply bytes kView =
     (let r = icmp_unsealed kIcmpEchoReply reply (ie_identifier kView) (ie_sequence kView)
                (drop kIcmpEchoHeaderBytes bytes)
      in WriteWord16Be r 2 (checksum_value_of [take (length bytes) r]))"

definition IcmpModule_handle :: "u8 list \<Rightarrow> Ipv4View \<Rightarrow> IcmpModule \<Rightarrow> emission list \<times> IcmpModule" where
  "IcmpModule_handle bytes header m =
     (let s = cm_stats m in
      case ParseIcmpEcho bytes of
        Inl _ \<Rightarrow> ([], m\<lparr>cm_stats := s\<lparr>cs_refused_short := cs_refused_short s + 1\<rparr>\<rparr>)
      | Inr kView \<Rightarrow>
          if length bytes > kMaxIcmpEchoBytes
          then ([], m\<lparr>cm_stats := s\<lparr>cs_refused_oversized := cs_refused_oversized s + 1\<rparr>\<rparr>)
          else if checksum_value_of [bytes] \<noteq> 0
          then ([], m\<lparr>cm_stats := s\<lparr>cs_refused_checksum := cs_refused_checksum s + 1\<rparr>\<rparr>)
          else if ie_type kView = kIcmpEchoRequest then
            let reply = icmp_reply_bytes (cm_reply m) bytes kView;
                sent = (if DatagramSink_assigned (cm_reply_sink m)
                        then [(cm_reply_sink m, \<lparr>od_destination = i4_source header, od_protocol = kIpv4ProtocolIcmp,
                                                od_payload = take (length bytes) reply\<rparr>)] else [])
            in (sent, m\<lparr>cm_reply := reply,
                        cm_stats := s\<lparr>cs_requests_answered := cs_requests_answered s + 1\<rparr>\<rparr>)
          else if ie_type kView = kIcmpEchoReply then
            ([], m\<lparr>cm_stats := s\<lparr>cs_replies_seen := cs_replies_seen s + 1,
                                  cs_last_identifier := ie_identifier kView,
                                  cs_last_sequence := ie_sequence kView\<rparr>\<rparr>)
          else ([], m))"

text \<open>The caller's buffer is \<open>message\<close>; its length is the length argument.\<close>

definition BuildEchoRequest :: "u8 list \<Rightarrow> u16 \<Rightarrow> u16 \<Rightarrow> u8 list" where
  "BuildEchoRequest message identifier sequence =
     (let m = icmp_unsealed kIcmpEchoRequest message identifier sequence
                (map of_nat [kIcmpEchoHeaderBytes..<length message])
      in WriteWord16Be m 2 (checksum_value_of [m]))"

section \<open>The UDP module\<close>

record UdpDelivery =
  dl_sender :: u32
  dl_sender_port :: u16
  dl_bytes :: "u8 list"

record UdpStats =
  us_delivered :: u64
  us_refused_short :: u64
  us_refused_length :: u64
  us_refused_checksum :: u64
  us_unclaimed :: u64
  us_sent :: u64

record PortSeat =
  ps_port :: u16
  ps_context :: "nat option"
  ps_deliver :: "nat option"

record UdpModule =
  um_sink :: DatagramSink
  um_own_address :: u32
  um_ports :: "PortSeat list"
  um_port_count :: nat
  um_ephemeral_cursor :: u64
  um_stats :: UdpStats

abbreviation (input) kUdpPortSeats :: nat where "kUdpPortSeats \<equiv> 8"
abbreviation (input) kEphemeralPortFirst :: nat where "kEphemeralPortFirst \<equiv> 32768"
abbreviation (input) kEphemeralPortLast :: nat where "kEphemeralPortLast \<equiv> 60999"

definition UdpStats_zero :: UdpStats where
  "UdpStats_zero = \<lparr>us_delivered = 0, us_refused_short = 0, us_refused_length = 0, us_refused_checksum = 0,
     us_unclaimed = 0, us_sent = 0\<rparr>"

definition PortSeat_empty :: PortSeat where
  "PortSeat_empty = \<lparr>ps_port = 0, ps_context = None, ps_deliver = None\<rparr>"

definition UdpModule_new :: UdpModule where
  "UdpModule_new = \<lparr>um_sink = \<lparr>ds_context = None, ds_send = None\<rparr>, um_own_address = 0,
     um_ports = replicate kUdpPortSeats PortSeat_empty, um_port_count = 0,
     um_ephemeral_cursor = of_nat kEphemeralPortFirst, um_stats = UdpStats_zero\<rparr>"

definition udp_pseudo_header :: "u32 \<Rightarrow> u32 \<Rightarrow> u16 \<Rightarrow> u8 list" where
  "udp_pseudo_header source destination datagram_bytes =
     (let p1 = WriteWord32Be (WriteWord32Be (replicate 12 0) 0 source) 4 destination
      in WriteWord16Be (p1[8 := 0, 9 := kIpv4ProtocolUdp]) 10 datagram_bytes)"

definition UdpModule_init :: "DatagramSink \<Rightarrow> u32 \<Rightarrow> UdpModule \<Rightarrow> UdpModule" where
  "UdpModule_init sink own_address m =
     m\<lparr>um_sink := sink, um_own_address := own_address, um_stats := UdpStats_zero\<rparr>"

definition UdpModule_aim :: "DatagramSink \<Rightarrow> u32 \<Rightarrow> UdpModule \<Rightarrow> UdpModule" where
  "UdpModule_aim sink own_address m = m\<lparr>um_sink := sink, um_own_address := own_address\<rparr>"

definition UdpModule_handle ::
    "u8 list \<Rightarrow> Ipv4View \<Rightarrow> UdpModule \<Rightarrow> (PortSeat \<times> UdpDelivery) list \<times> UdpModule" where
  "UdpModule_handle bytes header m =
     (let s = um_stats m in
      case ParseUdp bytes of
        Inl e \<Rightarrow> ([], m\<lparr>um_stats := (if e = UdpError_kDatagramTooShort
                                     then s\<lparr>us_refused_short := us_refused_short s + 1\<rparr>
                                     else s\<lparr>us_refused_length := us_refused_length s + 1\<rparr>)\<rparr>)
      | Inr kView \<Rightarrow>
          if unat (ud_length kView) < kUdpHeaderBytes \<or> unat (ud_length kView) > length bytes
          then ([], m\<lparr>um_stats := s\<lparr>us_refused_length := us_refused_length s + 1\<rparr>\<rparr>)
          else if ud_checksum kView \<noteq> 0 \<and>
                  checksum_value_of [udp_pseudo_header (i4_source header) (i4_destination header) (ud_length kView),
                                     take (unat (ud_length kView)) bytes] \<noteq> 0
          then ([], m\<lparr>um_stats := s\<lparr>us_refused_checksum := us_refused_checksum s + 1\<rparr>\<rparr>)
          else
            (case find (\<lambda>index. ps_port (um_ports m ! index) = ud_destination_port kView) [0..<um_port_count m] of
               Some index \<Rightarrow>
                 ([(um_ports m ! index,
                    \<lparr>dl_sender = i4_source header, dl_sender_port = ud_source_port kView,
                     dl_bytes = take (unat (ud_length kView) - kUdpHeaderBytes) (drop kUdpHeaderBytes bytes)\<rparr>)],
                  m\<lparr>um_stats := s\<lparr>us_delivered := us_delivered s + 1\<rparr>\<rparr>)
             | None \<Rightarrow> ([], m\<lparr>um_stats := s\<lparr>us_unclaimed := us_unclaimed s + 1\<rparr>\<rparr>)))"

definition udp_unsealed :: "u16 \<Rightarrow> u16 \<Rightarrow> u8 list \<Rightarrow> u8 list" where
  "udp_unsealed source_port destination_port payload =
     (let kDatagramBytes = (of_nat (kUdpHeaderBytes + length payload) :: u16);
          o1 = WriteWord16Be (WriteWord16Be (replicate kMaxDatagramBytes 0) 0 source_port) 2 destination_port;
          o2 = WriteWord16Be (WriteWord16Be o1 4 kDatagramBytes) 6 0
      in copy_into o2 kUdpHeaderBytes payload)"

definition udp_outgoing :: "u32 \<Rightarrow> u32 \<Rightarrow> u16 \<Rightarrow> u16 \<Rightarrow> u8 list \<Rightarrow> u8 list" where
  "udp_outgoing own_address destination source_port destination_port payload =
     (let kDatagramBytes = (of_nat (kUdpHeaderBytes + length payload) :: u16);
          outgoing = udp_unsealed source_port destination_port payload;
          checksum = checksum_value_of
            [udp_pseudo_header (SourceAddressFor own_address destination) destination kDatagramBytes,
             take (unat kDatagramBytes) outgoing]
      in WriteWord16Be outgoing 6 (if checksum = 0 then 0xFFFF else checksum))"

definition UdpModule_send ::
    "u32 \<Rightarrow> u16 \<Rightarrow> u16 \<Rightarrow> u8 list \<Rightarrow> UdpModule \<Rightarrow> bool \<times> emission list \<times> UdpModule" where
  "UdpModule_send destination source_port destination_port payload m =
     (if length payload > kMaxDatagramBytes - kMinIpv4HeaderBytes - kUdpHeaderBytes then (False, [], m)
      else if \<not> DatagramSink_assigned (um_sink m) then (False, [], m)
      else (True,
        [(um_sink m, \<lparr>od_destination = destination, od_protocol = kIpv4ProtocolUdp,
                      od_payload = take (unat (of_nat (kUdpHeaderBytes + length payload) :: u16))
                        (udp_outgoing (um_own_address m) destination source_port destination_port payload)\<rparr>)],
        m\<lparr>um_stats := (um_stats m)\<lparr>us_sent := us_sent (um_stats m) + 1\<rparr>\<rparr>))"

definition UdpModule_bind :: "u16 \<Rightarrow> nat option \<Rightarrow> nat option \<Rightarrow> UdpModule \<Rightarrow> bool \<times> UdpModule" where
  "UdpModule_bind port context deliver m =
     (if deliver = None then (False, m)
      else if um_port_count m = kUdpPortSeats then (False, m)
      else if \<exists>index<um_port_count m. ps_port (um_ports m ! index) = port then (False, m)
      else (True, m\<lparr>um_ports := (um_ports m)[um_port_count m := \<lparr>ps_port = port, ps_context = context, ps_deliver = deliver\<rparr>],
                   um_port_count := um_port_count m + 1\<rparr>))"

definition UdpModule_unbind :: "u16 \<Rightarrow> UdpModule \<Rightarrow> bool \<times> UdpModule" where
  "UdpModule_unbind port m =
     (case find (\<lambda>index. ps_port (um_ports m ! index) = port) [0..<um_port_count m] of
        None \<Rightarrow> (False, m)
      | Some index \<Rightarrow> (True, m\<lparr>um_ports := (um_ports m)[index := um_ports m ! (um_port_count m - 1)],
                               um_port_count := um_port_count m - 1\<rparr>))"

definition ephemeral_candidate :: "u64 \<Rightarrow> nat \<Rightarrow> u16" where
  "ephemeral_candidate cursor scan =
     ucast (of_nat kEphemeralPortFirst + (cursor - of_nat kEphemeralPortFirst + of_nat scan) mod
              of_nat (kEphemeralPortLast - kEphemeralPortFirst + 1))"

definition UdpModule_ephemeral_port :: "UdpModule \<Rightarrow> u16" where
  "UdpModule_ephemeral_port m =
     (case find (\<lambda>scan. \<not> (\<exists>index<um_port_count m. ps_port (um_ports m ! index) = ephemeral_candidate (um_ephemeral_cursor m) scan))
             [0..<kEphemeralPortLast - kEphemeralPortFirst + 1] of
        Some scan \<Rightarrow> ephemeral_candidate (um_ephemeral_cursor m) scan
      | None \<Rightarrow> 0)"

section \<open>Raw listeners\<close>

type_synonym RawModule = "(nat option \<times> nat option) list"

definition RawModule_new :: RawModule where
  "RawModule_new = replicate 16 (None, None)"

definition RawModule_bind :: "nat option \<Rightarrow> nat option \<Rightarrow> RawModule \<Rightarrow> bool \<times> RawModule" where
  "RawModule_bind context receive m =
     (case find (\<lambda>i. fst (m ! i) = None) [0..<length m] of
        Some i \<Rightarrow> (True, m[i := (context, receive)])
      | None \<Rightarrow> (False, m))"

definition RawModule_unbind :: "nat option \<Rightarrow> RawModule \<Rightarrow> RawModule" where
  "RawModule_unbind context m = map (\<lambda>listener. if fst listener = context then (None, None) else listener) m"

definition RawModule_handle :: "u8 list \<Rightarrow> Ipv4View \<Rightarrow> RawModule \<Rightarrow> (nat option \<times> nat option \<times> u8 list \<times> Ipv4View) list" where
  "RawModule_handle bytes header m =
     (if i4_protocol header \<noteq> kIpv4ProtocolIcmp \<or> length bytes > kMaxDatagramBytes then []
      else map (\<lambda>listener. (fst listener, snd listener, bytes, header)) (filter (\<lambda>listener. fst listener \<noteq> None) m))"

definition RawModule_send :: "u32 \<Rightarrow> u8 list \<Rightarrow> Ipv4Module \<Rightarrow> bool \<times> emission list \<times> Ipv4Module" where
  "RawModule_send destination bytes ipv4 =
     Ipv4Module_send \<lparr>od_destination = destination, od_protocol = kIpv4ProtocolIcmp, od_payload = bytes\<rparr> ipv4"

end
