(* ===== verification/Internet_Delivery.thy ===== *)
theory Internet_Delivery
  imports Internet_Facts
begin

text \<open>
  Delivery across the internet layer: what \<^verbatim>\<open>Ipv4Module::handle\<close> does with a datagram
  \<^verbatim>\<open>Ipv4Module::send\<close> built, the UDP path from one module's \<^verbatim>\<open>send\<close> to another's listener, the
  echo exchange, the ARP cache, and the port table.
\<close>

unbundle bit_operations_syntax

section \<open>IPv4 delivery\<close>

lemma l4_seat_found:
  assumes "l4_table_ok m" "(protocol, seat) \<in> set (l4_seats m)"
  obtains index where "find (\<lambda>index. fst (im_protocols m ! index) = protocol) [0..<im_protocol_count m] = Some index"
    "im_protocols m ! index = (protocol, seat)"
proof -
  have "find (\<lambda>p. fst p = protocol) (l4_seats m) = Some (protocol, seat)"
    using assms by (intro find_key_distinct) (auto simp: l4_table_ok_def l4_seats_def)
  then show thesis
    using assms(1) find_upt_take[of "im_protocol_count m" "im_protocols m" "\<lambda>p. fst p = protocol"] that
    by (auto simp: l4_seats_def l4_table_ok_def split: option.splits)
qed

definition ipv4_seen :: "Ipv4Module \<Rightarrow> u8 list \<Rightarrow> Ipv4View \<Rightarrow> Ipv4Event list" where
  "ipv4_seen m bytes view = (case im_observer m of None \<Rightarrow> [] | Some f \<Rightarrow> [Ipv4_observed (im_observer_context m) f bytes view])"

lemma Ipv4Module_handle_wire:
  assumes "fits_ipv4 d" "l4_table_ok m" "(od_protocol d, seat) \<in> set (l4_seats m)"
  shows "Ipv4Module_handle (ipv4_wire own d) m =
    (ipv4_seen m (ipv4_wire own d) (ipv4_view_of own d) @ L4Seat_handle seat (od_payload d) (ipv4_view_of own d),
     m\<lparr>im_stats := (im_stats m)\<lparr>is_delivered := is_delivered (im_stats m) + 1\<rparr>\<rparr>)"
proof -
  obtain index where ix: "find (\<lambda>index. fst (im_protocols m ! index) = od_protocol d) [0..<im_protocol_count m] = Some index"
      "im_protocols m ! index = (od_protocol d, seat)"
    using l4_seat_found[OF assms(2,3)] by blast
  have v: "i4_header_bytes (ipv4_view_of own d) = 20" "i4_protocol (ipv4_view_of own d) = od_protocol d"
      "unat (i4_total_length (ipv4_view_of own d)) = 20 + length (od_payload d)"
    using unat_total[OF assms(1)] by (simp_all add: ipv4_view_of_def)
  have t: "take (20 + length (od_payload d)) (ipv4_wire own d) = ipv4_wire own d"
    using ipv4_wire_length[OF assms(1), of own] by simp
  show ?thesis unfolding Ipv4Module_handle_def
    by (simp add: ParseIpv4_wire[OF assms(1)] v ipv4_wire_checksum[OF assms(1)] ipv4_wire_length[OF assms(1)] ix
        ipv4_wire_payload[OF assms(1)] t ipv4_seen_def Let_def split: option.split)
qed

section \<open>The UDP path\<close>

abbreviation (input) fits_udp :: "u8 list \<Rightarrow> bool" where
  "fits_udp payload \<equiv> length payload \<le> 1472"

definition udp_wire :: "u32 \<Rightarrow> u32 \<Rightarrow> u16 \<Rightarrow> u16 \<Rightarrow> u8 list \<Rightarrow> u8 list" where
  "udp_wire own destination source_port destination_port payload =
     take (8 + length payload) (udp_outgoing own destination source_port destination_port payload)"

lemma udp_unsealed_length: "length (udp_unsealed sp dp payload) = 1500"
  by (simp add: udp_unsealed_def Let_def write_simps)

lemma udp_outgoing_length: "length (udp_outgoing own dst sp dp payload) = 1500"
  by (simp add: udp_outgoing_def Let_def write_simps udp_unsealed_length)

lemma udp_unsealed_nth:
  assumes "fits_udp payload"
  shows "udp_unsealed sp dp payload ! 6 = 0" "udp_unsealed sp dp payload ! 7 = 0"
    "ReadWord16Be (udp_unsealed sp dp payload) 0 = sp" "ReadWord16Be (udp_unsealed sp dp payload) 2 = dp"
    "ReadWord16Be (udp_unsealed sp dp payload) 4 = of_nat (8 + length payload)"
  using assms
  by (simp_all add: udp_unsealed_def Let_def write_simps)
    (rule read16be_bytes; simp add: write_simps)+

lemma udp_unsealed_payload: "fits_udp payload \<Longrightarrow> take (length payload) (drop 8 (udp_unsealed sp dp payload)) = payload"
  unfolding udp_unsealed_def Let_def by (subst copy_into_alt) (simp_all add: write_simps)

lemma unat_udp_bytes: "fits_udp payload \<Longrightarrow> unat (of_nat (8 + length payload) :: u16) = 8 + length payload"
  by (simp only: unat_of_nat take_bit_eq_mod) simp

lemma udp_wire_length: "fits_udp payload \<Longrightarrow> length (udp_wire own dst sp dp payload) = 8 + length payload"
  by (simp add: udp_wire_def udp_outgoing_length)

lemma udp_wire_payload:
  assumes "fits_udp payload"
  shows "drop 8 (udp_wire own dst sp dp payload) = payload"
  using udp_unsealed_payload[OF assms, of sp dp]
  by (simp add: udp_wire_def drop_take udp_outgoing_def Let_def drop_write16be)

lemma udp_pseudo_length: "length (udp_pseudo_header s d n) = 12"
  by (simp add: udp_pseudo_header_def Let_def write_simps)

text \<open>The checksum word as sent: zero is sent as all ones, which sums to the same.\<close>

lemma udp_wire_seals:
  fixes own dst :: u32 and payload :: "u8 list"
  assumes "fits_udp payload"
  defines "h \<equiv> udp_pseudo_header (SourceAddressFor own dst) dst (of_nat (8 + length payload))"
  obtains v where "v \<noteq> 0" "udp_wire own dst sp dp payload = WriteWord16Be (take (8 + length payload) (udp_unsealed sp dp payload)) 6 v"
    "checksum_value_of [h, udp_wire own dst sp dp payload] = 0"
proof -
  define b where "b = take (8 + length payload) (udp_unsealed sp dp payload)"
  define c where "c = checksum_value_of [h, b]"
  have len: "length b = 8 + length payload" "length h = 12"
    using assms by (simp_all add: b_def h_def udp_unsealed_length udp_pseudo_length)
  have z: "b ! 6 = 0" "b ! 7 = 0" using udp_unsealed_nth(1,2)[OF assms(1)] by (simp_all add: b_def)
  have wire: "udp_wire own dst sp dp payload = WriteWord16Be b 6 (if c = 0 then 0xFFFF else c)"
    unfolding udp_wire_def udp_outgoing_def Let_def unat_udp_bytes[OF assms(1)]
    by (simp add: take_write16be b_def c_def h_def)
  have "checksum_value_of [h, udp_wire own dst sp dp payload] = 0" unfolding wire c_def
    by (rule checksum_sealed_ones) (use len z assms(1) in auto)
  then show thesis using that[OF _ wire[unfolded b_def]] by auto
qed


definition udp_seats :: "UdpModule \<Rightarrow> PortSeat list" where
  "udp_seats m = take (um_port_count m) (um_ports m)"

definition udp_table_ok :: "UdpModule \<Rightarrow> bool" where
  "udp_table_ok m \<longleftrightarrow> length (um_ports m) = 8 \<and> um_port_count m \<le> 8 \<and> distinct (map ps_port (udp_seats m))"

lemma udp_seat_found:
  assumes "udp_table_ok m" "seat \<in> set (udp_seats m)"
  obtains index where "find (\<lambda>index. ps_port (um_ports m ! index) = ps_port seat) [0..<um_port_count m] = Some index"
    "um_ports m ! index = seat"
proof -
  have "find (\<lambda>p. ps_port p = ps_port seat) (udp_seats m) = Some seat"
    using assms by (intro find_key_distinct) (auto simp: udp_table_ok_def)
  then show thesis
    using assms(1) find_upt_take[of "um_port_count m" "um_ports m" "\<lambda>p. ps_port p = ps_port seat"] that
    by (auto simp: udp_seats_def udp_table_ok_def split: option.splits)
qed

lemma ParseUdp_wire:
  assumes "fits_udp payload"
  obtains v where "v \<noteq> 0" "ParseUdp (udp_wire own dst sp dp payload) =
    Inr \<lparr>ud_source_port = sp, ud_destination_port = dp, ud_length = of_nat (8 + length payload), ud_checksum = v\<rparr>"
proof -
  obtain v where v: "v \<noteq> 0" "udp_wire own dst sp dp payload = WriteWord16Be (take (8 + length payload) (udp_unsealed sp dp payload)) 6 v"
    using udp_wire_seals[OF assms] by metis
  have len: "length (take (8 + length payload) (udp_unsealed sp dp payload)) = 8 + length payload"
    using assms by (simp add: udp_unsealed_length)
  show thesis
    by (rule that[OF v(1)])
      (simp add: v(2) ParseUdp_def write_simps len read_write16be read16be_write_other read16be_take udp_unsealed_nth[OF assms] del: length_take)
qed

lemma UdpModule_handle_wire:
  assumes "fits_udp payload" "udp_table_ok m" "seat \<in> set (udp_seats m)" "ps_port seat = dp"
    and "i4_source header = SourceAddressFor own dst" "i4_destination header = dst"
  shows "UdpModule_handle (udp_wire own dst sp dp payload) header m =
    ([(seat, \<lparr>dl_sender = SourceAddressFor own dst, dl_sender_port = sp, dl_bytes = payload\<rparr>)],
     m\<lparr>um_stats := (um_stats m)\<lparr>us_delivered := us_delivered (um_stats m) + 1\<rparr>\<rparr>)"
proof -
  let ?w = "udp_wire own dst sp dp payload"
  obtain v where v: "v \<noteq> 0" "ParseUdp ?w =
      Inr \<lparr>ud_source_port = sp, ud_destination_port = dp, ud_length = of_nat (8 + length payload), ud_checksum = v\<rparr>"
    using ParseUdp_wire[OF assms(1)] by metis
  obtain index where ix: "find (\<lambda>index. ps_port (um_ports m ! index) = dp) [0..<um_port_count m] = Some index"
      "um_ports m ! index = seat"
    using udp_seat_found[OF assms(2,3)] assms(4) by metis
  have sum0: "checksum_value_of [udp_pseudo_header (SourceAddressFor own dst) dst (of_nat (8 + length payload)), ?w] = 0"
    using udp_wire_seals[OF assms(1)] by metis
  have t: "take (8 + length payload) ?w = ?w" using udp_wire_length[OF assms(1), of own dst sp dp] by simp
  show ?thesis unfolding UdpModule_handle_def Let_def v(2)
    by (simp add: unat_udp_bytes[OF assms(1)] udp_wire_length[OF assms(1)] assms(5,6) t sum0 ix
        udp_wire_payload[OF assms(1)] del: of_nat_add)
qed

lemma UdpModule_send_cases:
  obtains "UdpModule_send dst sp dp payload m = (False, [], m)"
    "\<not> (DatagramSink_assigned (um_sink m) \<and> fits_udp payload)"
  | "DatagramSink_assigned (um_sink m)" "fits_udp payload"
    "UdpModule_send dst sp dp payload m =
       (True, [(um_sink m, \<lparr>od_destination = dst, od_protocol = 17,
                            od_payload = udp_wire (um_own_address m) dst sp dp payload\<rparr>)],
        m\<lparr>um_stats := (um_stats m)\<lparr>us_sent := us_sent (um_stats m) + 1\<rparr>\<rparr>)"
proof (cases "DatagramSink_assigned (um_sink m) \<and> fits_udp payload")
  case True
  then show thesis using that(2) unat_udp_bytes[of payload]
    by (simp add: UdpModule_send_def udp_wire_def)
next
  case False
  then show thesis using that(1) by (cases "fits_udp payload") (auto simp: UdpModule_send_def)
qed

text \<open>
  C14. End to end through two layers and back: when a UDP module and the IPv4 module under it accept
  a payload, the bytes they put on the wire, given to a receiving IPv4 module in which UDP is seated
  and a UDP module with the destination port bound, pass every length and checksum test and reach
  the listener of that port with the sender's address and port and exactly the payload.
\<close>

theorem udp_datagram_reaches_listener:
  assumes "UdpModule_send dst sp (ps_port listener) payload a = (True, [(sink, datagram)], a')"
    and "Ipv4Module_send datagram ip = (True, [(wire, frame)], ip')"
    and "im_own_address ip = um_own_address a"
    and "l4_table_ok r" "(17, \<lparr>l4_ops = Some udp, l4_self = self\<rparr>) \<in> set (l4_seats r)"
    and "udp_table_ok b" "listener \<in> set (udp_seats b)"
  shows "\<exists>seen bytes view r' b'. Ipv4Module_handle (od_payload frame) r = (seen @ [L4_called udp self bytes view], r') \<and>
    UdpModule_handle bytes view b =
      ([(listener, \<lparr>dl_sender = SourceAddressFor (um_own_address a) dst, dl_sender_port = sp, dl_bytes = payload\<rparr>)], b')"
proof -
  from assms(1) have d: "fits_udp payload" "datagram = \<lparr>od_destination = dst, od_protocol = 17,
      od_payload = udp_wire (um_own_address a) dst sp (ps_port listener) payload\<rparr>"
    by (cases rule: UdpModule_send_cases[of dst sp "ps_port listener" payload a]; simp)+
  have fits: "fits_ipv4 datagram" using d by (simp add: udp_wire_length)
  from assms(2) have frame: "od_payload frame = ipv4_wire (um_own_address a) datagram"
    using assms(3) by (cases rule: Ipv4Module_send_cases[of datagram ip]) auto
  let ?view = "ipv4_view_of (um_own_address a) datagram"
  have view: "i4_source ?view = SourceAddressFor (um_own_address a) dst" "i4_destination ?view = dst"
    by (simp_all add: ipv4_view_of_def d(2))
  show ?thesis unfolding frame
    using Ipv4Module_handle_wire[OF fits assms(4), of "\<lparr>l4_ops = Some udp, l4_self = self\<rparr>" "um_own_address a"] assms(5)
      UdpModule_handle_wire[OF d(1) assms(6,7) refl view] d(2)
    by (fastforce simp: L4Seat_handle_def)
qed


definition sample_sink :: DatagramSink where
  "sample_sink = \<lparr>ds_context = Some 1, ds_send = Some 2\<rparr>"

definition sample_listener :: PortSeat where
  "sample_listener = \<lparr>ps_port = 53, ps_context = Some 7, ps_deliver = Some 8\<rparr>"

definition sample_udp :: UdpModule where
  "sample_udp = \<lparr>um_sink = sample_sink, um_own_address = 0x0A00020F,
     um_ports = [sample_listener, PortSeat_empty, PortSeat_empty, PortSeat_empty, PortSeat_empty, PortSeat_empty,
                 PortSeat_empty, PortSeat_empty],
     um_port_count = 1, um_ephemeral_cursor = 32768, um_stats = UdpStats_zero\<rparr>"

definition sample_ipv4 :: Ipv4Module where
  "sample_ipv4 = (let none = (0, \<lparr>l4_ops = None, l4_self = None\<rparr>) in
     \<lparr>im_sink = sample_sink, im_own_address = 0x0A00020F,
      im_protocols = [(17, \<lparr>l4_ops = Some 5, l4_self = Some 6\<rparr>), none, none, none], im_protocol_count = 1,
      im_stats = Ipv4Stats_zero, im_observer_context = None, im_observer = None\<rparr>)"

lemma sample_udp_ok: "udp_table_ok sample_udp" "sample_listener \<in> set (udp_seats sample_udp)"
    "um_own_address sample_udp = 0x0A00020F" "DatagramSink_assigned (um_sink sample_udp)"
  by (simp_all add: sample_udp_def udp_table_ok_def udp_seats_def sample_listener_def sample_sink_def
      DatagramSink_assigned_def)

lemma sample_ipv4_ok: "l4_table_ok sample_ipv4" "(17, \<lparr>l4_ops = Some 5, l4_self = Some 6\<rparr>) \<in> set (l4_seats sample_ipv4)"
    "im_own_address sample_ipv4 = 0x0A00020F" "DatagramSink_assigned (im_sink sample_ipv4)"
  by (simp_all add: sample_ipv4_def Let_def l4_table_ok_def l4_seats_def sample_sink_def DatagramSink_assigned_def)

definition sample_datagram :: OutboundDatagram where
  "sample_datagram = snd (hd (fst (snd (UdpModule_send 0x0A000202 4000 53 [1, 2, 3] sample_udp))))"

theorem udp_datagram_reaches_listener_witness:
  "\<exists>seen bytes view r' b'.
     Ipv4Module_handle (od_payload (snd (hd (fst (snd (Ipv4Module_send sample_datagram sample_ipv4)))))) sample_ipv4 =
       (seen @ [L4_called 5 (Some 6) bytes view], r') \<and>
     UdpModule_handle bytes view sample_udp =
       ([(sample_listener, \<lparr>dl_sender = SourceAddressFor (um_own_address sample_udp) 0x0A000202, dl_sender_port = 4000,
                           dl_bytes = [1, 2, 3]\<rparr>)], b')"
proof (rule udp_datagram_reaches_listener[OF _ _ _ sample_ipv4_ok(1,2) sample_udp_ok(1,2)])
  have port: "ps_port sample_listener = 53" by (simp add: sample_listener_def)
  show "UdpModule_send 0x0A000202 4000 (ps_port sample_listener) [1, 2, 3] sample_udp =
      (True, [(um_sink sample_udp, sample_datagram)],
       snd (snd (UdpModule_send 0x0A000202 4000 53 [1, 2, 3] sample_udp)))"
    by (simp add: port sample_datagram_def UdpModule_send_def sample_udp_ok)
  have "fits_ipv4 sample_datagram"
    by (simp add: sample_datagram_def UdpModule_send_def sample_udp_ok udp_outgoing_length)
  then show "Ipv4Module_send sample_datagram sample_ipv4 = (True,
      [(im_sink sample_ipv4, snd (hd (fst (snd (Ipv4Module_send sample_datagram sample_ipv4)))))],
      snd (snd (Ipv4Module_send sample_datagram sample_ipv4)))"
    by (simp add: Ipv4Module_send_def sample_ipv4_ok Let_def)
qed (simp add: sample_udp_ok sample_ipv4_ok)

section \<open>The port table\<close>

lemma udp_seat_taken:
  assumes "udp_table_ok m"
  shows "(\<exists>index<um_port_count m. ps_port (um_ports m ! index) = port) \<longleftrightarrow> port \<in> ps_port ` set (udp_seats m)"
proof -
  have "um_port_count m \<le> length (um_ports m)" using assms by (simp add: udp_table_ok_def)
  then show ?thesis by (force simp: udp_seats_def in_set_conv_nth image_iff)
qed

lemma UdpModule_bind_cases:
  assumes "udp_table_ok m"
  obtains "UdpModule_bind port context deliver m = (False, m)"
    "deliver = None \<or> um_port_count m = 8 \<or> port \<in> ps_port ` set (udp_seats m)"
  | m' where "UdpModule_bind port context deliver m = (True, m')" "deliver \<noteq> None" "port \<notin> ps_port ` set (udp_seats m)"
    "udp_seats m' = udp_seats m @ [\<lparr>ps_port = port, ps_context = context, ps_deliver = deliver\<rparr>]" "udp_table_ok m'"
proof -
  let ?seat = "\<lparr>ps_port = port, ps_context = context, ps_deliver = deliver\<rparr>"
  let ?m = "m\<lparr>um_ports := (um_ports m)[um_port_count m := ?seat], um_port_count := um_port_count m + 1\<rparr>"
  note ex = udp_seat_taken[OF assms, of port]
  show thesis
  proof (cases "deliver = None \<or> um_port_count m = 8 \<or> port \<in> ps_port ` set (udp_seats m)")
    case True
    then have "UdpModule_bind port context deliver m = (False, m)" unfolding UdpModule_bind_def ex by auto
    with True show thesis using that(1) by blast
  next
    case False
    then have "um_port_count m < length (um_ports m)" using assms by (simp add: udp_table_ok_def)
    then have seats: "udp_seats ?m = udp_seats m @ [?seat]"
      by (simp add: udp_seats_def take_Suc_conv_app_nth)
    have "distinct (map ps_port (udp_seats ?m))" using assms False unfolding seats by (simp add: udp_table_ok_def)
    then have ok: "udp_table_ok ?m" using assms \<open>um_port_count m < length (um_ports m)\<close>
      unfolding udp_table_ok_def by simp
    have bound: "UdpModule_bind port context deliver m = (True, ?m)" using False unfolding UdpModule_bind_def ex by simp
    show thesis by (rule that(2)[OF bound _ _ seats ok]) (use False in simp_all)
  qed
qed

lemma image_neq: "f x = f y \<Longrightarrow> f y \<notin> f ` A \<Longrightarrow> x \<notin> A"
  by (metis imageI)

lemma swap_remove:
  assumes "xs = ys @ [z]" "distinct (map f xs)" "i < length xs"
  shows "distinct (map f (ys[i := z]))" "set (ys[i := z]) = {s \<in> set xs. f s \<noteq> f (xs ! i)}"
proof -
  show "distinct (map f (ys[i := z]))"
    using assms by (auto simp: map_update distinct_list_update)
  show "set (ys[i := z]) = {s \<in> set xs. f s \<noteq> f (xs ! i)}"
  proof (cases "i < length ys")
    case False
    then have "i = length ys" using assms(1,3) by simp
    then have "ys[i := z] = ys" "xs ! i = z" using assms(1) by (simp_all add: list_update_beyond)
    moreover have nz: "f z \<notin> f ` set ys" using assms(1,2) by simp
    ultimately show ?thesis using assms(1) by (auto dest: image_neq[OF _ nz])
  next
    case True
    define us vs y where "us = take i ys" and "vs = drop (Suc i) ys" and "y = ys ! i"
    have ys: "ys = us @ y # vs" "length us = i" using True by (simp_all add: us_def vs_def y_def id_take_nth_drop)
    then have "ys[i := z] = us @ z # vs" by auto
    moreover have nu: "f y \<notin> f ` set us" and nv: "f y \<notin> f ` set vs" and "f z \<noteq> f y"
      using assms(1,2) ys(1) by auto
    ultimately have sets: "set (ys[i := z]) = set us \<union> {z} \<union> set vs" "f z \<noteq> f y" by auto
    have all: "set xs = set us \<union> {y, z} \<union> set vs" using assms(1) ys by auto
    have nth: "xs ! i = y" using assms(1) ys by auto
    show ?thesis unfolding nth all using sets by (auto dest: image_neq[OF _ nu] image_neq[OF _ nv])
  qed
qed

lemma UdpModule_unbind_cases:
  assumes "udp_table_ok m"
  obtains "UdpModule_unbind port m = (False, m)" "port \<notin> ps_port ` set (udp_seats m)"
  | m' where "UdpModule_unbind port m = (True, m')" "port \<in> ps_port ` set (udp_seats m)" "udp_table_ok m'"
    "set (udp_seats m') = {s \<in> set (udp_seats m). ps_port s \<noteq> port}"
proof (cases "find (\<lambda>index. ps_port (um_ports m ! index) = port) [0..<um_port_count m]")
  case None
  then have "port \<notin> ps_port ` set (udp_seats m)"
    by (force simp: find_None_iff udp_seats_def in_set_conv_nth)
  with None show thesis using that(1) by (simp add: UdpModule_unbind_def)
next
  case (Some i)
  then have i: "i < um_port_count m" "ps_port (um_ports m ! i) = port" by (auto simp: find_Some_iff)
  have len: "length (um_ports m) = 8" "um_port_count m \<le> 8" "distinct (map ps_port (udp_seats m))"
    using assms by (simp_all add: udp_table_ok_def)
  define n where "n = um_port_count m - 1"
  have n: "um_port_count m = Suc n" using i by (simp add: n_def)
  let ?m = "m\<lparr>um_ports := (um_ports m)[i := um_ports m ! n], um_port_count := n\<rparr>"
  define xs where "xs = udp_seats m"
  have xs: "length xs = Suc n" "i < Suc n" "distinct (map ps_port xs)" "ps_port (xs ! i) = port" "xs ! n = um_ports m ! n"
    using len i n by (simp_all add: xs_def udp_seats_def)
  have "last xs = um_ports m ! n" using xs(1,5) by (cases xs rule: rev_cases) auto
  moreover have "butlast xs = take n (um_ports m)" using len n by (simp add: xs_def udp_seats_def butlast_take)
  ultimately have seats: "udp_seats ?m = (butlast xs)[i := last xs]"
    by (simp add: udp_seats_def take_update_swap)
  obtain ys z where z: "xs = ys @ [z]" "length ys = n" using xs(1) by (metis length_Suc_conv_rev)
  note res = swap_remove[OF z(1) xs(3), of i, unfolded xs(4)]
  have "udp_table_ok ?m" using len n xs(1,2) res(1) by (simp add: udp_table_ok_def seats z)
  moreover have "port \<in> ps_port ` set (udp_seats m)" using xs by (metis xs_def nth_mem imageI)
  moreover have "set (udp_seats ?m) = {s \<in> set (udp_seats m). ps_port s \<noteq> port}"
    using res(2) xs(1,2) by (simp add: seats z flip: xs_def)
  ultimately show thesis using that(2)[of ?m] Some by (simp add: UdpModule_unbind_def n)
qed


text \<open>Modules reachable from a fresh one by the public operations.\<close>

inductive udp_reachable :: "UdpModule \<Rightarrow> bool" where
  start: "udp_reachable UdpModule_new"
| init: "udp_reachable m \<Longrightarrow> udp_reachable (UdpModule_init sink own m)"
| aim: "udp_reachable m \<Longrightarrow> udp_reachable (UdpModule_aim sink own m)"
| bind: "udp_reachable m \<Longrightarrow> udp_reachable (snd (UdpModule_bind port ctx deliver m))"
| unbind: "udp_reachable m \<Longrightarrow> udp_reachable (snd (UdpModule_unbind port m))"
| handle: "udp_reachable m \<Longrightarrow> udp_reachable (snd (UdpModule_handle bytes header m))"
| send: "udp_reachable m \<Longrightarrow> udp_reachable (snd (snd (UdpModule_send dst sp dp payload m)))"

lemma udp_table_okI:
  "um_ports m' = um_ports m \<Longrightarrow> um_port_count m' = um_port_count m \<Longrightarrow> udp_table_ok m \<Longrightarrow> udp_table_ok m'"
  by (simp add: udp_table_ok_def udp_seats_def)

lemma UdpModule_handle_table:
  "um_ports (snd (UdpModule_handle bytes header m)) = um_ports m"
  "um_port_count (snd (UdpModule_handle bytes header m)) = um_port_count m"
  "um_ephemeral_cursor (snd (UdpModule_handle bytes header m)) = um_ephemeral_cursor m"
  by (auto simp: UdpModule_handle_def Let_def split: sum.split option.split)

lemma udp_reachable_ok: "udp_reachable m \<Longrightarrow> udp_table_ok m \<and> um_ephemeral_cursor m = 32768"
proof (induction rule: udp_reachable.induct)
  case start
  show ?case by (simp add: UdpModule_new_def udp_table_ok_def udp_seats_def)
next
  case (bind m port ctx deliver)
  then have ok: "udp_table_ok m" by simp
  have "udp_table_ok (snd (UdpModule_bind port ctx deliver m))"
    by (rule UdpModule_bind_cases[OF ok, of port ctx deliver]) (use ok in simp_all)
  with bind show ?case by (simp add: UdpModule_bind_def)
next
  case (unbind m port)
  then have ok: "udp_table_ok m" by simp
  have "udp_table_ok (snd (UdpModule_unbind port m))"
    by (rule UdpModule_unbind_cases[OF ok, of port]) (use ok in simp_all)
  with unbind show ?case by (simp add: UdpModule_unbind_def split: option.split)
next
  case (handle m bytes header)
  then show ?case using udp_table_okI[OF UdpModule_handle_table(1,2)] by (simp add: UdpModule_handle_table)
next
  case (send m dst sp dp payload)
  then show ?case by (auto simp: UdpModule_send_def intro: udp_table_okI)
qed (auto simp: UdpModule_init_def UdpModule_aim_def intro: udp_table_okI)

lemma ephemeral_candidate_start: "scan < 28232 \<Longrightarrow> unat (ephemeral_candidate 32768 scan) = 32768 + scan"
  by (simp add: ephemeral_candidate_def unsigned_ucast_eq take_bit_eq_mod unat_word_ariths unat_mod_distrib unat_of_nat)

lemma udp_ephemeral_facts:
  assumes "udp_reachable m"
  shows "distinct (map ps_port (udp_seats m))"
    and "UdpModule_ephemeral_port m \<notin> ps_port ` set (udp_seats m)"
    and "32768 \<le> unat (UdpModule_ephemeral_port m)" and "unat (UdpModule_ephemeral_port m) \<le> 60999"
proof -
  have ok: "udp_table_ok m" and cur: "um_ephemeral_cursor m = 32768" using udp_reachable_ok[OF assms] by simp_all
  let ?c = "ephemeral_candidate 32768"
  let ?taken = "\<lambda>scan. \<exists>index<um_port_count m. ps_port (um_ports m ! index) = ?c scan"
  have taken: "?taken scan \<longleftrightarrow> ?c scan \<in> ps_port ` set (udp_seats m)" for scan
    by (rule udp_seat_taken[OF ok])
  have "\<exists>scan\<in>{0..<9}. \<not> ?taken scan"
  proof (rule ccontr)
    assume "\<not> ?thesis"
    then have "?c ` {0..<9} \<subseteq> ps_port ` set (udp_seats m)" unfolding taken by blast
    then have "card (?c ` {0..<9}) \<le> card (ps_port ` set (udp_seats m))" by (intro card_mono) auto
    also have "\<dots> \<le> 8" using ok card_image_le[of "set (udp_seats m)" ps_port] card_length[of "udp_seats m"]
      by (simp add: udp_table_ok_def udp_seats_def)
    finally have "card (?c ` {0..<9}) \<le> 8" .
    moreover have "inj_on ?c {0..<9}"
    proof (rule inj_onI)
      fix a b assume "a \<in> {0..<9 :: nat}" "b \<in> {0..<9 :: nat}" "?c a = ?c b"
      moreover from this have "a < 28232" "b < 28232" by simp_all
      ultimately have "32768 + a = 32768 + b" using ephemeral_candidate_start by metis
      then show "a = b" by simp
    qed
    ultimately show False using card_image[of ?c "{0..<9}"] by (simp only: card_atLeastLessThan)
  qed
  then obtain free where "free < 9" "\<not> ?taken free" by auto
  define n :: nat where "n = 28232"
  have "free < n" using \<open>free < 9\<close> by (simp add: n_def)
  obtain scan where scan: "find (\<lambda>scan. \<not> ?taken scan) [0..<n] = Some scan"
  proof (cases "find (\<lambda>scan. \<not> ?taken scan) [0..<n]")
    case None
    then have "\<not> \<not> ?taken free" using \<open>free < n\<close> unfolding find_upt_None_iff by simp
    with \<open>\<not> ?taken free\<close> show thesis by contradiction
  qed (rule that)
  then have free: "\<not> ?taken scan" "scan < 28232" unfolding find_upt_Some_iff by (simp_all add: n_def)
  have range: "60999 - 32768 + 1 = n" by (simp add: n_def)
  have port: "UdpModule_ephemeral_port m = ?c scan"
    unfolding UdpModule_ephemeral_port_def cur range scan by (simp only: option.case)
  show "distinct (map ps_port (udp_seats m))" using ok by (simp add: udp_table_ok_def)
  show "UdpModule_ephemeral_port m \<notin> ps_port ` set (udp_seats m)" unfolding port using free(1) unfolding taken .
  show "32768 \<le> unat (UdpModule_ephemeral_port m)" "unat (UdpModule_ephemeral_port m) \<le> 60999"
    unfolding port using ephemeral_candidate_start[OF free(2)] free(2) by simp_all
qed

text \<open>
  C25. In every reachable UDP module no two seated listeners share a port, and the search for an
  ephemeral port always succeeds: it answers a port of the ephemeral range that nobody is bound to,
  never the zero that stands for exhaustion.
\<close>

theorem udp_ephemeral_port_free:
  assumes "udp_reachable m"
  shows "distinct (map ps_port (udp_seats m)) \<and>
    UdpModule_ephemeral_port m \<notin> ps_port ` set (udp_seats m) \<and>
    32768 \<le> unat (UdpModule_ephemeral_port m) \<and> unat (UdpModule_ephemeral_port m) \<le> 60999"
  using udp_ephemeral_facts[OF assms] by blast

theorem udp_ephemeral_port_free_witness:
  "UdpModule_ephemeral_port (snd (UdpModule_bind 32768 (Some 1) (Some 2) UdpModule_new)) \<notin>
   ps_port ` set (udp_seats (snd (UdpModule_bind 32768 (Some 1) (Some 2) UdpModule_new)))"
  using udp_ephemeral_port_free[OF udp_reachable.bind[OF udp_reachable.start]] by blast

section \<open>The echo exchange\<close>

lemma icmp_unsealed_length [write_simps]: "length (icmp_unsealed t b i q rest) = length b"
  by (simp add: icmp_unsealed_def Let_def write_simps)

lemma icmp_unsealed_facts:
  assumes "8 + length rest \<le> length b"
  shows "icmp_unsealed t b i q rest ! 0 = t" "icmp_unsealed t b i q rest ! 1 = 0"
    "icmp_unsealed t b i q rest ! 2 = 0" "icmp_unsealed t b i q rest ! 3 = 0"
    "ReadWord16Be (icmp_unsealed t b i q rest) 4 = i" "ReadWord16Be (icmp_unsealed t b i q rest) 6 = q"
    "take (length rest) (drop 8 (icmp_unsealed t b i q rest)) = rest"
proof -
  let ?m = "icmp_unsealed t b i q rest"
  have "b \<noteq> []" using assms by auto
  then show "?m ! 0 = t" "?m ! 1 = 0" "?m ! 2 = 0" "?m ! 3 = 0"
    using assms by (simp_all add: icmp_unsealed_def Let_def write_simps)
  show "ReadWord16Be ?m 4 = i" "ReadWord16Be ?m 6 = q"
    by (rule read16be_bytes; use assms in \<open>simp add: icmp_unsealed_def Let_def write_simps\<close>)+
  show "take (length rest) (drop 8 ?m) = rest"
    unfolding icmp_unsealed_def Let_def by (subst copy_into_alt) (use assms in \<open>simp_all add: write_simps\<close>)
qed

text \<open>A sealed echo message of \<open>n\<close> bytes in a buffer that may be longer.\<close>

definition icmp_message :: "u8 \<Rightarrow> u8 list \<Rightarrow> u16 \<Rightarrow> u16 \<Rightarrow> u8 list \<Rightarrow> u8 list" where
  "icmp_message t b i q rest =
     (let m = icmp_unsealed t b i q rest in
      take (8 + length rest) (WriteWord16Be m 2 (checksum_value_of [take (8 + length rest) m])))"

lemma icmp_message_facts:
  assumes "8 + length rest \<le> length b" "length rest \<le> 1472"
  shows "length (icmp_message t b i q rest) = 8 + length rest"
    "checksum_value_of [icmp_message t b i q rest] = 0" "drop 8 (icmp_message t b i q rest) = rest"
    "\<exists>c. ParseIcmpEcho (icmp_message t b i q rest) =
       Inr \<lparr>ie_type = t, ie_code = 0, ie_checksum = c, ie_identifier = i, ie_sequence = q\<rparr>"
proof -
  define n where "n = 8 + length rest"
  define m where "m = take n (icmp_unsealed t b i q rest)"
  define c where "c = checksum_value_of [m]"
  note f = icmp_unsealed_facts[OF assms(1), of t i q]
  have msg: "icmp_message t b i q rest = WriteWord16Be m 2 c"
    unfolding icmp_message_def Let_def m_def c_def n_def by (simp add: take_write16be)
  have len: "length m = n" "8 \<le> n" "n \<le> 1480" using assms by (simp_all add: m_def n_def write_simps)
  then show "length (icmp_message t b i q rest) = 8 + length rest" by (simp add: msg write_simps n_def)
  have z: "m ! 2 = 0" "m ! 3 = 0" "m ! 0 = t" "m ! 1 = 0" using f len(2) by (simp_all add: m_def)
  have "unat c = checksum_of m" using checksum_value_of_spec[of "[m]"] len by (simp add: c_def)
  then show "checksum_value_of [icmp_message t b i q rest] = 0"
    using checksum_sealed_alone[of 2 m c] len z by (simp add: msg)
  show "drop 8 (icmp_message t b i q rest) = rest"
    using f(7) by (simp add: msg drop_write16be m_def drop_take n_def)
  have "ReadWord16Be m 4 = i" "ReadWord16Be m 6 = q" using f len(2) by (simp_all add: m_def read16be_take)
  then show "\<exists>c. ParseIcmpEcho (icmp_message t b i q rest) =
      Inr \<lparr>ie_type = t, ie_code = 0, ie_checksum = c, ie_identifier = i, ie_sequence = q\<rparr>"
    using len z by (simp add: msg ParseIcmpEcho_def write_simps read16be_write_other)
qed

lemma BuildEchoRequest_message:
  assumes "8 \<le> length message"
  shows "BuildEchoRequest message i q = icmp_message 8 message i q (map of_nat [8..<length message])"
proof -
  have "8 + length (map of_nat [8..<length message] :: u8 list) = length message" using assms by simp
  then show ?thesis by (simp add: BuildEchoRequest_def icmp_message_def Let_def write_simps del: length_map length_upt)
qed

lemma icmp_reply_message:
  assumes "8 \<le> length bytes"
  shows "take (length bytes) (icmp_reply_bytes reply bytes view) =
    icmp_message 0 reply (ie_identifier view) (ie_sequence view) (drop 8 bytes)"
  using assms by (simp add: icmp_reply_bytes_def icmp_message_def Let_def)

text \<open>
  C22. The echo exchange: any request \<^verbatim>\<open>BuildEchoRequest\<close> makes in a buffer of 8 to 1480 bytes is
  accepted by the receiving module, which sends one reply to the requester; the reply carries the
  request's payload bytes unchanged, and a module that receives it counts one reply seen and reports
  exactly the identifier and sequence of the request.
\<close>

theorem icmp_echo_exchange:
  assumes "8 \<le> length message" "length message \<le> 1480"
    and "DatagramSink_assigned (cm_reply_sink server)" "length (cm_reply server) = 1480"
    and "request = BuildEchoRequest message identifier sequence"
  shows "\<exists>reply server'. IcmpModule_handle request header server =
      ([(cm_reply_sink server, \<lparr>od_destination = i4_source header, od_protocol = 1, od_payload = reply\<rparr>)], server') \<and>
    drop 8 reply = drop 8 request \<and>
    IcmpModule_handle reply back client =
      ([], client\<lparr>cm_stats := (cm_stats client)\<lparr>cs_replies_seen := cs_replies_seen (cm_stats client) + 1,
                    cs_last_identifier := identifier, cs_last_sequence := sequence\<rparr>\<rparr>)"
proof -
  define rest :: "u8 list" where "rest = map of_nat [8..<length message]"
  have rl: "8 + length rest = length message" "length rest \<le> 1472" using assms(1,2) by (simp_all add: rest_def)
  have req: "request = icmp_message 8 message identifier sequence rest"
    using BuildEchoRequest_message[OF assms(1)] assms(5) by (simp add: rest_def)
  note rf = icmp_message_facts[of rest message, OF eq_imp_le[OF rl(1)] rl(2), where t = 8 and i = "identifier" and q = "sequence", folded req]
  obtain c where rp: "ParseIcmpEcho request =
      Inr \<lparr>ie_type = 8, ie_code = 0, ie_checksum = c, ie_identifier = identifier, ie_sequence = sequence\<rparr>"
    using rf(4) by blast
  define reply where "reply = icmp_message 0 (cm_reply server) identifier sequence rest"
  have len: "8 + length rest \<le> length (cm_reply server)" using rl assms(2,4) by simp
  note pf = icmp_message_facts[OF len rl(2), where t = 0 and i = "identifier" and q = "sequence", folded reply_def]
  obtain c' where pp: "ParseIcmpEcho reply =
      Inr \<lparr>ie_type = 0, ie_code = 0, ie_checksum = c', ie_identifier = identifier, ie_sequence = sequence\<rparr>"
    using pf(4) by blast
  have "take (length request) (icmp_reply_bytes (cm_reply server) request
      \<lparr>ie_type = 8, ie_code = 0, ie_checksum = c, ie_identifier = identifier, ie_sequence = sequence\<rparr>) = reply"
    by (subst icmp_reply_message) (simp_all add: rf(1,3) reply_def)
  then have "\<exists>server'. IcmpModule_handle request header server =
      ([(cm_reply_sink server, \<lparr>od_destination = i4_source header, od_protocol = 1, od_payload = reply\<rparr>)], server')"
    using rl assms(2,3) by (simp add: IcmpModule_handle_def rp rf Let_def)
  moreover have "IcmpModule_handle reply back client =
      ([], client\<lparr>cm_stats := (cm_stats client)\<lparr>cs_replies_seen := cs_replies_seen (cm_stats client) + 1,
                    cs_last_identifier := identifier, cs_last_sequence := sequence\<rparr>\<rparr>)"
    using rl by (simp add: IcmpModule_handle_def pp pf Let_def)
  ultimately show ?thesis using rf(3) pf(3) by auto
qed


definition sample_icmp :: IcmpModule where
  "sample_icmp = \<lparr>cm_reply_sink = sample_sink, cm_stats = IcmpStats_zero, cm_reply = replicate 1480 0\<rparr>"

theorem icmp_echo_exchange_witness:
  "\<exists>reply server'. IcmpModule_handle (BuildEchoRequest (replicate 12 0) 0x1234 1)
        (ipv4_view_of 0x0A000202 sample_datagram) sample_icmp =
      ([(cm_reply_sink sample_icmp, \<lparr>od_destination = i4_source (ipv4_view_of 0x0A000202 sample_datagram),
         od_protocol = 1, od_payload = reply\<rparr>)], server') \<and>
    drop 8 reply = drop 8 (BuildEchoRequest (replicate 12 0) 0x1234 1) \<and>
    IcmpModule_handle reply (ipv4_view_of 0 sample_datagram) sample_icmp =
      ([], sample_icmp\<lparr>cm_stats := (cm_stats sample_icmp)\<lparr>cs_replies_seen := cs_replies_seen (cm_stats sample_icmp) + 1,
                        cs_last_identifier := 0x1234, cs_last_sequence := 1\<rparr>\<rparr>)"
  by (rule icmp_echo_exchange[OF _ _ _ _ refl])
    (simp_all add: sample_icmp_def sample_sink_def DatagramSink_assigned_def)

section \<open>Address resolution\<close>

definition arp_ok :: "ArpCache \<Rightarrow> bool" where
  "arp_ok c \<longleftrightarrow> length (ac_entries c) = 4 \<and> ac_next c < 4 \<and>
     (\<forall>i<4. \<forall>j<4. ae_used (ac_entries c ! i) \<and> ae_used (ac_entries c ! j) \<and>
        ae_protocol (ac_entries c ! i) = ae_protocol (ac_entries c ! j) \<longrightarrow> i = j)"

lemma arp_okD:
  assumes "arp_ok c" "i < 4" "j < 4" "ae_used (ac_entries c ! i)" "ae_used (ac_entries c ! j)"
    "ae_protocol (ac_entries c ! i) = ae_protocol (ac_entries c ! j)"
  shows "i = j"
  using assms unfolding arp_ok_def by blast

lemma arp_okI:
  assumes "length (ac_entries c) = 4" "ac_next c < 4"
    and "\<And>i j. i < 4 \<Longrightarrow> j < 4 \<Longrightarrow> ae_used (ac_entries c ! i) \<Longrightarrow> ae_used (ac_entries c ! j) \<Longrightarrow>
      ae_protocol (ac_entries c ! i) = ae_protocol (ac_entries c ! j) \<Longrightarrow> i = j"
  shows "arp_ok c"
  using assms unfolding arp_ok_def by blast

lemma arp_lookup_Some:
  assumes "arp_ok c"
  shows "ArpCache_lookup a c = Some h \<longleftrightarrow>
    (\<exists>i<4. ae_used (ac_entries c ! i) \<and> ae_protocol (ac_entries c ! i) = a \<and> ae_hardware (ac_entries c ! i) = h)"
proof -
  have len: "length (ac_entries c) = 4" using assms by (simp add: arp_ok_def)
  show ?thesis
  proof
    assume "ArpCache_lookup a c = Some h"
    then show "\<exists>i<4. ae_used (ac_entries c ! i) \<and> ae_protocol (ac_entries c ! i) = a \<and> ae_hardware (ac_entries c ! i) = h"
      unfolding ArpCache_lookup_def using len by (fastforce simp: find_Some_iff)
  next
    assume "\<exists>i<4. ae_used (ac_entries c ! i) \<and> ae_protocol (ac_entries c ! i) = a \<and> ae_hardware (ac_entries c ! i) = h"
    then obtain i where i: "i < 4" "ae_used (ac_entries c ! i)" "ae_protocol (ac_entries c ! i) = a"
        "ae_hardware (ac_entries c ! i) = h" by blast
    have "\<not> (ae_used (ac_entries c ! j) \<and> ae_protocol (ac_entries c ! j) = a)" if "j < i" for j
      using arp_okD[OF assms, of j i] i that by auto
    then have "find (\<lambda>entry. ae_used entry \<and> ae_protocol entry = a) (ac_entries c) = Some (ac_entries c ! i)"
      unfolding find_Some_iff using i len by (intro exI[of _ i]) simp
    then show "ArpCache_lookup a c = Some h" using i by (simp add: ArpCache_lookup_def)
  qed
qed

lemma ArpCache_init_ok: "arp_ok ArpCache_init"
  by (simp add: arp_ok_def ArpCache_init_def ArpEntry_empty_def)

lemma nth_update4: "length xs = 4 \<Longrightarrow> i < 4 \<Longrightarrow> xs[i := v] ! j = (if j = i then v else xs ! j)"
  by (simp add: nth_list_update)

lemma ArpCache_observe_cases:
  assumes "arp_ok c"
  obtains e where "ParseArp packet = Inl e" "ArpCache_observe packet c = (False, c)"
  | view c' i where "ParseArp packet = Inr view" "ArpCache_observe packet c = (True, c')" "arp_ok c'" "i < 4"
    "ac_entries c' = (ac_entries c)[i := \<lparr>ae_protocol = av_sender_protocol view, ae_hardware = av_sender_hardware view, ae_used = True\<rparr>]"
    "\<forall>j<4. j \<noteq> i \<longrightarrow> ae_used (ac_entries c ! j) \<longrightarrow> ae_protocol (ac_entries c ! j) \<noteq> av_sender_protocol view"
proof (cases "ParseArp packet")
  case (Inl e)
  then show thesis using that(1) by (simp add: ArpCache_observe_def)
next
  case (Inr view)
  let ?es = "ac_entries c"
  have len: "length ?es = 4" "ac_next c < 4" using assms by (simp_all add: arp_ok_def)
  let ?P = "\<lambda>i. ae_used (?es ! i) \<and> ae_protocol (?es ! i) = av_sender_protocol view"
  let ?e = "\<lparr>ae_protocol = av_sender_protocol view, ae_hardware = av_sender_hardware view, ae_used = True\<rparr>"
  have ok: "arp_ok c'" if "ac_entries c' = ?es[i := ?e]" "ac_next c' < 4" "i < 4" "\<forall>j<4. j \<noteq> i \<longrightarrow> \<not> ?P j" for c' i
  proof (rule arp_okI)
    fix a b assume ab: "a < 4" "b < 4" "ae_used (ac_entries c' ! a)" "ae_used (ac_entries c' ! b)"
      "ae_protocol (ac_entries c' ! a) = ae_protocol (ac_entries c' ! b)"
    have nth: "ac_entries c' ! k = (if k = i then ?e else ?es ! k)" for k
      using that(1,3) len(1) by (simp add: nth_update4)
    show "a = b"
    proof (cases "a = i \<or> b = i")
      case True
      then show ?thesis using ab(1,2) ab(3-5)[unfolded nth] that(4) by (cases "a = i"; cases "b = i") (simp_all, metis)
    next
      case False
      then show ?thesis using ab arp_okD[OF assms, of a b] by (simp add: nth)
    qed
  qed (use that len in simp_all)
  show thesis
  proof (cases "find ?P [0..<length ?es]")
    case (Some i)
    then have i: "i < 4" "?P i" unfolding find_upt_Some_iff len(1) by simp_all
    have alone: "\<forall>j<4. j \<noteq> i \<longrightarrow> \<not> ?P j"
    proof (intro allI impI notI)
      fix j assume "j < 4" "j \<noteq> i" "?P j"
      then show False using arp_okD[OF assms, of i j] i by simp
    qed
    have "(?es ! i)\<lparr>ae_hardware := av_sender_hardware view\<rparr> = ?e" by (rule ArpEntry.equality) (use i(2) in simp_all)
    then have "ArpCache_observe packet c = (True, c\<lparr>ac_entries := ?es[i := ?e]\<rparr>)"
      using Inr Some by (simp add: ArpCache_observe_def)
    then show thesis by (rule that(2)[OF Inr _ ok[OF _ _ i(1) alone] i(1)]) (use len(2) alone in simp_all)
  next
    case None
    then have none: "\<forall>j<4. \<not> ?P j" unfolding find_upt_None_iff len(1) by simp
    let ?c = "c\<lparr>ac_entries := ?es[ac_next c := ?e], ac_next := (ac_next c + 1) mod 4\<rparr>"
    have "ArpCache_observe packet c = (True, ?c)" using Inr None by (simp add: ArpCache_observe_def)
    then show thesis by (rule that(2)[OF Inr _ ok[OF _ _ len(2)] len(2)]) (use none in simp_all)
  qed
qed


lemma arp_request_fold:
  assumes "length p = 28" "i < 28"
  shows "fold (\<lambda>index p. p[8 + index := hw ! index, 18 + index := 0]) [0..<6] p ! i =
    (if 8 \<le> i \<and> i < 14 then hw ! (i - 8) else if 18 \<le> i \<and> i < 24 then 0 else p ! i)"
proof -
  have upt: "[0..<6] = [0, 1, 2, 3, 4, 5 :: nat]" by (simp add: upt_rec)
  have "i \<in> set [0..<28]" using assms(2) by simp
  then show ?thesis using assms(1) unfolding upt
    by (simp add: upt_rec nth_list_update) (elim disjE; simp add: nth_list_update)
qed

lemma arp_request_length:
  "length (fold (\<lambda>index p. p[8 + index := hw ! index, 18 + index := 0]) is p) = length p"
  by (induction "is" arbitrary: p) simp_all

lemma ParseArp_request:
  assumes "length packet = 28" "length hw = 6"
  shows "ParseArp (ArpCache_build_request packet hw sender target) =
    Inr \<lparr>av_sender_hardware = hw, av_sender_protocol = sender, av_target_hardware = replicate 6 0,
         av_target_protocol = target, av_operation = 1\<rparr>"
proof -
  define p where "p = ArpCache_build_request packet hw sender target"
  define q where "q = packet[0 := 0x00, 1 := 0x01, 2 := 0x08, 3 := 0x00, 4 := 6, 5 := 4, 6 := 0x00, 7 := 1 :: u8]"
  have qlen: "length q = 28" using assms by (simp add: q_def)
  have nth: "p ! i = (WriteWord32Be (WriteWord32Be (fold (\<lambda>index p. p[8 + index := hw ! index, 18 + index := 0]) [0..<6] q) 14 sender) 24 target) ! i" for i
    by (simp add: p_def q_def ArpCache_build_request_def Let_def)
  have len: "length p = 28" using assms
    by (simp add: p_def ArpCache_build_request_def Let_def write_simps arp_request_length)
  have small: "p ! i = q ! i" if "i < 8" for i
    using that qlen by (simp add: nth write_simps arp_request_length arp_request_fold)
  have mac: "p ! (8 + i) = hw ! i" "p ! (18 + i) = 0" if "i < 6" for i
    using that qlen by (simp_all add: nth write_simps arp_request_length arp_request_fold)
  have words: "ReadWord32Be p 14 = sender" "ReadWord32Be p 24 = target"
    by (rule read32be_bytes; simp add: nth write_simps arp_request_length qlen)+
  have heads: "ReadWord16Be p 0 = 1" "ReadWord16Be p 2 = 0x0800" "ReadWord16Be p 6 = 1" "p ! 4 = 6" "p ! 5 = 4"
    using assms(1) by (simp_all add: ReadWord16Be_def small q_def)
  have "copy_mac (drop 8 p) = hw" "copy_mac (drop 18 p) = replicate 6 0"
    using mac len assms(2) by (auto simp: copy_mac_def list_eq_iff_nth_eq)
  then have "ParseArp p = Inr \<lparr>av_sender_hardware = hw, av_sender_protocol = sender, av_target_hardware = replicate 6 0,
         av_target_protocol = target, av_operation = 1\<rparr>"
    by (simp add: ParseArp_def len heads words)
  then show ?thesis by (simp only: p_def)
qed

lemma arp_learns_facts:
  assumes "arp_ok c" "length packet = 28" "length hw = 6"
    and "ArpCache_observe (ArpCache_build_request packet hw sender target) c = (answer, c')"
  shows "answer" "arp_ok c'" "ArpCache_lookup sender c' = Some hw"
    and "\<forall>a. a \<noteq> sender \<longrightarrow> ArpCache_lookup a c' = ArpCache_lookup a c \<or>
           ArpCache_lookup a c' = None \<and> ArpCache_lookup sender c = None"
proof -
  note parsed = ParseArp_request[OF assms(2,3), of sender target]
  obtain i where i: "answer" "arp_ok c'" "i < 4"
      "ac_entries c' = (ac_entries c)[i := \<lparr>ae_protocol = sender, ae_hardware = hw, ae_used = True\<rparr>]"
      "\<forall>j<4. j \<noteq> i \<longrightarrow> ae_used (ac_entries c ! j) \<longrightarrow> ae_protocol (ac_entries c ! j) \<noteq> sender"
    using assms(4) parsed by (cases rule: ArpCache_observe_cases[OF assms(1), of "ArpCache_build_request packet hw sender target"]) auto
  have len: "length (ac_entries c) = 4" using assms(1) by (simp add: arp_ok_def)
  note nth = nth_update4[OF len i(3)]
  show "answer" "arp_ok c'" by (rule i(1), rule i(2))
  show "ArpCache_lookup sender c' = Some hw"
    unfolding arp_lookup_Some[OF i(2)] i(4) nth using i(3) by (intro exI[of _ i]) simp
  show "\<forall>a. a \<noteq> sender \<longrightarrow> ArpCache_lookup a c' = ArpCache_lookup a c \<or>
           ArpCache_lookup a c' = None \<and> ArpCache_lookup sender c = None"
  proof (intro allI impI)
    fix a assume a: "a \<noteq> sender"
    have kept: "ArpCache_lookup a c = Some h" if "ArpCache_lookup a c' = Some h" for h
      using that a unfolding arp_lookup_Some[OF i(2)] arp_lookup_Some[OF assms(1)] i(4) nth by (auto split: if_splits)
    show "ArpCache_lookup a c' = ArpCache_lookup a c \<or> ArpCache_lookup a c' = None \<and> ArpCache_lookup sender c = None"
    proof (cases "ArpCache_lookup sender c")
      case None
      then show ?thesis using kept by (cases "ArpCache_lookup a c'") auto
    next
      case (Some h)
      then have "ae_used (ac_entries c ! i)" "ae_protocol (ac_entries c ! i) = sender"
        using i(5) unfolding arp_lookup_Some[OF assms(1)] by blast+
      then have "ArpCache_lookup a c' = Some h" if "ArpCache_lookup a c = Some h" for h
        using that a unfolding arp_lookup_Some[OF i(2)] arp_lookup_Some[OF assms(1)] i(4) nth by auto
      then show ?thesis using kept by (cases "ArpCache_lookup a c"; cases "ArpCache_lookup a c'") auto
    qed
  qed
qed



section \<open>Accounting and bounds of IPv4 input\<close>

definition ipv4_total :: "Ipv4Stats \<Rightarrow> u64" where
  "ipv4_total s = is_delivered s + is_refused_short s + is_refused_version s + is_refused_header_words s +
     is_refused_total_length s + is_refused_checksum s + is_unknown_protocol s"

lemma ipv4_input_facts:
  assumes "Ipv4Module_handle bytes m = (events, m')"
  shows "ipv4_total (im_stats m') = ipv4_total (im_stats m) + 1"
    and "L4_called f self payload view \<in> set events \<Longrightarrow>
      \<exists>h n. 20 \<le> h \<and> h \<le> 60 \<and> h + n \<le> length bytes \<and> h + n \<le> unat (i4_total_length view) \<and>
        payload = take n (drop h bytes) \<and> length payload = n \<and> checksum_value_of [take h bytes] = 0"
proof -
  have refused: "ipv4_total (Ipv4Stats_refuse e s) = ipv4_total s + 1" for e s
    by (cases e) (simp_all add: Ipv4Stats_refuse_def ipv4_total_def)
  show "ipv4_total (im_stats m') = ipv4_total (im_stats m) + 1"
    using assms refused
    by (auto simp: Ipv4Module_handle_def Let_def ipv4_total_def split: sum.splits if_splits option.splits)
  assume called: "L4_called f self payload view \<in> set events"
  then obtain v where v: "ParseIpv4 bytes = Inr v" "checksum_value_of [take (unat (i4_header_bytes v)) bytes] = 0"
      "payload = take (min (unat (i4_total_length v)) (length bytes) - unat (i4_header_bytes v))
                   (drop (unat (i4_header_bytes v)) bytes)" "view = v"
    using assms by (auto simp: Ipv4Module_handle_def Let_def L4Seat_handle_def split: sum.splits if_splits option.splits)
  note b = ParseIpv4_bounds[OF v(1)]
  show "\<exists>h n. 20 \<le> h \<and> h \<le> 60 \<and> h + n \<le> length bytes \<and> h + n \<le> unat (i4_total_length view) \<and>
        payload = take n (drop h bytes) \<and> length payload = n \<and> checksum_value_of [take h bytes] = 0"
    by (rule exI[of _ "unat (i4_header_bytes v)"],
        rule exI[of _ "min (unat (i4_total_length v)) (length bytes) - unat (i4_header_bytes v)"])
      (use b v in auto)
qed

text \<open>
  C40. Every datagram given to the IPv4 module is counted exactly once, delivered or under the one
  reason it was refused for, and whatever is handed to a layer-four protocol is a slice of the bytes
  received: it starts behind the header of 20 to 60 bytes, ends within the announced total length,
  and its header passed the checksum.
\<close>

theorem ipv4_input_accounts:
  assumes "Ipv4Module_handle bytes m = (events, m')"
  shows "ipv4_total (im_stats m') = ipv4_total (im_stats m) + 1 \<and>
    (\<forall>f self payload view. L4_called f self payload view \<in> set events \<longrightarrow>
      (\<exists>h n. 20 \<le> h \<and> h \<le> 60 \<and> h + n \<le> length bytes \<and> h + n \<le> unat (i4_total_length view) \<and>
        payload = take n (drop h bytes) \<and> length payload = n \<and> checksum_value_of [take h bytes] = 0))"
  using ipv4_input_facts[OF assms] by blast

theorem ipv4_input_accounts_witness:
  "ipv4_total (im_stats (snd (Ipv4Module_handle [0x45, 0, 0] sample_ipv4))) = ipv4_total (im_stats sample_ipv4) + 1"
  using ipv4_input_accounts[OF surjective_pairing, of "[0x45, 0, 0]" sample_ipv4] by blast

end
