(* ===== verification/TimerTable.thy ===== *)
theory TimerTable
  imports Containers
begin

text \<open>
  The timer table of \<^verbatim>\<open>kernel/time/timer_table.cpp\<close>: sixteen seats, each with a generation
  stamp, a context, a callback and a deadline. The callback runs on a world that contains the table
  itself, so \<^verbatim>\<open>advance\<close> takes the table's place in that world and the effect of a callback as
  arguments. The second part is the ticket discipline that the table shares with the TCP module: a
  ticket names a seat and its stamp, and a ticket that died never comes back to life.
\<close>

section \<open>The table\<close>

record TimerTicket =
  tk_slot :: nat
  tk_stamp :: u64

record ('c, 'f) TimerSeat =
  ts_used :: bool
  ts_stamp :: u64
  ts_context :: "'c option"
  ts_call :: "'f option"
  ts_deadline_ns :: u64

type_synonym ('c, 'f) TimerTable = "('c, 'f) TimerSeat list"

abbreviation (input) kTimerSeats :: nat where "kTimerSeats \<equiv> 16"

definition TimerSeat_empty :: "('c, 'f) TimerSeat" where
  "TimerSeat_empty = \<lparr>ts_used = False, ts_stamp = 0, ts_context = None, ts_call = None, ts_deadline_ns = 0\<rparr>"

definition TimerTable_new :: "('c, 'f) TimerTable" where
  "TimerTable_new = replicate kTimerSeats TimerSeat_empty"

definition TimerTable_arm ::
    "'c option \<Rightarrow> 'f option \<Rightarrow> u64 \<Rightarrow> ('c, 'f) TimerTable \<Rightarrow> TimerTicket result \<times> ('c, 'f) TimerTable" where
  "TimerTable_arm context call deadline_ns seats =
     (case find (\<lambda>index. \<not> ts_used (seats ! index)) [0..<kTimerSeats] of
        Some index \<Rightarrow>
          (let kStamp = ts_stamp (seats ! index) + 1 in
           (Inr \<lparr>tk_slot = index, tk_stamp = kStamp\<rparr>,
            seats[index := \<lparr>ts_used = True, ts_stamp = kStamp, ts_context = context, ts_call = call,
                            ts_deadline_ns = deadline_ns\<rparr>]))
      | None \<Rightarrow> (Inl kOutOfMemory, seats))"

definition TimerTable_cancel :: "TimerTicket \<Rightarrow> ('c, 'f) TimerTable \<Rightarrow> bool \<times> ('c, 'f) TimerTable" where
  "TimerTable_cancel ticket seats =
     (if tk_slot ticket \<ge> kTimerSeats then (False, seats)
      else let seat = seats ! tk_slot ticket in
        if \<not> ts_used seat \<or> ts_stamp seat \<noteq> tk_stamp ticket then (False, seats)
        else (True, seats[tk_slot ticket := TimerSeat_empty\<lparr>ts_stamp := ts_stamp seat + 1\<rparr>]))"

definition TimerTable_advance_seat ::
    "('w \<Rightarrow> ('c, 'f) TimerTable) \<Rightarrow> (('c, 'f) TimerTable \<Rightarrow> 'w \<Rightarrow> 'w) \<Rightarrow> ('f option \<Rightarrow> 'c option \<Rightarrow> 'w \<Rightarrow> 'w) \<Rightarrow>
     u64 \<Rightarrow> nat \<Rightarrow> 'w \<Rightarrow> 'w" where
  "TimerTable_advance_seat table put_table run now index w =
     (let seat = table w ! index in
      if \<not> ts_used seat \<or> now < ts_deadline_ns seat then w
      else run (ts_call seat) (ts_context seat)
             (put_table ((table w)[index := TimerSeat_empty\<lparr>ts_stamp := ts_stamp seat + 1\<rparr>]) w))"

definition TimerTable_advance ::
    "('w \<Rightarrow> ('c, 'f) TimerTable) \<Rightarrow> (('c, 'f) TimerTable \<Rightarrow> 'w \<Rightarrow> 'w) \<Rightarrow> ('f option \<Rightarrow> 'c option \<Rightarrow> 'w \<Rightarrow> 'w) \<Rightarrow>
     u64 \<Rightarrow> 'w \<Rightarrow> 'w" where
  "TimerTable_advance table put_table run now w =
     fold (TimerTable_advance_seat table put_table run now) [0..<kTimerSeats] w"

section \<open>Tickets\<close>

text \<open>
  A seat's generation. One operation raises the stamp of a seat by at most two (a seat released and
  claimed again), and a seat whose stamp stays put may be vacated but is never taken. A ticket is
  live when its seat is in use under its stamp, and spent when the seat has moved past it.
\<close>

locale ticket_table =
  fixes seats_of :: "'t \<Rightarrow> (bool \<times> u64) list"
    and step :: "'t \<Rightarrow> 't \<Rightarrow> bool"
  assumes step_length: "step t t' \<Longrightarrow> length (seats_of t') = length (seats_of t)"
    and step_seat: "step t t' \<Longrightarrow> i < length (seats_of t) \<Longrightarrow>
      \<exists>d\<le>2. snd (seats_of t' ! i) = snd (seats_of t ! i) + of_nat d \<and>
        (d = 0 \<longrightarrow> fst (seats_of t' ! i) \<longrightarrow> fst (seats_of t ! i))"
begin

definition live :: "nat \<Rightarrow> u64 \<Rightarrow> 't \<Rightarrow> bool" where
  "live i stamp t \<longleftrightarrow> i < length (seats_of t) \<and> fst (seats_of t ! i) \<and> snd (seats_of t ! i) = stamp"

definition spent :: "nat \<Rightarrow> u64 \<Rightarrow> 't \<Rightarrow> bool" where
  "spent i stamp t \<longleftrightarrow> i < length (seats_of t) \<longrightarrow>
     unat stamp < unat (snd (seats_of t ! i)) \<or> stamp = snd (seats_of t ! i) \<and> \<not> fst (seats_of t ! i)"

lemma spent_not_live: "spent i stamp t \<Longrightarrow> \<not> live i stamp t"
  by (auto simp: spent_def live_def)

text \<open>How far a stamp moves in a step, while the counter does not wrap.\<close>

lemma stamp_moves:
  assumes "step t t'" "i < length (seats_of t)" "unat (snd (seats_of t ! i)) + 2 < 2 ^ 64"
  obtains d where "d \<le> 2" "unat (snd (seats_of t' ! i)) = unat (snd (seats_of t ! i)) + d"
    "d = 0 \<longrightarrow> fst (seats_of t' ! i) \<longrightarrow> fst (seats_of t ! i)"
proof -
  obtain d where d: "d \<le> 2" "snd (seats_of t' ! i) = snd (seats_of t ! i) + of_nat d"
      "d = 0 \<longrightarrow> fst (seats_of t' ! i) \<longrightarrow> fst (seats_of t ! i)"
    using step_seat[OF assms(1,2)] by blast
  have "unat (snd (seats_of t ! i)) + d < 18446744073709551616" using assms(3) d(1) by simp
  then have "unat (snd (seats_of t' ! i)) = unat (snd (seats_of t ! i)) + d"
    unfolding d(2) using d(1) by (simp add: unat_word_ariths unat_of_nat take_bit_eq_mod)
  with d show thesis using that by blast
qed

lemma live_or_spent:
  assumes "step t t'" "live i stamp t" "unat stamp + 2 < 2 ^ 64"
  shows "live i stamp t' \<or> spent i stamp t'"
proof -
  have i: "i < length (seats_of t)" "snd (seats_of t ! i) = stamp" using assms(2) by (simp_all add: live_def)
  obtain d where "unat (snd (seats_of t' ! i)) = unat stamp + d"
    using stamp_moves[OF assms(1) i(1)] assms(3) unfolding i(2) by blast
  then show ?thesis using step_length[OF assms(1)] i(1)
    by (cases "d = 0") (auto simp: live_def spent_def word_unat_eq_iff)
qed

lemma spent_step:
  assumes "step t t'" "spent i stamp t" "i < length (seats_of t)" "unat (snd (seats_of t ! i)) + 2 < 2 ^ 64"
  shows "spent i stamp t'"
proof -
  obtain d where d: "unat (snd (seats_of t' ! i)) = unat (snd (seats_of t ! i)) + d"
      "d = 0 \<longrightarrow> fst (seats_of t' ! i) \<longrightarrow> fst (seats_of t ! i)"
    using stamp_moves[OF assms(1,3,4)] by blast
  then show ?thesis using assms(2,3)
    by (cases "d = 0") (auto simp: spent_def word_unat_eq_iff)
qed

text \<open>A spent ticket stays spent over any run too short to wrap the counter.\<close>

lemma spent_run:
  assumes "(step ^^ n) t t'" "spent i stamp t" "i < length (seats_of t)"
    "unat (snd (seats_of t ! i)) + 2 * n < 2 ^ 64"
  shows "spent i stamp t' \<and> i < length (seats_of t') \<and>
    unat (snd (seats_of t' ! i)) \<le> unat (snd (seats_of t ! i)) + 2 * n"
  using assms
proof (induction n arbitrary: t')
  case (Suc n)
  then obtain u where u: "(step ^^ n) t u" "step u t'" by auto
  have ih: "spent i stamp u" "i < length (seats_of u)" "unat (snd (seats_of u ! i)) \<le> unat (snd (seats_of t ! i)) + 2 * n"
    using Suc.IH[OF u(1) Suc.prems(2,3)] Suc.prems(4) by simp_all
  then have room: "unat (snd (seats_of u ! i)) + 2 < 2 ^ 64" using Suc.prems(4) by simp
  obtain d where "d \<le> 2" "unat (snd (seats_of t' ! i)) = unat (snd (seats_of u ! i)) + d"
    using stamp_moves[OF u(2) ih(2) room] by blast
  then show ?case using spent_step[OF u(2) ih(1,2) room] ih step_length[OF u(2)] by simp
qed simp

text \<open>A ticket that was live and is not any more is spent.\<close>

lemma live_run:
  assumes "(step ^^ n) t t'" "live i stamp t" "unat stamp + 2 * n < 2 ^ 64"
  shows "(live i stamp t' \<or> spent i stamp t') \<and> i < length (seats_of t') \<and> unat (snd (seats_of t' ! i)) \<le> unat stamp + 2 * n"
  using assms
proof (induction n arbitrary: t')
  case 0
  then show ?case by (simp add: live_def)
next
  case (Suc n)
  then obtain u where u: "(step ^^ n) t u" "step u t'" by auto
  have ih: "live i stamp u \<or> spent i stamp u" "i < length (seats_of u)" "unat (snd (seats_of u ! i)) \<le> unat stamp + 2 * n"
    using Suc.IH[OF u(1) Suc.prems(2)] Suc.prems(3) by simp_all
  then have room: "unat (snd (seats_of u ! i)) + 2 < 2 ^ 64" using Suc.prems(3) by simp
  obtain d where "d \<le> 2" "unat (snd (seats_of t' ! i)) = unat (snd (seats_of u ! i)) + d"
    using stamp_moves[OF u(2) ih(2) room] by blast
  moreover have "live i stamp t' \<or> spent i stamp t'"
    using ih(1) live_or_spent[OF u(2), of i stamp] spent_step[OF u(2) _ ih(2) room] Suc.prems(3) by auto
  ultimately show ?case using ih(2,3) step_length[OF u(2)] by simp
qed

end

section \<open>The timer table keeps the discipline\<close>

definition timer_seats :: "('c, 'f) TimerTable \<Rightarrow> (bool \<times> u64) list" where
  "timer_seats seats = map (\<lambda>seat. (ts_used seat, ts_stamp seat)) seats"

text \<open>
  The changes a table goes through: arming, cancelling, and the clearing of a due seat by which
  \<^verbatim>\<open>advance\<close> precedes each callback.
\<close>

inductive timer_step :: "('c, 'f) TimerTable \<Rightarrow> ('c, 'f) TimerTable \<Rightarrow> bool" where
  arm: "timer_step t (snd (TimerTable_arm ctx call deadline t))"
| cancel: "timer_step t (snd (TimerTable_cancel ticket t))"
| expire: "ts_used (t ! i) \<Longrightarrow> ts_deadline_ns (t ! i) \<le> now \<Longrightarrow>
    timer_step t (t[i := TimerSeat_empty\<lparr>ts_stamp := ts_stamp (t ! i) + 1\<rparr>])"

lemma timer_step_update:
  assumes "timer_step t t'"
  obtains "t' = t" | i seat where "t' = t[i := seat]" "ts_stamp seat = ts_stamp (t ! i) + 1"
  using assms
proof cases
  case (arm ctx call deadline)
  then show thesis using that by (auto simp: TimerTable_arm_def Let_def split: option.split_asm)
next
  case (cancel ticket)
  then show thesis using that by (auto simp: TimerTable_cancel_def Let_def split: if_split_asm)
next
  case (expire i now)
  then show thesis using that(2)[of i] by simp
qed

interpretation timers: ticket_table timer_seats timer_step
proof
  fix t t' :: "('c, 'f) TimerTable"
  assume step: "timer_step t t'"
  then show len: "length (timer_seats t') = length (timer_seats t)"
    by (cases rule: timer_step_update) (simp_all add: timer_seats_def)
  fix i assume i: "i < length (timer_seats t)"
  show "\<exists>d\<le>2. snd (timer_seats t' ! i) = snd (timer_seats t ! i) + of_nat d \<and>
        (d = 0 \<longrightarrow> fst (timer_seats t' ! i) \<longrightarrow> fst (timer_seats t ! i))"
    using step
  proof (cases rule: timer_step_update)
    case 1
    then show ?thesis by (intro exI[of _ 0]) simp
  next
    case (2 j seat)
    then show ?thesis using i
      by (cases "i = j") (auto simp: timer_seats_def intro: exI[of _ 1] exI[of _ 0])
  qed
qed


section \<open>What the table promises\<close>

text \<open>
  C30. A ticket cancels at most once. After a successful cancel, whatever is armed, cancelled or
  expired in between (for as long as the 64-bit stamp does not wrap), cancelling the same ticket
  again is refused and changes nothing, so no later tenant of the seat loses its timer to it.
\<close>

theorem timer_cancel_once:
  assumes "length t = 16" "TimerTable_cancel ticket t = (True, t')" "(timer_step ^^ n) t' t''"
    and "unat (tk_stamp ticket) + 1 + 2 * n < 2 ^ 64"
  shows "TimerTable_cancel ticket t'' = (False, t'')"
proof -
  let ?i = "tk_slot ticket" and ?s = "tk_stamp ticket"
  have i: "?i < 16" "ts_stamp (t ! ?i) = ?s" and t': "t' = t[?i := TimerSeat_empty\<lparr>ts_stamp := ?s + 1\<rparr>]"
    using assms(2) by (auto simp: TimerTable_cancel_def Let_def split: if_splits)
  have seat: "?i < length (timer_seats t')" "timer_seats t' ! ?i = (False, ?s + 1)"
    using assms(1) i t' by (simp_all add: timer_seats_def TimerSeat_empty_def)
  have one: "unat (?s + 1) = unat ?s + 1" using assms(4) by (simp add: unat_word_ariths)
  have "timers.spent ?i ?s t'" using seat one by (simp add: timers.spent_def)
  then have "timers.spent ?i ?s t'' \<and> ?i < length (timer_seats t'')"
    using timers.spent_run[OF assms(3) _ seat(1)] seat(2) one assms(4) by auto
  then have "\<not> ts_used (t'' ! ?i) \<or> ts_stamp (t'' ! ?i) \<noteq> ?s"
    by (auto simp: timers.spent_def timer_seats_def)
  then show ?thesis by (simp add: TimerTable_cancel_def Let_def)
qed

definition sample_timers :: "(nat, nat) TimerTable" where
  "sample_timers = snd (TimerTable_arm (Some 3) (Some 1) 500 TimerTable_new)"

lemma sample_timers_eq:
  "sample_timers = \<lparr>ts_used = True, ts_stamp = 1, ts_context = Some 3, ts_call = Some 1, ts_deadline_ns = 500\<rparr> #
     replicate 15 TimerSeat_empty"
proof -
  have new: "TimerTable_new = (TimerSeat_empty :: (nat, nat) TimerSeat) # replicate 15 TimerSeat_empty"
    using replicate_Suc[of 15 "TimerSeat_empty :: (nat, nat) TimerSeat"] by (simp add: TimerTable_new_def)
  have "find (\<lambda>index. \<not> ts_used ((TimerTable_new :: (nat, nat) TimerTable) ! index)) [0..<16] = Some 0"
    unfolding find_upt_Some_iff new by (simp add: TimerSeat_empty_def)
  then show ?thesis unfolding sample_timers_def TimerTable_arm_def
    by (simp add: Let_def new TimerSeat_empty_def del: upt_rec_numeral)
qed

lemma sample_timers_facts:
  "length sample_timers = 16" "TimerTable_cancel \<lparr>tk_slot = 0, tk_stamp = 1\<rparr> sample_timers = (True, sample_timers[0 := TimerSeat_empty\<lparr>ts_stamp := 2\<rparr>])"
  by (simp_all add: sample_timers_eq TimerTable_cancel_def)

theorem timer_cancel_once_witness:
  "TimerTable_cancel \<lparr>tk_slot = 0, tk_stamp = 1\<rparr>
     (snd (TimerTable_arm (Some 4) (Some 2) 900 (sample_timers[0 := TimerSeat_empty\<lparr>ts_stamp := 2\<rparr>]))) =
   (False, snd (TimerTable_arm (Some 4) (Some 2) 900 (sample_timers[0 := TimerSeat_empty\<lparr>ts_stamp := 2\<rparr>])))"
proof (rule timer_cancel_once[OF sample_timers_facts, of 1])
  show "(timer_step ^^ 1) (sample_timers[0 := TimerSeat_empty\<lparr>ts_stamp := 2\<rparr>])
      (snd (TimerTable_arm (Some 4) (Some 2) 900 (sample_timers[0 := TimerSeat_empty\<lparr>ts_stamp := 2\<rparr>])))"
    unfolding relpowp_1 by (rule timer_step.arm)
qed simp

definition timer_due :: "u64 \<Rightarrow> ('c, 'f) TimerSeat \<Rightarrow> bool" where
  "timer_due now seat \<longleftrightarrow> ts_used seat \<and> ts_deadline_ns seat \<le> now"

definition timer_cleared :: "('c, 'f) TimerSeat \<Rightarrow> ('c, 'f) TimerSeat" where
  "timer_cleared seat = TimerSeat_empty\<lparr>ts_stamp := ts_stamp seat + 1\<rparr>"

definition timer_log_seat ::
    "u64 \<Rightarrow> nat \<Rightarrow> ('c, 'f) TimerTable \<times> ('f option \<times> 'c option) list \<Rightarrow>
     ('c, 'f) TimerTable \<times> ('f option \<times> 'c option) list" where
  "timer_log_seat = TimerTable_advance_seat fst (\<lambda>t w. (t, snd w)) (\<lambda>f c w. (fst w, snd w @ [(f, c)]))"

lemma timer_log_seat_eq:
  "timer_log_seat now i (t, log) =
     (if timer_due now (t ! i) then (t[i := timer_cleared (t ! i)], log @ [(ts_call (t ! i), ts_context (t ! i))])
      else (t, log))"
  by (auto simp: timer_log_seat_def TimerTable_advance_seat_def Let_def timer_due_def timer_cleared_def not_less)

lemma timer_advance_prefix:
  assumes "n \<le> length t"
  shows "fold (timer_log_seat now) [0..<n] (t, log) =
    (map (\<lambda>s. if timer_due now s then timer_cleared s else s) (take n t) @ drop n t,
     log @ map (\<lambda>s. (ts_call s, ts_context s)) (filter (timer_due now) (take n t)))"
  using assms
proof (induction n)
  case (Suc n)
  let ?xs = "map (\<lambda>s. if timer_due now s then timer_cleared s else s) (take n t)"
  have n: "n < length t" "length ?xs = n" using Suc.prems by simp_all
  have dr: "drop n t = t ! n # drop (Suc n) t" using n(1) by (simp add: Cons_nth_drop_Suc)
  have nth: "(?xs @ drop n t) ! n = t ! n" using n by (simp add: nth_append)
  have upd: "(?xs @ drop n t)[n := s] = ?xs @ s # drop (Suc n) t" for s
    using n by (simp add: list_update_append dr)
  have tk: "take (Suc n) t = take n t @ [t ! n]" using n(1) by (simp add: take_Suc_conv_app_nth)
  have "fold (timer_log_seat now) [0..<Suc n] (t, log) =
      timer_log_seat now n (?xs @ drop n t, log @ map (\<lambda>s. (ts_call s, ts_context s)) (filter (timer_due now) (take n t)))"
    using Suc.IH Suc.prems by simp
  then show ?case unfolding timer_log_seat_eq nth upd tk by (simp add: dr)
qed simp



end
