(* ===== verification/Tcp.thy ===== *)
theory Tcp
  imports TimerTable Internet
begin

text \<open>
  The TCP module of \<^verbatim>\<open>kernel/net/tcp.hpp\<close> and \<^verbatim>\<open>tcp.cpp\<close>. A connection is named by its slot in
  the table of eight; an operation that takes a \<^verbatim>\<open>Connection&\<close> takes the slot. The timer table, a
  singleton in the source that only this module arms, is the field \<open>tm_timers\<close>; its contexts are
  slots. Two fields record the module's effects in the order they happen: \<open>tm_sent\<close> the datagrams
  handed to the sink, \<open>tm_fired\<close> the callbacks called. The module's gate makes every public operation
  atomic and is not modelled otherwise. Counters and times are 64-bit words, sequence numbers 32-bit
  words, so both wrap as the source does.
\<close>

unbundle bit_operations_syntax

section \<open>Types\<close>

datatype TcpState =
    TcpState_kClosed
  | TcpState_kSynSent
  | TcpState_kSynReceived
  | TcpState_kEstablished
  | TcpState_kFinWait1
  | TcpState_kFinWait2
  | TcpState_kCloseWait
  | TcpState_kClosing
  | TcpState_kLastAck
  | TcpState_kTimeWait

datatype TcpFarewell = TcpFarewell_kGraceful | TcpFarewell_kReset | TcpFarewell_kUnreachable

record TcpEvents =
  te_context :: "nat option"
  te_data :: "nat option"
  te_accepted :: "nat option"
  te_farewell :: "nat option"

record TcpTicket =
  tt_slot :: nat
  tt_stamp :: u64

record TcpListenTicket =
  tl_slot :: nat
  tl_stamp :: u64

record TcpStats =
  st_segments_sent :: u64
  st_bytes_delivered :: u64
  st_accepted :: u64
  st_refused_short :: u64
  st_refused_offset :: u64
  st_refused_checksum :: u64
  st_refused_full :: u64
  st_unclaimed :: u64
  st_stale_dropped :: u64
  st_out_of_order_dropped :: u64
  st_ack_beyond_dropped :: u64
  st_resets_sent :: u64
  st_resets_received :: u64
  st_retransmits_sent :: u64
  st_rto_timeouts :: u64
  st_giveups :: u64
  st_fast_retransmits :: u64
  st_out_of_order_stored :: u64
  st_out_of_order_recovered :: u64

record ListenSeat =
  ls_used :: bool
  ls_stamp :: u64
  ls_port :: u16
  ls_events :: TcpEvents
  ls_accepted :: "TcpTicket list"
  ls_accepted_count :: nat

record ReorderSeat =
  rs_used :: bool
  rs_start :: u32
  rs_bytes :: nat
  rs_data :: "u8 list"

record Connection =
  tc_stamp :: u64
  tc_oldest_sent_ns :: u64
  tc_retransmit_count :: u64
  tc_srtt_ns :: u64
  tc_rttvar_ns :: u64
  tc_rto_ns :: u64
  tc_owner :: bool
  tc_rto_seat :: TimerTicket
  tc_events :: TcpEvents
  tc_remote_address :: u32
  tc_snd_una :: u32
  tc_snd_nxt :: u32
  tc_rcv_nxt :: u32
  tc_snd_window :: u32
  tc_inbox :: "u8 RingQueue"
  tc_outbox :: "u8 RingQueue"
  tc_reorder :: "ReorderSeat list"
  tc_duplicate_acks :: u64
  tc_remote_port :: u16
  tc_local_port :: u16
  tc_used :: bool
  tc_state :: TcpState
  tc_rto_armed :: bool
  tc_time_wait_seat :: TimerTicket
  tc_time_wait_armed :: bool
  tc_in_retransmission :: bool

record PendingFire =
  pf_events :: TcpEvents
  pf_data :: bool
  pf_accepted :: bool
  pf_ended :: bool
  pf_farewell :: TcpFarewell

text \<open>The two callbacks the module gives the timer table, and the callbacks it calls itself.\<close>

datatype TcpTimerCall = on_rto_due | on_time_wait_due

datatype TcpCall =
    Tcp_data nat "nat option"
  | Tcp_accepted nat "nat option"
  | Tcp_farewell nat "nat option" TcpFarewell

record TcpModule =
  tm_sink :: DatagramSink
  tm_own_address :: u32
  tm_listens :: "ListenSeat list"
  tm_connections :: "Connection list"
  tm_ephemeral_cursor :: u64
  tm_isn_cursor :: u32
  tm_stats :: TcpStats
  tm_service_fires :: "PendingFire list"
  tm_service_fire_count :: nat
  tm_service_now_ns :: u64
  tm_timers :: "(nat, TcpTimerCall) TimerTable"
  tm_sent :: "emission list"
  tm_fired :: "TcpCall list"

section \<open>Numbers and initial values\<close>

abbreviation (input) kTcpFlagFin :: u8 where "kTcpFlagFin \<equiv> 0x01"
abbreviation (input) kTcpFlagSyn :: u8 where "kTcpFlagSyn \<equiv> 0x02"
abbreviation (input) kTcpFlagRst :: u8 where "kTcpFlagRst \<equiv> 0x04"
abbreviation (input) kTcpFlagPsh :: u8 where "kTcpFlagPsh \<equiv> 0x08"
abbreviation (input) kTcpFlagAck :: u8 where "kTcpFlagAck \<equiv> 0x10"
abbreviation (input) kTcpConnectionSeats :: nat where "kTcpConnectionSeats \<equiv> 8"
abbreviation (input) kTcpListenSeats :: nat where "kTcpListenSeats \<equiv> 4"
abbreviation (input) kTcpAcceptQueueSeats :: nat where "kTcpAcceptQueueSeats \<equiv> 2"
abbreviation (input) kTcpReceiveWindowBytes :: nat where "kTcpReceiveWindowBytes \<equiv> 4096"
abbreviation (input) kTcpSendWindowBytes :: nat where "kTcpSendWindowBytes \<equiv> 4096"
abbreviation (input) kTcpReorderSeats :: nat where "kTcpReorderSeats \<equiv> 4"
abbreviation (input) kTcpMssBytes :: nat where "kTcpMssBytes \<equiv> 1460"
abbreviation (input) kTcpInitialRtoNanoseconds :: u64 where "kTcpInitialRtoNanoseconds \<equiv> 1000000000"
abbreviation (input) kTcpMaxRtoNanoseconds :: u64 where "kTcpMaxRtoNanoseconds \<equiv> 64000000000"
abbreviation (input) kTcpMslNanoseconds :: u64 where "kTcpMslNanoseconds \<equiv> 1000000000"
abbreviation (input) kTcpRtoGranularityNanoseconds :: u64 where "kTcpRtoGranularityNanoseconds \<equiv> 100000000"
abbreviation (input) kTcpMaxRetransmits :: u64 where "kTcpMaxRetransmits \<equiv> 5"
abbreviation (input) kTcpFastRetransmitAcks :: u64 where "kTcpFastRetransmitAcks \<equiv> 3"
abbreviation (input) kIsnStep :: u32 where "kIsnStep \<equiv> 0x9E3779B9"

definition TcpEvents_none :: TcpEvents where
  "TcpEvents_none = \<lparr>te_context = None, te_data = None, te_accepted = None, te_farewell = None\<rparr>"

definition TcpStats_zero :: TcpStats where
  "TcpStats_zero = \<lparr>st_segments_sent = 0, st_bytes_delivered = 0, st_accepted = 0, st_refused_short = 0,
     st_refused_offset = 0, st_refused_checksum = 0, st_refused_full = 0, st_unclaimed = 0, st_stale_dropped = 0,
     st_out_of_order_dropped = 0, st_ack_beyond_dropped = 0, st_resets_sent = 0, st_resets_received = 0,
     st_retransmits_sent = 0, st_rto_timeouts = 0, st_giveups = 0, st_fast_retransmits = 0,
     st_out_of_order_stored = 0, st_out_of_order_recovered = 0\<rparr>"

definition ListenSeat_empty :: ListenSeat where
  "ListenSeat_empty = \<lparr>ls_used = False, ls_stamp = 0, ls_port = 0, ls_events = TcpEvents_none,
     ls_accepted = replicate kTcpAcceptQueueSeats \<lparr>tt_slot = 0, tt_stamp = 0\<rparr>, ls_accepted_count = 0\<rparr>"

definition ReorderSeat_empty :: ReorderSeat where
  "ReorderSeat_empty = \<lparr>rs_used = False, rs_start = 0, rs_bytes = 0, rs_data = replicate kTcpMssBytes 0\<rparr>"

definition Connection_empty :: Connection where
  "Connection_empty = \<lparr>tc_stamp = 0, tc_oldest_sent_ns = 0, tc_retransmit_count = 0, tc_srtt_ns = 0,
     tc_rttvar_ns = 0, tc_rto_ns = 0, tc_owner = False, tc_rto_seat = \<lparr>tk_slot = 0, tk_stamp = 0\<rparr>,
     tc_events = TcpEvents_none, tc_remote_address = 0, tc_snd_una = 0, tc_snd_nxt = 0, tc_rcv_nxt = 0,
     tc_snd_window = of_nat kTcpSendWindowBytes, tc_inbox = RingQueue_init 0 (kTcpReceiveWindowBytes + 1),
     tc_outbox = RingQueue_init 0 (kTcpSendWindowBytes + 1), tc_reorder = replicate kTcpReorderSeats ReorderSeat_empty,
     tc_duplicate_acks = 0, tc_remote_port = 0, tc_local_port = 0, tc_used = False, tc_state = TcpState_kClosed,
     tc_rto_armed = False, tc_time_wait_seat = \<lparr>tk_slot = 0, tk_stamp = 0\<rparr>, tc_time_wait_armed = False,
     tc_in_retransmission = False\<rparr>"

definition PendingFire_none :: PendingFire where
  "PendingFire_none = \<lparr>pf_events = TcpEvents_none, pf_data = False, pf_accepted = False, pf_ended = False,
     pf_farewell = TcpFarewell_kGraceful\<rparr>"

definition TcpModule_new :: TcpModule where
  "TcpModule_new = \<lparr>tm_sink = \<lparr>ds_context = None, ds_send = None\<rparr>, tm_own_address = 0,
     tm_listens = replicate kTcpListenSeats ListenSeat_empty,
     tm_connections = replicate kTcpConnectionSeats Connection_empty,
     tm_ephemeral_cursor = of_nat kEphemeralPortFirst, tm_isn_cursor = 0, tm_stats = TcpStats_zero,
     tm_service_fires = replicate kTcpConnectionSeats PendingFire_none, tm_service_fire_count = 0,
     tm_service_now_ns = 0, tm_timers = TimerTable_new, tm_sent = [], tm_fired = []\<rparr>"

definition conn :: "TcpModule \<Rightarrow> nat \<Rightarrow> Connection" where
  "conn m k = tm_connections m ! k"

definition upd_conn :: "nat \<Rightarrow> (Connection \<Rightarrow> Connection) \<Rightarrow> TcpModule \<Rightarrow> TcpModule" where
  "upd_conn k f m = m\<lparr>tm_connections := (tm_connections m)[k := f (tm_connections m ! k)]\<rparr>"

definition upd_stats :: "(TcpStats \<Rightarrow> TcpStats) \<Rightarrow> TcpModule \<Rightarrow> TcpModule" where
  "upd_stats f m = m\<lparr>tm_stats := f (tm_stats m)\<rparr>"


section \<open>Sequence numbers and segments\<close>

definition seq_before :: "u32 \<Rightarrow> u32 \<Rightarrow> bool" where
  "seq_before left right \<longleftrightarrow> sint (left - right) < 0"

definition seq_before_eq :: "u32 \<Rightarrow> u32 \<Rightarrow> bool" where
  "seq_before_eq left right \<longleftrightarrow> sint (left - right) \<le> 0"

definition past_fin :: "TcpState \<Rightarrow> bool" where
  "past_fin state \<longleftrightarrow> state = TcpState_kCloseWait \<or> state = TcpState_kClosing \<or>
     state = TcpState_kTimeWait \<or> state = TcpState_kLastAck"

definition tcp_pseudo_header :: "u32 \<Rightarrow> u32 \<Rightarrow> u32 \<Rightarrow> u8 list" where
  "tcp_pseudo_header source destination segment_bytes =
     (let p1 = WriteWord32Be (WriteWord32Be (replicate 12 0) 0 source) 4 destination
      in WriteWord16Be (p1[8 := 0, 9 := kIpv4ProtocolTcp]) 10 (ucast segment_bytes))"

text \<open>The segment is the first \<open>segment_bytes\<close> bytes of its buffer.\<close>

definition seal_checksum :: "u8 list \<Rightarrow> nat \<Rightarrow> u32 \<Rightarrow> u32 \<Rightarrow> u8 list" where
  "seal_checksum segment segment_bytes source destination =
     (let checksum = checksum_value_of
            [tcp_pseudo_header source destination (of_nat segment_bytes), take segment_bytes segment]
      in WriteWord16Be segment 16 (if checksum = 0 then 0xFFFF else checksum))"

definition TcpModule_receive_window_of :: "Connection \<Rightarrow> u16" where
  "TcpModule_receive_window_of connection = of_nat (kTcpReceiveWindowBytes - RingQueue_count (tc_inbox connection))"

text \<open>The header both kinds of segment share, and the two builders.\<close>

definition tcp_header ::
    "u8 list \<Rightarrow> u16 \<Rightarrow> u16 \<Rightarrow> u32 \<Rightarrow> u32 \<Rightarrow> u8 \<Rightarrow> u16 \<Rightarrow> u8 list" where
  "tcp_header buffer local_port remote_port sequence acknowledgement flags window =
     (let o1 = WriteWord16Be (WriteWord16Be buffer 0 local_port) 2 remote_port;
          o2 = WriteWord32Be (WriteWord32Be o1 4 sequence) 8 acknowledgement;
          o3 = o2[12 := ucast (push_bit 4 (of_nat (kTcpHeaderBytes div 4) :: u64)), 13 := flags];
          o4 = WriteWord16Be o3 14 window
      in WriteWord16Be (WriteWord16Be o4 16 0) 18 0)"

definition tcp_outgoing :: "u32 \<Rightarrow> Connection \<Rightarrow> u8 \<Rightarrow> u8 list \<Rightarrow> u32 \<Rightarrow> u8 list" where
  "tcp_outgoing own_address connection flags payload sequence =
     (let outgoing = copy_into
            (tcp_header (replicate kMaxDatagramBytes 0) (tc_local_port connection) (tc_remote_port connection) sequence
               (tc_rcv_nxt connection) flags (TcpModule_receive_window_of connection))
            kTcpHeaderBytes payload
      in seal_checksum outgoing (kTcpHeaderBytes + length payload)
           (SourceAddressFor own_address (tc_remote_address connection)) (tc_remote_address connection))"

definition TcpModule_transmit_segment ::
    "Connection \<Rightarrow> u8 \<Rightarrow> u8 list \<Rightarrow> u32 \<Rightarrow> TcpModule \<Rightarrow> TcpModule" where
  "TcpModule_transmit_segment connection flags payload sequence m =
     (if \<not> DatagramSink_assigned (tm_sink m) then m
      else upd_stats (\<lambda>s. s\<lparr>st_segments_sent := st_segments_sent s + 1\<rparr>)
        (m\<lparr>tm_sent := tm_sent m @
            [(tm_sink m, \<lparr>od_destination = tc_remote_address connection, od_protocol = kIpv4ProtocolTcp,
               od_payload = take (kTcpHeaderBytes + length payload)
                 (tcp_outgoing (tm_own_address m) connection flags payload sequence)\<rparr>)]\<rparr>))"

definition TcpModule_transmit_rst ::
    "u32 \<Rightarrow> u16 \<Rightarrow> u16 \<Rightarrow> u32 \<Rightarrow> u32 \<Rightarrow> bool \<Rightarrow> TcpModule \<Rightarrow> TcpModule" where
  "TcpModule_transmit_rst remote_address remote_port local_port sequence acknowledgement with_ack m =
     (if \<not> DatagramSink_assigned (tm_sink m) then m
      else let flags = (if with_ack then kTcpFlagRst OR kTcpFlagAck else kTcpFlagRst);
               outgoing = tcp_header (replicate kTcpHeaderBytes 0) local_port remote_port sequence acknowledgement flags 0;
               sealed = seal_checksum outgoing kTcpHeaderBytes (SourceAddressFor (tm_own_address m) remote_address) remote_address
        in upd_stats (\<lambda>s. s\<lparr>st_resets_sent := st_resets_sent s + 1\<rparr>)
             (m\<lparr>tm_sent := tm_sent m @
                 [(tm_sink m, \<lparr>od_destination = remote_address, od_protocol = kIpv4ProtocolTcp, od_payload = sealed\<rparr>)]\<rparr>))"

section \<open>Tables\<close>

definition TcpModule_init :: "DatagramSink \<Rightarrow> u32 \<Rightarrow> TcpModule \<Rightarrow> TcpModule" where
  "TcpModule_init sink own_address m = m\<lparr>tm_sink := sink, tm_own_address := own_address, tm_stats := TcpStats_zero\<rparr>"

definition TcpModule_aim :: "DatagramSink \<Rightarrow> u32 \<Rightarrow> TcpModule \<Rightarrow> TcpModule" where
  "TcpModule_aim sink own_address m = m\<lparr>tm_sink := sink, tm_own_address := own_address\<rparr>"

definition TcpModule_find_connection :: "u32 \<Rightarrow> u16 \<Rightarrow> u16 \<Rightarrow> TcpModule \<Rightarrow> nat option" where
  "TcpModule_find_connection remote_address remote_port local_port m =
     find (\<lambda>k. tc_used (conn m k) \<and> tc_remote_address (conn m k) = remote_address \<and>
               tc_remote_port (conn m k) = remote_port \<and> tc_local_port (conn m k) = local_port)
       [0..<kTcpConnectionSeats]"

definition TcpModule_live_connection :: "TcpTicket \<Rightarrow> TcpModule \<Rightarrow> nat option" where
  "TcpModule_live_connection ticket m =
     (if tt_slot ticket \<ge> kTcpConnectionSeats then None
      else if \<not> tc_used (conn m (tt_slot ticket)) \<or> tc_stamp (conn m (tt_slot ticket)) \<noteq> tt_stamp ticket then None
      else Some (tt_slot ticket))"

definition TcpModule_find_listen :: "u16 \<Rightarrow> TcpModule \<Rightarrow> nat option" where
  "TcpModule_find_listen port m =
     find (\<lambda>i. ls_used (tm_listens m ! i) \<and> ls_port (tm_listens m ! i) = port) [0..<kTcpListenSeats]"

definition TcpModule_claim_free_connection :: "TcpModule \<Rightarrow> nat option \<times> TcpModule" where
  "TcpModule_claim_free_connection m =
     (case find (\<lambda>k. \<not> tc_used (conn m k)) [0..<kTcpConnectionSeats] of
        None \<Rightarrow> (None, m)
      | Some k \<Rightarrow> (Some k, upd_conn k (\<lambda>c. Connection_empty\<lparr>tc_used := True, tc_stamp := tc_stamp c + 1\<rparr>) m))"

definition tcp_port_taken :: "u16 \<Rightarrow> TcpModule \<Rightarrow> bool" where
  "tcp_port_taken candidate m \<longleftrightarrow>
     (\<exists>i<kTcpListenSeats. ls_used (tm_listens m ! i) \<and> ls_port (tm_listens m ! i) = candidate) \<or>
     (\<exists>k<kTcpConnectionSeats. tc_used (conn m k) \<and> tc_local_port (conn m k) = candidate)"

definition TcpModule_pick_local_port :: "TcpModule \<Rightarrow> u16 \<times> TcpModule" where
  "TcpModule_pick_local_port m =
     (case find (\<lambda>scan. \<not> tcp_port_taken (ephemeral_candidate (tm_ephemeral_cursor m) scan) m)
             [0..<kEphemeralPortLast - kEphemeralPortFirst + 1] of
        Some scan \<Rightarrow> (let kCandidate = ephemeral_candidate (tm_ephemeral_cursor m) scan
                      in (kCandidate, m\<lparr>tm_ephemeral_cursor := ucast kCandidate\<rparr>))
      | None \<Rightarrow> (0, m))"

section \<open>Timers of a connection\<close>

definition TcpModule_disarm_rto_guard :: "nat \<Rightarrow> TcpModule \<Rightarrow> TcpModule" where
  "TcpModule_disarm_rto_guard k m =
     (if \<not> tc_rto_armed (conn m k) then m
      else upd_conn k (\<lambda>c. c\<lparr>tc_rto_armed := False\<rparr>)
             (m\<lparr>tm_timers := snd (TimerTable_cancel (tc_rto_seat (conn m k)) (tm_timers m))\<rparr>))"

definition TcpModule_arm_rto_guard :: "nat \<Rightarrow> TcpModule \<Rightarrow> TcpModule" where
  "TcpModule_arm_rto_guard k m =
     (let c = conn m k in
      if tc_rto_armed c then m
      else let kWait = (if tc_rto_ns c \<noteq> 0 then tc_rto_ns c else kTcpInitialRtoNanoseconds) in
        case TimerTable_arm (Some k) (Some on_rto_due) (tc_oldest_sent_ns c + kWait) (tm_timers m) of
          (Inr kSeat, timers) \<Rightarrow>
            upd_conn k (\<lambda>c. c\<lparr>tc_rto_seat := kSeat, tc_rto_armed := True\<rparr>) (m\<lparr>tm_timers := timers\<rparr>)
        | (Inl _, timers) \<Rightarrow> m\<lparr>tm_timers := timers\<rparr>)"

definition TcpModule_begin_time_wait :: "nat \<Rightarrow> TcpModule \<Rightarrow> TcpModule" where
  "TcpModule_begin_time_wait k m =
     (let m1 = TcpModule_disarm_rto_guard k (upd_conn k (\<lambda>c. c\<lparr>tc_state := TcpState_kTimeWait\<rparr>) m) in
      if tc_time_wait_armed (conn m1 k) then m1
      else case TimerTable_arm (Some k) (Some on_time_wait_due) (tm_service_now_ns m1 + 2 * kTcpMslNanoseconds) (tm_timers m1) of
          (Inr kSeat, timers) \<Rightarrow>
            upd_conn k (\<lambda>c. c\<lparr>tc_time_wait_seat := kSeat, tc_time_wait_armed := True\<rparr>) (m1\<lparr>tm_timers := timers\<rparr>)
        | (Inl _, timers) \<Rightarrow> m1\<lparr>tm_timers := timers\<rparr>)"

definition TcpModule_release_connection ::
    "nat \<Rightarrow> PendingFire \<Rightarrow> TcpFarewell \<Rightarrow> TcpModule \<Rightarrow> PendingFire \<times> TcpModule" where
  "TcpModule_release_connection k fire farewell m =
     (let m1 = TcpModule_disarm_rto_guard k m;
          m2 = (if tc_time_wait_armed (conn m1 k)
                then upd_conn k (\<lambda>c. c\<lparr>tc_time_wait_armed := False\<rparr>)
                       (m1\<lparr>tm_timers := snd (TimerTable_cancel (tc_time_wait_seat (conn m1 k)) (tm_timers m1))\<rparr>)
                else m1)
      in (fire\<lparr>pf_events := tc_events (conn m2 k), pf_ended := True, pf_farewell := farewell\<rparr>,
          upd_conn k (\<lambda>c. Connection_empty\<lparr>tc_stamp := tc_stamp c + 1\<rparr>) m2))"

section \<open>Round-trip estimation\<close>

definition TcpModule_current_rto_of :: "Connection \<Rightarrow> u64" where
  "TcpModule_current_rto_of c =
     (if tc_srtt_ns c = 0 then kTcpInitialRtoNanoseconds
      else let kSpread = (if tc_rttvar_ns c * 4 > kTcpRtoGranularityNanoseconds then tc_rttvar_ns c * 4
                          else kTcpRtoGranularityNanoseconds)
           in min (tc_srtt_ns c + kSpread) kTcpMaxRtoNanoseconds)"

definition TcpModule_take_rtt_sample :: "u64 \<Rightarrow> Connection \<Rightarrow> Connection" where
  "TcpModule_take_rtt_sample now c =
     (if tc_in_retransmission c \<or> tc_oldest_sent_ns c = 0 then c
      else if now \<le> tc_oldest_sent_ns c then c
      else let kSample = now - tc_oldest_sent_ns c;
               c1 = (if tc_srtt_ns c = 0 then c\<lparr>tc_srtt_ns := kSample, tc_rttvar_ns := kSample div 2\<rparr>
                     else let kDiff = (if tc_srtt_ns c > kSample then tc_srtt_ns c - kSample else kSample - tc_srtt_ns c)
                          in c\<lparr>tc_rttvar_ns := (3 * tc_rttvar_ns c + kDiff) div 4,
                               tc_srtt_ns := (7 * tc_srtt_ns c + kSample) div 8\<rparr>)
           in c1\<lparr>tc_rto_ns := TcpModule_current_rto_of c1\<rparr>)"

definition TcpModule_after_ack_movement :: "nat \<Rightarrow> bool \<Rightarrow> u64 \<Rightarrow> TcpModule \<Rightarrow> TcpModule" where
  "TcpModule_after_ack_movement k moved now m =
     (if \<not> moved then m
      else let m1 = upd_conn k (\<lambda>c. c\<lparr>tc_in_retransmission := False, tc_retransmit_count := 0\<rparr>) m in
        if tc_snd_una (conn m1 k) = tc_snd_nxt (conn m1 k)
        then upd_conn k (\<lambda>c. c\<lparr>tc_oldest_sent_ns := 0\<rparr>)
               (TcpModule_disarm_rto_guard k (upd_conn k (TcpModule_take_rtt_sample now) m1))
        else m1)"


section \<open>Retransmission\<close>

text \<open>The bytes copied out of the outbox: the copy stops at the first position that holds none.\<close>

definition tcp_peeked :: "nat \<Rightarrow> u8 RingQueue \<Rightarrow> u8 list" where
  "tcp_peeked stretch q =
     (let got = takeWhile (\<lambda>b. b \<noteq> None) (map (\<lambda>index. RingQueue_peek index q) [0..<stretch])
      in map the got @ replicate (stretch - length got) 0)"

definition TcpModule_resend_oldest :: "nat \<Rightarrow> TcpModule \<Rightarrow> TcpModule" where
  "TcpModule_resend_oldest k m =
     (let m1 = upd_conn k (\<lambda>c. c\<lparr>tc_in_retransmission := True\<rparr>) m; c = conn m1 k in
      if tc_state c = TcpState_kSynSent then TcpModule_transmit_segment c kTcpFlagSyn [] (tc_snd_una c) m1
      else if RingQueue_count (tc_outbox c) = 0 \<and>
              (tc_state c = TcpState_kFinWait1 \<or> tc_state c = TcpState_kClosing \<or> tc_state c = TcpState_kLastAck)
      then TcpModule_transmit_segment c (kTcpFlagFin OR kTcpFlagAck) [] (tc_snd_una c) m1
      else let kInFlight = tc_snd_nxt c - tc_snd_una c;
               stretch = min (if kInFlight < of_nat kTcpMssBytes then unat kInFlight else kTcpMssBytes)
                             (RingQueue_count (tc_outbox c))
        in if stretch = 0 then m1
           else TcpModule_transmit_segment c (kTcpFlagAck OR kTcpFlagPsh) (tcp_peeked stretch (tc_outbox c))
                  (tc_snd_una c) m1)"

definition tcp_note_fire :: "PendingFire \<Rightarrow> TcpModule \<Rightarrow> TcpModule" where
  "tcp_note_fire fire m =
     (if tm_service_fire_count m < kTcpConnectionSeats
      then m\<lparr>tm_service_fires := (tm_service_fires m)[tm_service_fire_count m := fire],
             tm_service_fire_count := tm_service_fire_count m + 1\<rparr>
      else m)"

definition TcpModule_expire_time_wait :: "nat \<Rightarrow> TcpModule \<Rightarrow> TcpModule" where
  "TcpModule_expire_time_wait k m =
     (let m1 = upd_conn k (\<lambda>c. c\<lparr>tc_time_wait_armed := False\<rparr>) m in
      if \<not> tc_used (conn m1 k) \<or> tc_state (conn m1 k) \<noteq> TcpState_kTimeWait then m1
      else case TcpModule_release_connection k PendingFire_none TcpFarewell_kGraceful m1 of
             (fire, m2) \<Rightarrow> tcp_note_fire fire m2)"

definition TcpModule_retransmit_due :: "nat \<Rightarrow> TcpModule \<Rightarrow> TcpModule" where
  "TcpModule_retransmit_due k m =
     (let m1 = upd_conn k (\<lambda>c. c\<lparr>tc_rto_armed := False\<rparr>) m in
      if \<not> tc_used (conn m1 k) then m1
      else let m2 = upd_stats (\<lambda>s. s\<lparr>st_rto_timeouts := st_rto_timeouts s + 1\<rparr>) m1 in
        if tc_retransmit_count (conn m2 k) \<ge> kTcpMaxRetransmits then
          case TcpModule_release_connection k PendingFire_none TcpFarewell_kUnreachable
                 (upd_stats (\<lambda>s. s\<lparr>st_giveups := st_giveups s + 1\<rparr>) m2) of
            (fire, m3) \<Rightarrow> tcp_note_fire fire m3
        else
          let m3 = upd_stats (\<lambda>s. s\<lparr>st_retransmits_sent := st_retransmits_sent s + 1\<rparr>)
                     (upd_conn k (\<lambda>c. c\<lparr>tc_retransmit_count := tc_retransmit_count c + 1\<rparr>) m2);
              m4 = TcpModule_resend_oldest k m3;
              wait = min ((if tc_rto_ns (conn m4 k) \<noteq> 0 then tc_rto_ns (conn m4 k) else kTcpInitialRtoNanoseconds) * 2)
                         kTcpMaxRtoNanoseconds;
              m5 = upd_conn k (\<lambda>c. c\<lparr>tc_rto_ns := wait\<rparr>) m4
          in case TimerTable_arm (Some k) (Some on_rto_due) (tm_service_now_ns m5 + wait) (tm_timers m5) of
               (Inr kSeat, timers) \<Rightarrow>
                 upd_conn k (\<lambda>c. c\<lparr>tc_rto_seat := kSeat, tc_rto_armed := True\<rparr>) (m5\<lparr>tm_timers := timers\<rparr>)
             | (Inl _, timers) \<Rightarrow> m5\<lparr>tm_timers := timers\<rparr>)"

text \<open>The callbacks the timer table runs, both static members of the module.\<close>

definition tcp_timer_call :: "TcpTimerCall option \<Rightarrow> nat option \<Rightarrow> TcpModule \<Rightarrow> TcpModule" where
  "tcp_timer_call call ctx m =
     (case (call, ctx) of
        (Some on_rto_due, Some k) \<Rightarrow> if tc_owner (conn m k) then TcpModule_retransmit_due k m else m
      | (Some on_time_wait_due, Some k) \<Rightarrow> if tc_owner (conn m k) then TcpModule_expire_time_wait k m else m
      | _ \<Rightarrow> m)"

section \<open>Receiving\<close>

definition has_flag :: "u8 \<Rightarrow> TcpView \<Rightarrow> bool" where
  "has_flag flag view \<longleftrightarrow> tv_flags view AND flag \<noteq> 0"

definition tcp_drop_reorder :: "TcpModule \<Rightarrow> TcpModule" where
  "tcp_drop_reorder = upd_stats (\<lambda>s. s\<lparr>st_out_of_order_dropped := st_out_of_order_dropped s + 1\<rparr>)"

definition TcpModule_store_out_of_order :: "nat \<Rightarrow> TcpView \<Rightarrow> u8 list \<Rightarrow> TcpModule \<Rightarrow> TcpModule" where
  "TcpModule_store_out_of_order k view payload m =
     (let c = conn m k; kStart = tv_sequence view; kEnd = kStart + of_nat (length payload) in
      if has_flag kTcpFlagFin view \<or> length payload = 0 \<or> length payload > kTcpMssBytes then tcp_drop_reorder m
      else if \<not> seq_before kStart (tc_rcv_nxt c + of_nat kTcpReceiveWindowBytes) then tcp_drop_reorder m
      else if \<exists>seat\<in>set (tc_reorder c). rs_used seat \<and> seq_before kStart (rs_start seat + of_nat (rs_bytes seat)) \<and>
                seq_before (rs_start seat) kEnd
      then tcp_drop_reorder m
      else case find (\<lambda>i. \<not> rs_used (tc_reorder c ! i)) [0..<kTcpReorderSeats] of
             Some i \<Rightarrow>
               upd_stats (\<lambda>s. s\<lparr>st_out_of_order_stored := st_out_of_order_stored s + 1\<rparr>)
                 (upd_conn k (\<lambda>c. c\<lparr>tc_reorder := (tc_reorder c)[i :=
                    \<lparr>rs_used = True, rs_start = kStart, rs_bytes = length payload,
                     rs_data = copy_into (rs_data (tc_reorder c ! i)) 0 payload\<rparr>]\<rparr>) m)
           | None \<Rightarrow> tcp_drop_reorder m)"

text \<open>Bytes pushed into a queue one by one, each answer ignored.\<close>

fun push_bytes :: "u8 list \<Rightarrow> u8 RingQueue \<Rightarrow> u8 RingQueue" where
  "push_bytes [] q = q"
| "push_bytes (b # bs) q = push_bytes bs (snd (RingQueue_push b q))"

text \<open>One seat of a harvest pass: the connection, the statistics, and whether anything came.\<close>

definition harvest_seat ::
    "nat \<Rightarrow> Connection \<times> TcpStats \<times> bool \<Rightarrow> Connection \<times> TcpStats \<times> bool" where
  "harvest_seat i = (\<lambda>(c, s, delivered).
     let seat = tc_reorder c ! i; kRoom = kTcpReceiveWindowBytes - RingQueue_count (tc_inbox c) in
     if \<not> rs_used seat \<or> rs_start seat \<noteq> tc_rcv_nxt c then (c, s, delivered)
     else if rs_bytes seat > kRoom then (c, s, delivered)
     else (c\<lparr>tc_inbox := push_bytes (take (rs_bytes seat) (rs_data seat)) (tc_inbox c),
             tc_rcv_nxt := tc_rcv_nxt c + of_nat (rs_bytes seat),
             tc_reorder := (tc_reorder c)[i := ReorderSeat_empty]\<rparr>,
           s\<lparr>st_bytes_delivered := st_bytes_delivered s + of_nat (rs_bytes seat),
             st_out_of_order_recovered := st_out_of_order_recovered s + 1\<rparr>,
           True))"

definition harvest_pass :: "Connection \<times> TcpStats \<Rightarrow> Connection \<times> TcpStats \<times> bool" where
  "harvest_pass = (\<lambda>(c, s). fold harvest_seat [0..<kTcpReorderSeats] (c, s, False))"

definition reorder_load :: "Connection \<Rightarrow> nat" where
  "reorder_load c = length (filter rs_used (tc_reorder c))"

lemma ReorderSeat_empty_unused [simp]: "\<not> rs_used ReorderSeat_empty"
  by (simp add: ReorderSeat_empty_def)

lemma filter_update_drop:
  "i < length xs \<Longrightarrow> P (xs ! i) \<Longrightarrow> \<not> P y \<Longrightarrow> length (filter P (xs[i := y])) < length (filter P xs)"
proof -
  assume a: "i < length xs" "P (xs ! i)" "\<not> P y"
  have "length (filter P (xs[i := y])) = length (filter P (take i xs)) + length (filter P (drop (Suc i) xs))"
    using a by (simp add: upd_conv_take_nth_drop)
  moreover have "length (filter P xs) = length (filter P (take i xs)) + 1 + length (filter P (drop (Suc i) xs))"
    using a by (subst id_take_nth_drop[OF a(1)]) simp
  ultimately show ?thesis by simp
qed

lemma harvest_seat_load:
  assumes "harvest_seat i (c, s, d) = (c', s', d')"
  shows "(c' = c \<and> d' = d) \<or> (d' \<and> (i < length (tc_reorder c) \<longrightarrow> reorder_load c' < reorder_load c) \<and>
           (length (tc_reorder c) \<le> i \<longrightarrow> reorder_load c' = reorder_load c))"
    and "length (tc_reorder c') = length (tc_reorder c)"
  using assms
  by (auto simp: harvest_seat_def Let_def reorder_load_def filter_update_drop list_update_beyond split: if_splits)

lemma harvest_fold_load:
  assumes "fold harvest_seat is (c, s, d) = (c', s', d')" "\<forall>i\<in>set is. i < length (tc_reorder c)"
  shows "length (tc_reorder c') = length (tc_reorder c) \<and> reorder_load c' \<le> reorder_load c \<and>
    (d' \<longrightarrow> d \<or> reorder_load c' < reorder_load c)"
  using assms
proof (induction "is" arbitrary: c s d)
  case (Cons i "is")
  obtain c1 s1 d1 where one: "harvest_seat i (c, s, d) = (c1, s1, d1)" by (metis prod_cases3)
  note f = harvest_seat_load[OF one]
  have ih: "length (tc_reorder c') = length (tc_reorder c1) \<and> reorder_load c' \<le> reorder_load c1 \<and>
      (d' \<longrightarrow> d1 \<or> reorder_load c' < reorder_load c1)"
    using Cons.IH[of c1 s1 d1] Cons.prems one f(2) by simp
  then show ?case using f Cons.prems(2) by auto
qed simp

text \<open>
  The repeat loop of a harvest ends because every pass that delivers something empties a seat. A
  connection has four seats; the loop is written to stop at once for any other number of them.
\<close>

function harvest_loop :: "Connection \<times> TcpStats \<times> bool \<Rightarrow> Connection \<times> TcpStats \<times> bool" where
  "harvest_loop (c, s, data) =
     (if length (tc_reorder c) \<noteq> kTcpReorderSeats then (c, s, data)
      else case harvest_pass (c, s) of
             (c', s', delivered) \<Rightarrow> if delivered then harvest_loop (c', s', True) else (c', s', data))"
  by pat_completeness auto
termination
proof (relation "measure (\<lambda>(c, s, d). reorder_load c)")
  fix c s c' y s' delivered and data :: bool
  assume "\<not> length (tc_reorder c) \<noteq> kTcpReorderSeats" "(c', y) = harvest_pass (c, s)" "(s', delivered) = y" "delivered"
  then have "length (tc_reorder c) = 4" "fold harvest_seat [0..<4] (c, s, False) = (c', s', delivered)" "delivered"
    by (simp_all add: harvest_pass_def)
  then have "reorder_load c' < reorder_load c"
    using harvest_fold_load[of "[0..<4]" c s False c' s' delivered] by simp
  then show "((c', s', True), c, s, data) \<in> measure (\<lambda>(c, s, d). reorder_load c)"
    by (simp only: in_measure prod.case)
qed simp

declare harvest_loop.simps [simp del]

definition TcpModule_harvest_reorder :: "nat \<Rightarrow> PendingFire \<Rightarrow> TcpModule \<Rightarrow> PendingFire \<times> TcpModule" where
  "TcpModule_harvest_reorder k fire m =
     (case harvest_loop (conn m k, tm_stats m, pf_data fire) of
        (c, s, data) \<Rightarrow> (fire\<lparr>pf_data := data\<rparr>, upd_conn k (\<lambda>_. c) (m\<lparr>tm_stats := s\<rparr>)))"


definition TcpModule_absorb_bytes ::
    "nat \<Rightarrow> TcpView \<Rightarrow> u8 list \<Rightarrow> nat \<Rightarrow> PendingFire \<Rightarrow> TcpModule \<Rightarrow> PendingFire \<times> TcpModule" where
  "TcpModule_absorb_bytes k view payload segment_length fire m =
     (let c = conn m k;
          kEnd = tv_sequence view + of_nat segment_length;
          kOffset = (ucast (tc_rcv_nxt c - tv_sequence view) :: u64);
          kPayloadSkip = kOffset - (if has_flag kTcpFlagSyn view then 1 else 0);
          taken = (if unat kPayloadSkip < length payload
                   then min (length payload - unat kPayloadSkip) (kTcpReceiveWindowBytes - RingQueue_count (tc_inbox c)) else 0);
          m1 = (if unat kPayloadSkip < length payload
                then upd_stats (\<lambda>s. s\<lparr>st_bytes_delivered := st_bytes_delivered s + of_nat taken\<rparr>)
                       (upd_conn k (\<lambda>c. c\<lparr>tc_inbox := push_bytes (take taken (drop (unat kPayloadSkip) payload)) (tc_inbox c),
                                          tc_rcv_nxt := tc_rcv_nxt c + of_nat taken\<rparr>) m)
                else m);
          fire1 = (if taken \<noteq> 0 then fire\<lparr>pf_data := True\<rparr> else fire);
          fin_done = (has_flag kTcpFlagFin view \<and> tc_rcv_nxt (conn m1 k) + 1 = kEnd);
          m2 = (if fin_done
                then let m' = upd_conn k (\<lambda>c. c\<lparr>tc_rcv_nxt := kEnd\<rparr>) m1 in
                  case tc_state (conn m' k) of
                    TcpState_kEstablished \<Rightarrow> upd_conn k (\<lambda>c. c\<lparr>tc_state := TcpState_kCloseWait\<rparr>) m'
                  | TcpState_kSynReceived \<Rightarrow> upd_conn k (\<lambda>c. c\<lparr>tc_state := TcpState_kCloseWait\<rparr>) m'
                  | TcpState_kFinWait1 \<Rightarrow> upd_conn k (\<lambda>c. c\<lparr>tc_state := TcpState_kClosing\<rparr>) m'
                  | TcpState_kFinWait2 \<Rightarrow>
                      TcpModule_begin_time_wait k (upd_conn k (\<lambda>c. c\<lparr>tc_state := TcpState_kTimeWait\<rparr>) m')
                  | _ \<Rightarrow> m'
                else m1)
      in (fire1, if taken \<noteq> 0 \<or> fin_done
                 then TcpModule_transmit_segment (conn m2 k) kTcpFlagAck [] (tc_snd_nxt (conn m2 k)) m2 else m2))"

text \<open>The pops that release acknowledged bytes, stopping when the outbox is empty.\<close>

fun release_bytes :: "nat \<Rightarrow> u8 RingQueue \<Rightarrow> u8 RingQueue" where
  "release_bytes 0 q = q"
| "release_bytes (Suc n) q = (case RingQueue_pop 0 q of (None, q') \<Rightarrow> q' | (Some _, q') \<Rightarrow> release_bytes n q')"

text \<open>The acknowledgement moves the window, or counts as a duplicate and may cause a fast retransmit.\<close>

definition tcp_slide :: "nat \<Rightarrow> TcpView \<Rightarrow> nat \<Rightarrow> TcpModule \<Rightarrow> TcpModule" where
  "tcp_slide k view segment_length m =
     (let c = conn m k in
      if has_flag kTcpFlagAck view \<and> seq_before (tc_snd_una c) (tv_acknowledgement view)
      then upd_conn k (\<lambda>c. c\<lparr>tc_snd_una := tv_acknowledgement view,
             tc_outbox := release_bytes (unat (tv_acknowledgement view - tc_snd_una c)) (tc_outbox c),
             tc_duplicate_acks := 0\<rparr>) m
      else if has_flag kTcpFlagAck view \<and> tv_acknowledgement view = tc_snd_una c \<and> segment_length = 0 \<and>
              tc_snd_una c \<noteq> tc_snd_nxt c
      then let m' = upd_conn k (\<lambda>c. c\<lparr>tc_duplicate_acks := tc_duplicate_acks c + 1\<rparr>) m in
        if tc_duplicate_acks (conn m' k) \<ge> kTcpFastRetransmitAcks
        then TcpModule_resend_oldest k
               (upd_stats (\<lambda>s. s\<lparr>st_fast_retransmits := st_fast_retransmits s + 1\<rparr>)
                 (upd_conn k (\<lambda>c. c\<lparr>tc_duplicate_acks := 0\<rparr>) m'))
        else m'
      else m)"

definition TcpModule_absorb_ack ::
    "nat \<Rightarrow> TcpView \<Rightarrow> nat \<Rightarrow> PendingFire \<Rightarrow> TcpModule \<Rightarrow> bool \<times> PendingFire \<times> TcpModule" where
  "TcpModule_absorb_ack k view segment_length fire m =
     (let m0 = (if has_flag kTcpFlagAck view then upd_conn k (\<lambda>c. c\<lparr>tc_snd_window := ucast (tv_window view)\<rparr>) m else m);
          c = conn m0 k
      in if has_flag kTcpFlagAck view \<and> seq_before (tc_snd_una c) (tv_acknowledgement view) \<and>
            seq_before (tc_snd_nxt c) (tv_acknowledgement view)
         then (True, fire, upd_stats (\<lambda>s. s\<lparr>st_ack_beyond_dropped := st_ack_beyond_dropped s + 1\<rparr>) m0)
         else
           let m1 = tcp_slide k view segment_length m0;
               c1 = conn m1 k; settled = (tc_snd_una c1 = tc_snd_nxt c1)
           in if settled \<and> tc_state c1 = TcpState_kClosing then (True, fire, TcpModule_begin_time_wait k m1)
              else if settled \<and> tc_state c1 = TcpState_kLastAck then
                case TcpModule_release_connection k fire TcpFarewell_kGraceful m1 of (fire', m2) \<Rightarrow> (True, fire', m2)
              else
                let m2 = (if settled \<and> tc_state c1 = TcpState_kFinWait1
                          then upd_conn k (\<lambda>c. c\<lparr>tc_state := TcpState_kFinWait2\<rparr>) m1 else m1)
                in (segment_length = 0 \<and> tv_sequence view = tc_rcv_nxt (conn m2 k), fire, m2))"

text \<open>The part of \<^verbatim>\<open>absorb_segment\<close> behind its state switch.\<close>

definition tcp_absorb_tail ::
    "nat \<Rightarrow> TcpView \<Rightarrow> u8 list \<Rightarrow> nat \<Rightarrow> PendingFire \<Rightarrow> TcpModule \<Rightarrow> PendingFire \<times> TcpModule" where
  "tcp_absorb_tail k view payload segment_length fire m =
     (case TcpModule_absorb_ack k view segment_length fire m of
        (True, fire1, m1) \<Rightarrow> (fire1, m1)
      | (False, fire1, m1) \<Rightarrow>
          let c = conn m1 k; kEnd = tv_sequence view + of_nat segment_length in
          if seq_before_eq kEnd (tc_rcv_nxt c) then
            (fire1, TcpModule_transmit_segment c kTcpFlagAck [] (tc_snd_nxt c)
                      (upd_stats (\<lambda>s. s\<lparr>st_stale_dropped := st_stale_dropped s + 1\<rparr>) m1))
          else if seq_before (tc_rcv_nxt c) (tv_sequence view) then
            (case TcpModule_harvest_reorder k fire1 (TcpModule_store_out_of_order k view payload m1) of
               (fire2, m2) \<Rightarrow> (fire2, TcpModule_transmit_segment (conn m2 k) kTcpFlagAck [] (tc_snd_nxt (conn m2 k)) m2))
          else
            (case TcpModule_absorb_bytes k view payload segment_length fire1 m1 of
               (fire2, m2) \<Rightarrow> TcpModule_harvest_reorder k fire2 m2))"

text \<open>A connection whose handshake completed joins its listener's accept queue, when there is room.\<close>

definition tcp_queue_accepted :: "nat \<Rightarrow> TcpModule \<Rightarrow> TcpModule" where
  "tcp_queue_accepted k m =
     (case TcpModule_find_listen (tc_local_port (conn m k)) m of
        Some i \<Rightarrow>
          if ls_accepted_count (tm_listens m ! i) < kTcpAcceptQueueSeats
          then m\<lparr>tm_listens := (tm_listens m)[i := (tm_listens m ! i)\<lparr>
                 ls_accepted := (ls_accepted (tm_listens m ! i))[ls_accepted_count (tm_listens m ! i) :=
                                  \<lparr>tt_slot = k, tt_stamp = tc_stamp (conn m k)\<rparr>],
                 ls_accepted_count := ls_accepted_count (tm_listens m ! i) + 1\<rparr>]\<rparr>
          else m
      | None \<Rightarrow> m)"

definition TcpModule_absorb_segment ::
    "nat \<Rightarrow> TcpView \<Rightarrow> u8 list \<Rightarrow> nat \<Rightarrow> PendingFire \<Rightarrow> TcpModule \<Rightarrow> PendingFire \<times> TcpModule" where
  "TcpModule_absorb_segment k view payload segment_length fire m =
     (let fire0 = fire\<lparr>pf_events := tc_events (conn m k)\<rparr>; c = conn m k in
      if has_flag kTcpFlagRst view then
        TcpModule_release_connection k fire0 TcpFarewell_kReset
          (upd_stats (\<lambda>s. s\<lparr>st_resets_received := st_resets_received s + 1\<rparr>) m)
      else case tc_state c of
        TcpState_kSynSent \<Rightarrow>
          if tv_flags view AND (kTcpFlagSyn OR kTcpFlagAck) \<noteq> kTcpFlagSyn OR kTcpFlagAck then (fire0, m)
          else if tv_acknowledgement view \<noteq> tc_snd_nxt c
          then (fire0, upd_stats (\<lambda>s. s\<lparr>st_ack_beyond_dropped := st_ack_beyond_dropped s + 1\<rparr>) m)
          else let m1 = upd_conn k (\<lambda>c. c\<lparr>tc_rcv_nxt := tv_sequence view + 1, tc_snd_una := tv_acknowledgement view,
                                          tc_snd_window := ucast (tv_window view), tc_state := TcpState_kEstablished\<rparr>) m
               in (fire0, TcpModule_transmit_segment (conn m1 k) kTcpFlagAck [] (tc_snd_nxt (conn m1 k)) m1)
      | TcpState_kSynReceived \<Rightarrow>
          if \<not> has_flag kTcpFlagAck view then
            (fire0, if has_flag kTcpFlagSyn view \<and> tv_sequence view + 1 = tc_rcv_nxt c \<and> segment_length = 1
                    then TcpModule_transmit_segment c (kTcpFlagSyn OR kTcpFlagAck) [] (tc_snd_una c) m else m)
          else if tv_acknowledgement view \<noteq> tc_snd_nxt c
          then (fire0, upd_stats (\<lambda>s. s\<lparr>st_ack_beyond_dropped := st_ack_beyond_dropped s + 1\<rparr>) m)
          else
            let m1 = upd_stats (\<lambda>s. s\<lparr>st_accepted := st_accepted s + 1\<rparr>)
                       (upd_conn k (\<lambda>c. c\<lparr>tc_snd_una := tv_acknowledgement view, tc_state := TcpState_kEstablished\<rparr>) m);
                fire1 = fire0\<lparr>pf_events := tc_events (conn m1 k), pf_accepted := True\<rparr>;
                m2 = tcp_queue_accepted k m1
            in tcp_absorb_tail k view payload segment_length fire1 m2
      | TcpState_kTimeWait \<Rightarrow> (fire0, TcpModule_transmit_segment c kTcpFlagAck [] (tc_snd_nxt c) m)
      | TcpState_kClosed \<Rightarrow> (fire0, m)
      | _ \<Rightarrow> tcp_absorb_tail k view payload segment_length fire0 m)"

definition TcpModule_answer_unclaimed :: "Ipv4View \<Rightarrow> TcpView \<Rightarrow> nat \<Rightarrow> TcpModule \<Rightarrow> TcpModule" where
  "TcpModule_answer_unclaimed header view segment_length m =
     (let rst = TcpModule_transmit_rst (i4_source header) (tv_source_port view) (tv_destination_port view) in
      if has_flag kTcpFlagSyn view \<and> \<not> has_flag kTcpFlagAck view then
        let seat = TcpModule_find_listen (tv_destination_port view) m in
        case TcpModule_claim_free_connection m of (fresh, m1) \<Rightarrow>
          case (seat, fresh) of
            (Some i, Some k) \<Rightarrow>
              let kIss = tm_isn_cursor m1 + kIsnStep;
                  m2 = upd_conn k (\<lambda>c. c\<lparr>tc_state := TcpState_kSynReceived, tc_events := ls_events (tm_listens m1 ! i),
                         tc_remote_address := i4_source header, tc_remote_port := tv_source_port view,
                         tc_local_port := tv_destination_port view, tc_owner := True,
                         tc_oldest_sent_ns := tm_service_now_ns m1, tc_rcv_nxt := tv_sequence view + 1,
                         tc_snd_una := kIss, tc_snd_nxt := kIss\<rparr>) (m1\<lparr>tm_isn_cursor := kIss\<rparr>);
                  m3 = TcpModule_transmit_segment (conn m2 k) (kTcpFlagSyn OR kTcpFlagAck) [] (tc_snd_nxt (conn m2 k)) m2
              in upd_conn k (\<lambda>c. c\<lparr>tc_snd_nxt := kIss + 1\<rparr>) m3
          | _ \<Rightarrow>
              let m2 = (if seat \<noteq> None then upd_stats (\<lambda>s. s\<lparr>st_refused_full := st_refused_full s + 1\<rparr>) m1
                        else upd_stats (\<lambda>s. s\<lparr>st_unclaimed := st_unclaimed s + 1\<rparr>) m1);
                  m3 = (case fresh of Some k \<Rightarrow> upd_conn k (\<lambda>c. c\<lparr>tc_used := False\<rparr>) m2 | None \<Rightarrow> m2)
              in rst 0 (tv_sequence view + of_nat segment_length) True m3
      else
        upd_stats (\<lambda>s. s\<lparr>st_unclaimed := st_unclaimed s + 1\<rparr>)
          (if has_flag kTcpFlagRst view then m
           else if has_flag kTcpFlagAck view then rst (tv_acknowledgement view) 0 False m
           else rst 0 (tv_sequence view + of_nat segment_length) True m))"

definition TcpModule_deliver_fire :: "PendingFire \<Rightarrow> TcpModule \<Rightarrow> TcpModule" where
  "TcpModule_deliver_fire fire m =
     (let e = pf_events fire in
      m\<lparr>tm_fired := tm_fired m @
         (case te_data e of Some f \<Rightarrow> if pf_data fire then [Tcp_data f (te_context e)] else [] | None \<Rightarrow> []) @
         (case te_accepted e of Some f \<Rightarrow> if pf_accepted fire then [Tcp_accepted f (te_context e)] else [] | None \<Rightarrow> []) @
         (case te_farewell e of Some f \<Rightarrow> if pf_ended fire then [Tcp_farewell f (te_context e) (pf_farewell fire)] else [] | None \<Rightarrow> [])\<rparr>)"

definition TcpModule_handle :: "u8 list \<Rightarrow> Ipv4View \<Rightarrow> TcpModule \<Rightarrow> TcpModule" where
  "TcpModule_handle bytes header m =
     (case ParseTcp bytes of
        Inl e \<Rightarrow> upd_stats (\<lambda>s. if e = TcpError_kSegmentTooShort then s\<lparr>st_refused_short := st_refused_short s + 1\<rparr>
                               else s\<lparr>st_refused_offset := st_refused_offset s + 1\<rparr>) m
      | Inr view \<Rightarrow>
          if checksum_value_of [tcp_pseudo_header (i4_source header) (i4_destination header) (of_nat (length bytes)), bytes] \<noteq> 0
          then upd_stats (\<lambda>s. s\<lparr>st_refused_checksum := st_refused_checksum s + 1\<rparr>) m
          else
            let payload = drop (unat (tv_header_bytes view)) bytes;
                kSegmentLength = length payload + (if has_flag kTcpFlagSyn view then 1 else 0) + (if has_flag kTcpFlagFin view then 1 else 0)
            in case TcpModule_find_connection (i4_source header) (tv_source_port view) (tv_destination_port view) m of
                 None \<Rightarrow> TcpModule_deliver_fire PendingFire_none (TcpModule_answer_unclaimed header view kSegmentLength m)
               | Some k \<Rightarrow>
                   if tc_state (conn m k) = TcpState_kTimeWait \<and> has_flag kTcpFlagSyn view \<and> \<not> has_flag kTcpFlagAck view
                   then TcpModule_deliver_fire PendingFire_none
                          (TcpModule_answer_unclaimed header view kSegmentLength
                            (snd (TcpModule_release_connection k PendingFire_none TcpFarewell_kGraceful m)))
                   else
                     let kUnaBefore = tc_snd_una (conn m k) in
                     case TcpModule_absorb_segment k view payload kSegmentLength PendingFire_none m of
                       (fire, m1) \<Rightarrow>
                         TcpModule_deliver_fire fire
                           (if tc_used (conn m1 k)
                            then TcpModule_after_ack_movement k (seq_before kUnaBefore (tc_snd_una (conn m1 k))) (tm_service_now_ns m1) m1
                            else m1))"


section \<open>Listening\<close>

definition TcpModule_listen :: "u16 \<Rightarrow> TcpEvents \<Rightarrow> TcpModule \<Rightarrow> TcpListenTicket result \<times> TcpModule" where
  "TcpModule_listen port events m =
     (if \<exists>i<kTcpListenSeats. ls_used (tm_listens m ! i) \<and> ls_port (tm_listens m ! i) = port then (Inl kAlreadyExists, m)
      else case find (\<lambda>i. \<not> ls_used (tm_listens m ! i)) [0..<kTcpListenSeats] of
             Some i \<Rightarrow>
               let kStamp = ls_stamp (tm_listens m ! i) + 1 in
               (Inr \<lparr>tl_slot = i, tl_stamp = kStamp\<rparr>,
                m\<lparr>tm_listens := (tm_listens m)[i := ListenSeat_empty\<lparr>ls_used := True, ls_stamp := kStamp, ls_port := port,
                                                                  ls_events := events\<rparr>]\<rparr>)
           | None \<Rightarrow> (Inl kOutOfMemory, m))"

definition tcp_listen_live :: "TcpListenTicket \<Rightarrow> TcpModule \<Rightarrow> bool" where
  "tcp_listen_live ticket m \<longleftrightarrow> tl_slot ticket < kTcpListenSeats \<and> ls_used (tm_listens m ! tl_slot ticket) \<and>
     ls_stamp (tm_listens m ! tl_slot ticket) = tl_stamp ticket"

definition TcpModule_unlisten :: "TcpListenTicket \<Rightarrow> TcpModule \<Rightarrow> bool \<times> TcpModule" where
  "TcpModule_unlisten ticket m =
     (if \<not> tcp_listen_live ticket m then (False, m)
      else let i = tl_slot ticket in
        (True, m\<lparr>tm_listens := (tm_listens m)[i := ListenSeat_empty\<lparr>ls_stamp := ls_stamp (tm_listens m ! i) + 1\<rparr>]\<rparr>))"

text \<open>Taking the head of the accept queue moves the rest of the counted entries down.\<close>

definition TcpModule_take_accepted :: "TcpListenTicket \<Rightarrow> TcpModule \<Rightarrow> TcpTicket result \<times> TcpModule" where
  "TcpModule_take_accepted ticket m =
     (if \<not> tcp_listen_live ticket m then (Inl kNotFound, m)
      else let i = tl_slot ticket; seat = tm_listens m ! i in
        if ls_accepted_count seat = 0 then (Inl kWouldBlock, m)
        else (Inr (ls_accepted seat ! 0),
              m\<lparr>tm_listens := (tm_listens m)[i := seat\<lparr>
                  ls_accepted := tl (take (ls_accepted_count seat) (ls_accepted seat)) @
                                 drop (ls_accepted_count seat - 1) (ls_accepted seat),
                  ls_accepted_count := ls_accepted_count seat - 1\<rparr>]\<rparr>))"

section \<open>Connections\<close>

definition TcpModule_connect ::
    "u16 \<Rightarrow> u32 \<Rightarrow> u16 \<Rightarrow> TcpEvents \<Rightarrow> u64 \<Rightarrow> TcpModule \<Rightarrow> TcpTicket result \<times> TcpModule" where
  "TcpModule_connect local_port remote_address remote_port events now m =
     (if remote_address = 0 \<or> remote_port = 0 then (Inl kInvalidArgument, m)
      else case TcpModule_claim_free_connection m of
        (None, m1) \<Rightarrow> (Inl kOutOfMemory, m1)
      | (Some k, m1) \<Rightarrow>
          (case (if local_port \<noteq> 0 then (local_port, m1) else TcpModule_pick_local_port m1) of
             (kLocal, m2) \<Rightarrow>
               if kLocal = 0 then (Inl kOutOfMemory, upd_conn k (\<lambda>c. c\<lparr>tc_used := False\<rparr>) m2)
               else
                 let kIss = tm_isn_cursor m2 + kIsnStep;
                     m3 = upd_conn k (\<lambda>c. c\<lparr>tc_state := TcpState_kSynSent, tc_events := events,
                            tc_remote_address := remote_address, tc_remote_port := remote_port, tc_local_port := kLocal,
                            tc_owner := True, tc_oldest_sent_ns := now, tc_snd_una := kIss, tc_snd_nxt := kIss\<rparr>)
                            (m2\<lparr>tm_isn_cursor := kIss\<rparr>);
                     m4 = TcpModule_transmit_segment (conn m3 k) kTcpFlagSyn [] (tc_snd_nxt (conn m3 k)) m3;
                     m5 = upd_conn k (\<lambda>c. c\<lparr>tc_snd_nxt := kIss + 1\<rparr>) m4
                 in (Inr \<lparr>tt_slot = k, tt_stamp = tc_stamp (conn m5 k)\<rparr>, m5)))"

text \<open>The chunk loop of \<^verbatim>\<open>send\<close>, over the accepted bytes.\<close>

function send_chunks :: "nat \<Rightarrow> u8 list \<Rightarrow> TcpModule \<Rightarrow> TcpModule" where
  "send_chunks k bytes m =
     (if bytes = [] then m
      else let chunk = take kTcpMssBytes bytes;
               m1 = TcpModule_transmit_segment (conn m k) (kTcpFlagAck OR kTcpFlagPsh) chunk (tc_snd_nxt (conn m k)) m
           in send_chunks k (drop kTcpMssBytes bytes)
                (upd_conn k (\<lambda>c. c\<lparr>tc_outbox := push_bytes chunk (tc_outbox c),
                                   tc_snd_nxt := tc_snd_nxt c + of_nat (length chunk)\<rparr>) m1))"
  by pat_completeness auto
termination
  by (relation "measure (\<lambda>(k, bytes, m). length bytes)") auto

declare send_chunks.simps [simp del]

definition TcpModule_send :: "TcpTicket \<Rightarrow> u8 list \<Rightarrow> u64 \<Rightarrow> TcpModule \<Rightarrow> nat result \<times> TcpModule" where
  "TcpModule_send ticket payload now m =
     (case TcpModule_live_connection ticket m of None \<Rightarrow> (Inl kNotFound, m)
      | Some k \<Rightarrow>
          let c = conn m k in
          if tc_state c = TcpState_kSynSent \<or> tc_state c = TcpState_kSynReceived then (Inl kWouldBlock, m)
          else if tc_state c \<noteq> TcpState_kEstablished \<and> tc_state c \<noteq> TcpState_kCloseWait then (Inl kBrokenPipe, m)
          else let kInFlight = tc_snd_nxt c - tc_snd_una c;
                   kCeiling = min (of_nat kTcpSendWindowBytes) (tc_snd_window c)
            in if kInFlight \<ge> kCeiling then (Inr 0, m)
               else let kAccepted = min (length payload) (unat (kCeiling - kInFlight));
                        m1 = send_chunks k (take kAccepted payload) m;
                        m2 = (if tc_oldest_sent_ns (conn m1 k) = 0
                              then upd_conn k (\<lambda>c. c\<lparr>tc_oldest_sent_ns := now\<rparr>) m1 else m1)
                 in (Inr kAccepted, m2))"

definition TcpModule_receive :: "TcpTicket \<Rightarrow> nat \<Rightarrow> TcpModule \<Rightarrow> u8 list result \<times> TcpModule" where
  "TcpModule_receive ticket capacity m =
     (case TcpModule_live_connection ticket m of None \<Rightarrow> (Inl kNotFound, m)
      | Some k \<Rightarrow>
          let c = conn m k in
          if RingQueue_count (tc_inbox c) = 0
          then (if past_fin (tc_state c) then (Inr [], m) else (Inl kWouldBlock, m))
          else let kWasShut = (TcpModule_receive_window_of c = 0) in
            case drain_upto (RingQueue_pop 0) capacity (tc_inbox c) of
              (taken, inbox) \<Rightarrow>
                let m1 = upd_conn k (\<lambda>c. c\<lparr>tc_inbox := inbox\<rparr>) m in
                (Inr taken,
                 if kWasShut \<and> taken \<noteq> [] \<and> TcpModule_receive_window_of (conn m1 k) \<noteq> 0
                 then TcpModule_transmit_segment (conn m1 k) kTcpFlagAck [] (tc_snd_nxt (conn m1 k)) m1 else m1))"

definition tcp_send_fin :: "nat \<Rightarrow> TcpState \<Rightarrow> TcpModule \<Rightarrow> TcpModule" where
  "tcp_send_fin k state m =
     (let m1 = TcpModule_transmit_segment (conn m k) (kTcpFlagFin OR kTcpFlagAck) [] (tc_snd_nxt (conn m k)) m;
          m2 = upd_conn k (\<lambda>c. c\<lparr>tc_snd_nxt := tc_snd_nxt c + 1, tc_state := state\<rparr>) m1
      in if tc_oldest_sent_ns (conn m2 k) = 0
         then upd_conn k (\<lambda>c. c\<lparr>tc_oldest_sent_ns := tm_service_now_ns m2\<rparr>) m2 else m2)"

definition TcpModule_close :: "TcpTicket \<Rightarrow> TcpModule \<Rightarrow> TcpModule" where
  "TcpModule_close ticket m =
     (case TcpModule_live_connection ticket m of None \<Rightarrow> m
      | Some k \<Rightarrow>
          (case tc_state (conn m k) of
             TcpState_kSynSent \<Rightarrow> upd_conn k (\<lambda>c. c\<lparr>tc_used := False\<rparr>) m
           | TcpState_kEstablished \<Rightarrow> tcp_send_fin k TcpState_kFinWait1 m
           | TcpState_kSynReceived \<Rightarrow> tcp_send_fin k TcpState_kFinWait1 m
           | TcpState_kCloseWait \<Rightarrow> tcp_send_fin k TcpState_kLastAck m
           | _ \<Rightarrow> m))"

definition TcpModule_abandon :: "TcpTicket \<Rightarrow> TcpModule \<Rightarrow> TcpModule" where
  "TcpModule_abandon ticket m =
     (case TcpModule_live_connection ticket m of None \<Rightarrow> m
      | Some k \<Rightarrow>
          let c = conn m k;
              rst = TcpModule_transmit_rst (tc_remote_address c) (tc_remote_port c) (tc_local_port c) (tc_snd_nxt c);
              m1 = (if tc_state c = TcpState_kSynSent then rst 0 False m else rst (tc_rcv_nxt c) True m)
          in case TcpModule_release_connection k PendingFire_none TcpFarewell_kReset m1 of
               (fire, m2) \<Rightarrow> TcpModule_deliver_fire fire m2)"

section \<open>The service pass\<close>

definition TcpModule_service :: "u64 \<Rightarrow> TcpModule \<Rightarrow> TcpModule" where
  "TcpModule_service now m =
     (let m1 = TimerTable_advance tm_timers (\<lambda>t m. m\<lparr>tm_timers := t\<rparr>) tcp_timer_call now (m\<lparr>tm_service_now_ns := now\<rparr>);
          m2 = fold (\<lambda>k m. if tc_used (conn m k) \<and> tc_oldest_sent_ns (conn m k) \<noteq> 0 \<and>
                             tc_snd_una (conn m k) \<noteq> tc_snd_nxt (conn m k)
                          then TcpModule_arm_rto_guard k m else m) [0..<kTcpConnectionSeats] m1;
          fires = take (tm_service_fire_count m2) (tm_service_fires m2)
      in fold TcpModule_deliver_fire fires (m2\<lparr>tm_service_fire_count := 0\<rparr>))"

section \<open>Questions\<close>

definition TcpModule_concluded :: "TcpTicket \<Rightarrow> TcpModule \<Rightarrow> bool" where
  "TcpModule_concluded ticket m =
     (case TcpModule_live_connection ticket m of None \<Rightarrow> False | Some k \<Rightarrow> past_fin (tc_state (conn m k)))"

definition TcpModule_established :: "TcpTicket \<Rightarrow> TcpModule \<Rightarrow> bool" where
  "TcpModule_established ticket m =
     (case TcpModule_live_connection ticket m of None \<Rightarrow> False | Some k \<Rightarrow> tc_state (conn m k) = TcpState_kEstablished)"

definition TcpModule_connecting :: "TcpTicket \<Rightarrow> TcpModule \<Rightarrow> bool" where
  "TcpModule_connecting ticket m =
     (case TcpModule_live_connection ticket m of None \<Rightarrow> False
      | Some k \<Rightarrow> tc_state (conn m k) = TcpState_kSynSent \<or> tc_state (conn m k) = TcpState_kSynReceived)"

definition TcpModule_holds_bytes :: "TcpTicket \<Rightarrow> TcpModule \<Rightarrow> bool" where
  "TcpModule_holds_bytes ticket m =
     (case TcpModule_live_connection ticket m of None \<Rightarrow> True
      | Some k \<Rightarrow> RingQueue_count (tc_inbox (conn m k)) \<noteq> 0 \<or> past_fin (tc_state (conn m k)))"

definition TcpModule_peer_of :: "TcpTicket \<Rightarrow> TcpModule \<Rightarrow> (u32 \<times> u16) option" where
  "TcpModule_peer_of ticket m =
     map_option (\<lambda>k. (tc_remote_address (conn m k), tc_remote_port (conn m k))) (TcpModule_live_connection ticket m)"

definition TcpModule_alive :: "TcpTicket \<Rightarrow> TcpModule \<Rightarrow> bool" where
  "TcpModule_alive ticket m \<longleftrightarrow> TcpModule_live_connection ticket m \<noteq> None"

end
