(* ===== verification/Tcp_Frame.thy ===== *)
theory Tcp_Frame
  imports Tcp
begin

text \<open>
  What the internal operations of the TCP module leave alone. An operation on slot \<open>k\<close> touches
  no other connection and no listener, and most of them keep the parts of connection \<open>k\<close> the receive
  side consists of; the rest release it.
\<close>

unbundle bit_operations_syntax

section \<open>Touching one connection\<close>

definition touch :: "nat \<Rightarrow> (Connection \<Rightarrow> 'v) \<Rightarrow> TcpModule \<Rightarrow> TcpModule \<Rightarrow> bool" where
  "touch k view m m' \<longleftrightarrow> length (tm_connections m') = length (tm_connections m) \<and>
     (\<forall>j. j \<noteq> k \<longrightarrow> conn m' j = conn m j) \<and> view (conn m' k) = view (conn m k) \<and> tm_listens m' = tm_listens m"

lemma touch_refl [intro]: "touch k view m m"
  by (simp add: touch_def)

lemma touch_trans [trans]: "touch k view m1 m2 \<Longrightarrow> touch k view m2 m3 \<Longrightarrow> touch k view m1 m3"
  by (simp add: touch_def)

lemma touchD:
  assumes "touch k view m m'"
  shows "length (tm_connections m') = length (tm_connections m)" "j \<noteq> k \<Longrightarrow> conn m' j = conn m j"
    "view (conn m' k) = view (conn m k)" "tm_listens m' = tm_listens m"
  using assms by (simp_all add: touch_def)

text \<open>A touch that keeps a view keeps everything the view determines.\<close>

lemma touch_weaken: "touch k view m m' \<Longrightarrow> (\<And>c c'. view c = view c' \<Longrightarrow> view' c = view' c') \<Longrightarrow> touch k view' m m'"
  unfolding touch_def by blast

lemma touch_same: "tm_connections m' = tm_connections m \<Longrightarrow> tm_listens m' = tm_listens m \<Longrightarrow> touch k view m m'"
  by (simp add: touch_def conn_def)

lemma conn_upd_conn:
  "k < length (tm_connections m) \<Longrightarrow> conn (upd_conn k f m) j = (if j = k then f (conn m k) else conn m j)"
  by (simp add: conn_def upd_conn_def)

lemma upd_conn_fields [simp]:
  "length (tm_connections (upd_conn k f m)) = length (tm_connections m)" "tm_listens (upd_conn k f m) = tm_listens m"
  "tm_timers (upd_conn k f m) = tm_timers m" "tm_stats (upd_conn k f m) = tm_stats m" "tm_sink (upd_conn k f m) = tm_sink m"
  "tm_sent (upd_conn k f m) = tm_sent m" "tm_service_now_ns (upd_conn k f m) = tm_service_now_ns m"
  "tm_own_address (upd_conn k f m) = tm_own_address m"
  by (simp_all add: upd_conn_def)

lemma upd_stats_fields [simp]:
  "tm_connections (upd_stats f m) = tm_connections m" "tm_listens (upd_stats f m) = tm_listens m"
  "tm_timers (upd_stats f m) = tm_timers m" "tm_sink (upd_stats f m) = tm_sink m" "tm_sent (upd_stats f m) = tm_sent m"
  "tm_service_now_ns (upd_stats f m) = tm_service_now_ns m" "tm_own_address (upd_stats f m) = tm_own_address m"
  by (simp_all add: upd_stats_def)

lemma conn_other_fields [simp]:
  "conn (upd_stats f m) j = conn m j" "conn (m\<lparr>tm_timers := t\<rparr>) j = conn m j" "conn (m\<lparr>tm_stats := s\<rparr>) j = conn m j"
  "conn (m\<lparr>tm_sent := x\<rparr>) j = conn m j" "conn (m\<lparr>tm_fired := y\<rparr>) j = conn m j" "conn (m\<lparr>tm_isn_cursor := i\<rparr>) j = conn m j"
  "conn (m\<lparr>tm_service_now_ns := n\<rparr>) j = conn m j" "conn (m\<lparr>tm_ephemeral_cursor := e\<rparr>) j = conn m j"
  "conn (m\<lparr>tm_listens := ls\<rparr>) j = conn m j"
  by (simp_all add: conn_def)

lemma touch_upd_conn: "(\<And>c. view (f c) = view c) \<Longrightarrow> touch k view m (upd_conn k f m)"
  by (cases "k < length (tm_connections m)")
    (simp_all add: touch_def conn_upd_conn, simp add: conn_def upd_conn_def list_update_beyond)

lemma touch_upd_stats: "touch k view m (upd_stats f m)"
  by (rule touch_same) simp_all

lemma touch_timers: "touch k view m (m\<lparr>tm_timers := t\<rparr>)"
  by (rule touch_same) simp_all

lemma touch_transmit: "touch k view m (TcpModule_transmit_segment c flags payload sequence m)"
  by (rule touch_same) (simp_all add: TcpModule_transmit_segment_def)

lemma touch_transmit_rst: "touch k view m (TcpModule_transmit_rst a p l s n w m)"
  by (rule touch_same) (simp_all add: TcpModule_transmit_rst_def Let_def)

lemma touch_deliver: "touch k view m (TcpModule_deliver_fire fire m)"
  by (rule touch_same) (simp_all add: TcpModule_deliver_fire_def Let_def)

lemma touch_note_fire: "touch k view m (tcp_note_fire fire m)"
  by (rule touch_same) (simp_all add: tcp_note_fire_def)

lemma transmit_fields [simp]:
  "conn (TcpModule_transmit_segment c flags payload sequence m) j = conn m j"
  "tm_connections (TcpModule_transmit_segment c flags payload sequence m) = tm_connections m"
  "tm_listens (TcpModule_transmit_segment c flags payload sequence m) = tm_listens m"
  "tm_timers (TcpModule_transmit_segment c flags payload sequence m) = tm_timers m"
  "tm_service_now_ns (TcpModule_transmit_segment c flags payload sequence m) = tm_service_now_ns m"
  by (simp_all add: TcpModule_transmit_segment_def conn_def)

section \<open>The receive side and its bookkeeping\<close>

text \<open>
  What the stream a connection delivers depends on: its queue, cursor and repair seats, whether the
  peer's FIN was taken, whether the handshake is still open on this side, and its ticket.
\<close>

definition rx_view :: "Connection \<Rightarrow> u8 RingQueue \<times> u32 \<times> ReorderSeat list \<times> bool \<times> bool \<times> bool \<times> u64" where
  "rx_view c = (tc_inbox c, tc_rcv_nxt c, tc_reorder c, past_fin (tc_state c), tc_state c = TcpState_kSynSent,
     tc_used c, tc_stamp c)"

text \<open>The same with the state itself, for operations that do not move it.\<close>

definition st_view :: "Connection \<Rightarrow> (u8 RingQueue \<times> u32 \<times> ReorderSeat list \<times> bool \<times> bool \<times> bool \<times> u64) \<times> TcpState" where
  "st_view c = (rx_view c, tc_state c)"

lemma st_rx: "touch k st_view m m' \<Longrightarrow> touch k rx_view m m'"
  by (erule touch_weaken) (simp add: st_view_def)

lemma disarm_touch: "touch k st_view m (TcpModule_disarm_rto_guard k m)"
  unfolding TcpModule_disarm_rto_guard_def
  by (auto intro: touch_trans[OF touch_timers touch_upd_conn] simp: st_view_def rx_view_def)

lemma arm_touch: "touch k st_view m (TcpModule_arm_rto_guard k m)"
  unfolding TcpModule_arm_rto_guard_def Let_def
  by (auto intro: touch_trans[OF touch_timers touch_upd_conn] touch_timers simp: st_view_def rx_view_def
      split: prod.split sum.split)

lemma take_rtt_sample_view: "st_view (TcpModule_take_rtt_sample now c) = st_view c"
  by (simp add: TcpModule_take_rtt_sample_def Let_def st_view_def rx_view_def)

lemma after_ack_touch: "touch k st_view m (TcpModule_after_ack_movement k moved now m)"
proof -
  let ?f = "\<lambda>c. c\<lparr>tc_in_retransmission := False, tc_retransmit_count := 0\<rparr>"
  have 1: "touch k st_view m (upd_conn k ?f m)" by (rule touch_upd_conn) (simp add: st_view_def rx_view_def)
  have 2: "touch k st_view m1 (upd_conn k (TcpModule_take_rtt_sample now) m1)" for m1
    by (rule touch_upd_conn) (rule take_rtt_sample_view)
  have 3: "touch k st_view m1 (upd_conn k (\<lambda>c. c\<lparr>tc_oldest_sent_ns := 0\<rparr>) m1)" for m1
    by (rule touch_upd_conn) (simp add: st_view_def rx_view_def)
  show ?thesis unfolding TcpModule_after_ack_movement_def Let_def
    using touch_trans[OF touch_trans[OF touch_trans[OF 1 2] disarm_touch] 3] 1 by auto
qed

lemma resend_touch: "touch k st_view m (TcpModule_resend_oldest k m)"
proof -
  have 1: "touch k st_view m (upd_conn k (\<lambda>c. c\<lparr>tc_in_retransmission := True\<rparr>) m)"
    by (rule touch_upd_conn) (simp add: st_view_def rx_view_def)
  show ?thesis unfolding TcpModule_resend_oldest_def Let_def
    using 1 touch_trans[OF 1 touch_transmit] by auto
qed

lemma begin_time_wait_touch:
  assumes "k < length (tm_connections m)" "past_fin (tc_state (conn m k))"
  shows "touch k rx_view m (TcpModule_begin_time_wait k m)"
proof -
  let ?m = "TcpModule_disarm_rto_guard k (upd_conn k (\<lambda>c. c\<lparr>tc_state := TcpState_kTimeWait\<rparr>) m)"
  have "touch k rx_view m (upd_conn k (\<lambda>c. c\<lparr>tc_state := TcpState_kTimeWait\<rparr>) m)"
    using assms by (auto simp: touch_def conn_upd_conn rx_view_def past_fin_def)
  then have 1: "touch k rx_view m ?m" by (rule touch_trans[OF _ st_rx[OF disarm_touch]])
  have 2: "touch k rx_view ?m (upd_conn k (\<lambda>c. c\<lparr>tc_time_wait_seat := seat, tc_time_wait_armed := True\<rparr>) (?m\<lparr>tm_timers := t\<rparr>))" for seat t
    by (rule touch_trans[OF touch_timers touch_upd_conn]) (simp add: rx_view_def)
  show ?thesis unfolding TcpModule_begin_time_wait_def Let_def
    using 1 touch_trans[OF 1 2] touch_trans[OF 1 touch_timers] by (auto split: prod.split sum.split)
qed

definition released :: "nat \<Rightarrow> TcpModule \<Rightarrow> TcpModule \<Rightarrow> bool" where
  "released k m m' \<longleftrightarrow> length (tm_connections m') = length (tm_connections m) \<and> (\<forall>j. j \<noteq> k \<longrightarrow> conn m' j = conn m j) \<and>
     conn m' k = Connection_empty\<lparr>tc_stamp := tc_stamp (conn m k) + 1\<rparr> \<and> tm_listens m' = tm_listens m"

lemma touch_released: "touch k tc_stamp m m1 \<Longrightarrow> released k m1 m2 \<Longrightarrow> released k m m2"
  by (simp add: touch_def released_def)

lemma released_touch: "released k m m1 \<Longrightarrow> touch k (\<lambda>c. c) m1 m2 \<Longrightarrow> released k m m2"
  by (simp add: touch_def released_def)

lemma st_stamp: "touch k st_view m m' \<Longrightarrow> touch k tc_stamp m m'"
  by (erule touch_weaken) (simp add: st_view_def rx_view_def)

lemma release_released:
  assumes "k < length (tm_connections m)"
  shows "released k m (snd (TcpModule_release_connection k fire farewell m))"
proof -
  let ?m1 = "TcpModule_disarm_rto_guard k m"
  let ?m2 = "if tc_time_wait_armed (conn ?m1 k)
                then upd_conn k (\<lambda>c. c\<lparr>tc_time_wait_armed := False\<rparr>)
                       (?m1\<lparr>tm_timers := snd (TimerTable_cancel (tc_time_wait_seat (conn ?m1 k)) (tm_timers ?m1))\<rparr>)
                else ?m1"
  have "touch k tc_stamp ?m1 ?m2" by (auto intro!: touch_trans[OF touch_timers touch_upd_conn])
  then have t: "touch k tc_stamp m ?m2" using touch_trans[OF st_stamp[OF disarm_touch]] by blast
  have "released k ?m2 (upd_conn k (\<lambda>c. Connection_empty\<lparr>tc_stamp := tc_stamp c + 1\<rparr>) ?m2)"
    using touchD(1)[OF t] assms unfolding released_def by (subst conn_upd_conn conn_upd_conn, simp)+ simp
  then show ?thesis using touch_released[OF t] by (simp add: TcpModule_release_connection_def Let_def)
qed

end
