(* ===== verification/Tcp_Stream.thy ===== *)
theory Tcp_Stream
  imports Tcp_Frame
begin

text \<open>
  The receive side against a byte stream. The peer's stream is a function \<open>S\<close> from sequence
  numbers to bytes; the connection's inbox is at every moment a piece of it, and what was read before
  plus what waits is one growing piece, whatever order, overlap or duplication the segments arrive in.
\<close>

unbundle bit_operations_syntax

section \<open>Slices of a stream\<close>

definition piece :: "(u32 \<Rightarrow> u8) \<Rightarrow> u32 \<Rightarrow> nat \<Rightarrow> u8 list" where
  "piece S start n = map (\<lambda>i. S (start + of_nat i)) [0..<n]"

lemma piece_length [simp]: "length (piece S start n) = n"
  by (simp add: piece_def)

lemma piece_nil [simp]: "piece S start 0 = []"
  by (simp add: piece_def)

lemma piece_append: "piece S start n @ piece S (start + of_nat n) m = piece S start (n + m)"
  by (rule nth_equalityI) (auto simp: piece_def nth_append of_nat_diff algebra_simps)

lemma piece_take: "take n (piece S start m) = piece S start (min n m)"
  by (rule nth_equalityI) (auto simp: piece_def)

lemma piece_drop: "drop n (piece S start m) = piece S (start + of_nat n) (m - n)"
  by (rule nth_equalityI) (auto simp: piece_def algebra_simps)

lemma piece_eq_iff: "xs = piece S start (length xs) \<longleftrightarrow> (\<forall>i<length xs. xs ! i = S (start + of_nat i))"
  unfolding list_eq_iff_nth_eq by (simp add: piece_def)

section \<open>Queues of bytes\<close>

lemma push_bytes_content:
  assumes "RingQueue_inv q" "length (RingQueue_content q) + length bs \<le> RingQueue_limit q"
  shows "RingQueue_inv (push_bytes bs q) \<and> RingQueue_limit (push_bytes bs q) = RingQueue_limit q \<and>
    RingQueue_content (push_bytes bs q) = RingQueue_content q @ bs"
  using assms
proof (induction bs arbitrary: q)
  case (Cons b bs)
  obtain q' where q': "RingQueue_push b q = (True, q')" "RingQueue_inv q'" "RingQueue_content q' = RingQueue_content q @ [b]"
      "RingQueue_limit q' = RingQueue_limit q"
    using rq.push_room[OF Cons.prems(1), of b] Cons.prems(2) by auto
  then show ?case using Cons.IH[of q'] Cons.prems(2) by simp
qed simp

section \<open>The invariant\<close>

text \<open>
  The stream position the inbox ends at: the read cursor, or one before it once the peer's FIN was
  taken.
\<close>

definition rx_end :: "Connection \<Rightarrow> u32" where
  "rx_end c = (if past_fin (tc_state c) then tc_rcv_nxt c - 1 else tc_rcv_nxt c)"

definition seat_ok :: "(u32 \<Rightarrow> u8) \<Rightarrow> ReorderSeat \<Rightarrow> bool" where
  "seat_ok S seat \<longleftrightarrow> length (rs_data seat) = 1460 \<and>
     (rs_used seat \<longrightarrow> rs_bytes seat \<le> 1460 \<and> take (rs_bytes seat) (rs_data seat) = piece S (rs_start seat) (rs_bytes seat))"

definition rx_ok :: "(u32 \<Rightarrow> u8) \<Rightarrow> Connection \<Rightarrow> bool" where
  "rx_ok S c \<longleftrightarrow> RingQueue_inv (tc_inbox c) \<and> RingQueue_limit (tc_inbox c) = 4096 \<and>
     length (tc_reorder c) = 4 \<and> (\<forall>seat\<in>set (tc_reorder c). seat_ok S seat) \<and>
     (let n = length (RingQueue_content (tc_inbox c)) in RingQueue_content (tc_inbox c) = piece S (rx_end c - of_nat n) n) \<and>
     (past_fin (tc_state c) \<longrightarrow> (\<forall>seat\<in>set (tc_reorder c). rs_used seat \<longrightarrow> rs_start seat \<noteq> tc_rcv_nxt c)) \<and>
     (tc_state c = TcpState_kSynSent \<longrightarrow> RingQueue_content (tc_inbox c) = [] \<and> (\<forall>seat\<in>set (tc_reorder c). \<not> rs_used seat))"

lemma rx_okD:
  assumes "rx_ok S c"
  shows "RingQueue_inv (tc_inbox c)" "RingQueue_limit (tc_inbox c) = 4096" "length (tc_reorder c) = 4"
    "seat \<in> set (tc_reorder c) \<Longrightarrow> seat_ok S seat"
    "RingQueue_content (tc_inbox c) =
       piece S (rx_end c - of_nat (length (RingQueue_content (tc_inbox c)))) (length (RingQueue_content (tc_inbox c)))"
    "past_fin (tc_state c) \<Longrightarrow> seat \<in> set (tc_reorder c) \<Longrightarrow> rs_used seat \<Longrightarrow> rs_start seat \<noteq> tc_rcv_nxt c"
    "tc_state c = TcpState_kSynSent \<Longrightarrow> RingQueue_content (tc_inbox c) = []"
    "tc_state c = TcpState_kSynSent \<Longrightarrow> seat \<in> set (tc_reorder c) \<Longrightarrow> \<not> rs_used seat"
  using assms unfolding rx_ok_def Let_def by blast+

lemma rx_end_view: "rx_view c = rx_view c' \<Longrightarrow> rx_end c = rx_end c'"
  by (simp add: rx_end_def rx_view_def)

lemma rx_ok_view: "rx_view c = rx_view c' \<Longrightarrow> rx_ok S c = rx_ok S c'"
  by (simp add: rx_ok_def rx_view_def rx_end_def)

lemma rx_ok_empty:
  "tc_inbox c = tc_inbox Connection_empty \<Longrightarrow> tc_reorder c = tc_reorder Connection_empty \<Longrightarrow> rx_ok S c"
proof -
  assume c: "tc_inbox c = tc_inbox Connection_empty" "tc_reorder c = tc_reorder Connection_empty"
  have q: "RingQueue_inv (tc_inbox c)" "RingQueue_content (tc_inbox c) = []" "RingQueue_limit (tc_inbox c) = 4096"
    unfolding c(1) by (simp_all add: Connection_empty_def RingQueue_init_inv)
  have r: "seat = ReorderSeat_empty" if "seat \<in> set (tc_reorder c)" for seat
    using that unfolding c(2) by (simp add: Connection_empty_def)
  have "length (tc_reorder c) = 4" unfolding c(2) by (simp add: Connection_empty_def)
  moreover have "seat_ok S ReorderSeat_empty" by (simp add: seat_ok_def ReorderSeat_empty_def)
  moreover have "\<not> rs_used seat" if "seat \<in> set (tc_reorder c)" for seat using r[OF that] by simp
  ultimately show ?thesis unfolding rx_ok_def Let_def q using q(1,3) r by fastforce
qed

text \<open>
  Growth: from one connection state to a later one of the same tenancy, the unread bytes are the old
  ones with the next bytes of the stream behind them.
\<close>

definition rx_grows :: "(u32 \<Rightarrow> u8) \<Rightarrow> Connection \<Rightarrow> Connection \<Rightarrow> bool" where
  "rx_grows S c c' \<longleftrightarrow> rx_ok S c' \<and> tc_used c' = tc_used c \<and> tc_stamp c' = tc_stamp c \<and>
     (tc_state c' = TcpState_kSynSent \<longleftrightarrow> tc_state c = TcpState_kSynSent) \<and>
     (\<exists>n. RingQueue_content (tc_inbox c') = RingQueue_content (tc_inbox c) @ piece S (rx_end c) n \<and>
          rx_end c' = rx_end c + of_nat n)"

lemma rx_grows_view: "rx_ok S c \<Longrightarrow> rx_view c' = rx_view c \<Longrightarrow> rx_grows S c c'"
  unfolding rx_grows_def using rx_ok_view[of c' c S] rx_end_view[of c' c]
  by (intro conjI exI[of _ 0]) (auto simp: rx_view_def)

lemma rx_grows_trans: "rx_grows S c c1 \<Longrightarrow> rx_grows S c1 c2 \<Longrightarrow> rx_grows S c c2"
proof -
  assume "rx_grows S c c1" "rx_grows S c1 c2"
  then obtain n1 n2 where "RingQueue_content (tc_inbox c1) = RingQueue_content (tc_inbox c) @ piece S (rx_end c) n1"
      "rx_end c1 = rx_end c + of_nat n1" "RingQueue_content (tc_inbox c2) = RingQueue_content (tc_inbox c1) @ piece S (rx_end c1) n2"
      "rx_end c2 = rx_end c1 + of_nat n2" unfolding rx_grows_def by blast
  then have "RingQueue_content (tc_inbox c2) = RingQueue_content (tc_inbox c) @ piece S (rx_end c) (n1 + n2) \<and>
      rx_end c2 = rx_end c + of_nat (n1 + n2)" by (simp add: piece_append[symmetric] add.assoc)
  then show ?thesis using \<open>rx_grows S c c1\<close> \<open>rx_grows S c1 c2\<close> unfolding rx_grows_def by metis
qed

section \<open>Taking bytes in\<close>

text \<open>The one way bytes enter: the next bytes of the stream pushed behind the inbox.\<close>

lemma rx_push:
  assumes ok: "rx_ok S c" and opn: "\<not> past_fin (tc_state c)" "tc_state c \<noteq> TcpState_kSynSent"
    and bytes: "bs = piece S (tc_rcv_nxt c) (length bs)" "length (RingQueue_content (tc_inbox c)) + length bs \<le> 4096"
    and seats: "length seats = 4" "\<forall>seat\<in>set seats. seat_ok S seat"
  shows "rx_grows S c (c\<lparr>tc_inbox := push_bytes bs (tc_inbox c), tc_rcv_nxt := tc_rcv_nxt c + of_nat (length bs),
                         tc_reorder := seats\<rparr>)"
proof -
  let ?c = "c\<lparr>tc_inbox := push_bytes bs (tc_inbox c), tc_rcv_nxt := tc_rcv_nxt c + of_nat (length bs), tc_reorder := seats\<rparr>"
  let ?q = "RingQueue_content (tc_inbox c)"
  have q: "RingQueue_inv (push_bytes bs (tc_inbox c))" "RingQueue_limit (push_bytes bs (tc_inbox c)) = 4096"
      "RingQueue_content (push_bytes bs (tc_inbox c)) = ?q @ bs"
    using push_bytes_content[of "tc_inbox c" bs] rx_okD(1,2)[OF ok] bytes(2) by simp_all
  have e: "rx_end c = tc_rcv_nxt c" "rx_end ?c = tc_rcv_nxt c + of_nat (length bs)"
    using opn(1) by (simp_all add: rx_end_def)
  have old: "?q = piece S (tc_rcv_nxt c - of_nat (length ?q)) (length ?q)" using rx_okD(5)[OF ok] e(1) by simp
  have "?q @ bs = piece S (tc_rcv_nxt c - of_nat (length ?q)) (length ?q) @ piece S (tc_rcv_nxt c) (length bs)"
    using old bytes(1) by metis
  also have "\<dots> = piece S (tc_rcv_nxt c - of_nat (length ?q)) (length ?q + length bs)"
    using piece_append[of S "tc_rcv_nxt c - of_nat (length ?q)" "length ?q" "length bs"] by simp
  finally have new: "?q @ bs = piece S (tc_rcv_nxt c - of_nat (length ?q)) (length ?q + length bs)" .
  have "rx_ok S ?c" unfolding rx_ok_def Let_def e using q seats opn new by (simp add: algebra_simps)
  then show ?thesis unfolding rx_grows_def e using q(3) bytes(1) by auto
qed


lemma seat_ok_empty: "seat_ok S ReorderSeat_empty"
  by (simp add: seat_ok_def ReorderSeat_empty_def)

lemma rx_count: "rx_ok S c \<Longrightarrow> RingQueue_count (tc_inbox c) = length (RingQueue_content (tc_inbox c))"
  by (rule rq.count_content) (rule rx_okD(1))

lemma rx_count_le: "rx_ok S c \<Longrightarrow> length (RingQueue_content (tc_inbox c)) \<le> 4096"
  using rq.content_bound[of "tc_inbox c"] rx_okD(1,2)[of S c] by simp

lemma harvest_seat_rx:
  assumes ok: "rx_ok S c" and i: "i < 4" and step: "harvest_seat i (c, s, d) = (c', s', d')"
  shows "rx_grows S c c' \<and> tc_state c' = tc_state c"
proof -
  let ?seat = "tc_reorder c ! i"
  have mem: "?seat \<in> set (tc_reorder c)" using rx_okD(3)[OF ok] i by simp
  show ?thesis
  proof (cases "\<not> rs_used ?seat \<or> rs_start ?seat \<noteq> tc_rcv_nxt c \<or> rs_bytes ?seat > 4096 - RingQueue_count (tc_inbox c)")
    case True
    then have "c' = c" using step by (auto simp: harvest_seat_def Let_def split: if_splits)
    then show ?thesis using rx_grows_view[OF ok] by simp
  next
    case False
    define bs where "bs = take (rs_bytes ?seat) (rs_data ?seat)"
    define seats where "seats = (tc_reorder c)[i := ReorderSeat_empty]"
    have used: "rs_used ?seat" "rs_start ?seat = tc_rcv_nxt c" and room: "rs_bytes ?seat \<le> 4096 - RingQueue_count (tc_inbox c)"
      using False by simp_all
    have sok: "rs_bytes ?seat \<le> 1460" "length (rs_data ?seat) = 1460" "bs = piece S (tc_rcv_nxt c) (rs_bytes ?seat)"
      using rx_okD(4)[OF ok mem] used by (simp_all add: seat_ok_def bs_def)
    then have len: "length bs = rs_bytes ?seat" by simp
    have opn: "\<not> past_fin (tc_state c)" "tc_state c \<noteq> TcpState_kSynSent"
      using rx_okD(6)[OF ok _ mem used(1)] rx_okD(8)[OF ok _ mem] used by blast+
    have c': "c' = c\<lparr>tc_inbox := push_bytes bs (tc_inbox c), tc_rcv_nxt := tc_rcv_nxt c + of_nat (length bs), tc_reorder := seats\<rparr>"
      using step False len by (simp add: harvest_seat_def Let_def bs_def seats_def)
    have "rx_grows S c c'" unfolding c'
    proof (rule rx_push[OF ok opn])
      show "bs = piece S (tc_rcv_nxt c) (length bs)" using sok(3) len by simp
      show "length (RingQueue_content (tc_inbox c)) + length bs \<le> 4096"
        using room len rx_count[OF ok] rx_count_le[OF ok] by simp
      show "length seats = 4" using rx_okD(3)[OF ok] by (simp add: seats_def)
      show "\<forall>seat\<in>set seats. seat_ok S seat"
        using rx_okD(4)[OF ok] seat_ok_empty set_update_subset_insert[of "tc_reorder c" i ReorderSeat_empty]
        unfolding seats_def by blast
    qed
    then show ?thesis by (simp add: c')
  qed
qed

lemma rx_grows_ok: "rx_grows S c c' \<Longrightarrow> rx_ok S c'"
  by (simp add: rx_grows_def)

lemma harvest_fold_rx:
  assumes "rx_ok S c" "\<forall>i\<in>set is. i < 4" "fold harvest_seat is (c, s, d) = (c', s', d')"
  shows "rx_grows S c c' \<and> tc_state c' = tc_state c"
  using assms
proof (induction "is" arbitrary: c s d)
  case Nil
  then show ?case using rx_grows_view by simp
next
  case (Cons i "is")
  obtain c1 s1 d1 where one: "harvest_seat i (c, s, d) = (c1, s1, d1)" by (metis prod_cases3)
  have 1: "rx_grows S c c1" "tc_state c1 = tc_state c" using harvest_seat_rx[OF Cons.prems(1) _ one] Cons.prems(2) by simp_all
  have "rx_grows S c1 c' \<and> tc_state c' = tc_state c1"
    using Cons.IH[OF rx_grows_ok[OF 1(1)]] Cons.prems(2,3) one by simp
  then show ?case using rx_grows_trans[OF 1(1)] 1(2) by simp
qed

lemma harvest_loop_rx:
  assumes "rx_ok S c" "harvest_loop (c, s, d) = (c', s', d')"
  shows "rx_grows S c c' \<and> tc_state c' = tc_state c"
  using assms
proof (induction "(c, s, d)" arbitrary: c s d rule: harvest_loop.induct)
  case (1 c s data)
  have len: "length (tc_reorder c) = 4" using rx_okD(3)[OF 1(2)] .
  obtain c1 s1 d1 where pass: "harvest_pass (c, s) = (c1, s1, d1)" by (metis prod_cases3)
  then have g: "rx_grows S c c1" "tc_state c1 = tc_state c"
    using harvest_fold_rx[OF 1(2), of "[0..<4]" s False] by (simp_all add: harvest_pass_def)
  show ?case
  proof (cases d1)
    case True
    then have "harvest_loop (c1, s1, True) = (c', s', d')"
      using 1(3) len pass by (simp add: harvest_loop.simps[of c])
    then have "rx_grows S c1 c' \<and> tc_state c' = tc_state c1"
      using 1(1)[of c1 "(s1, d1)" s1 d1] len pass True rx_grows_ok[OF g(1)] by simp
    then show ?thesis using rx_grows_trans[OF g(1)] g(2) by simp
  next
    case False
    then show ?thesis using 1(3) len pass g by (simp add: harvest_loop.simps[of c])
  qed
qed


section \<open>Moves of one slot\<close>

definition rx_moves :: "(u32 \<Rightarrow> u8) \<Rightarrow> nat \<Rightarrow> TcpModule \<Rightarrow> TcpModule \<Rightarrow> bool" where
  "rx_moves S k m m' \<longleftrightarrow> length (tm_connections m') = length (tm_connections m) \<and>
     (\<forall>j. j \<noteq> k \<longrightarrow> conn m' j = conn m j) \<and> rx_grows S (conn m k) (conn m' k)"

definition freed :: "nat \<Rightarrow> TcpModule \<Rightarrow> TcpModule \<Rightarrow> bool" where
  "freed k m m' \<longleftrightarrow> length (tm_connections m') = length (tm_connections m) \<and>
     (\<forall>j. j \<noteq> k \<longrightarrow> conn m' j = conn m j) \<and> conn m' k = Connection_empty\<lparr>tc_stamp := tc_stamp (conn m k) + 1\<rparr>"

lemma rx_movesD: "rx_moves S k m m' \<Longrightarrow> length (tm_connections m') = length (tm_connections m)"
    "rx_moves S k m m' \<Longrightarrow> rx_ok S (conn m' k)" "rx_moves S k m m' \<Longrightarrow> j \<noteq> k \<Longrightarrow> conn m' j = conn m j"
  by (simp_all add: rx_moves_def rx_grows_def)

lemma rx_moves_trans [trans]: "rx_moves S k m m1 \<Longrightarrow> rx_moves S k m1 m2 \<Longrightarrow> rx_moves S k m m2"
  unfolding rx_moves_def using rx_grows_trans by metis

lemma touch_moves: "touch k rx_view m m' \<Longrightarrow> rx_ok S (conn m k) \<Longrightarrow> rx_moves S k m m'"
  unfolding rx_moves_def using touchD[of k rx_view m m'] rx_grows_view by metis

lemma rx_moves_refl: "rx_ok S (conn m k) \<Longrightarrow> rx_moves S k m m"
  by (rule touch_moves[OF touch_refl])

lemma moves_touch: "rx_moves S k m m1 \<Longrightarrow> touch k rx_view m1 m2 \<Longrightarrow> rx_moves S k m m2"
  using rx_moves_trans touch_moves rx_movesD(2) by metis

lemma released_freed: "released k m m' \<Longrightarrow> freed k m m'"
  by (simp add: released_def freed_def)

lemma moves_freed: "rx_moves S k m m1 \<Longrightarrow> freed k m1 m2 \<Longrightarrow> freed k m m2"
  by (simp add: rx_moves_def freed_def rx_grows_def)

lemma moves_upd:
  assumes "k < length (tm_connections m)" "rx_grows S (conn m k) (f (conn m k))"
  shows "rx_moves S k m (upd_conn k f m)"
  using assms by (simp add: rx_moves_def conn_upd_conn)

text \<open>A segment the peer may send: it agrees with the stream, and nothing follows its FIN.\<close>

definition conforms :: "(u32 \<Rightarrow> u8) \<Rightarrow> Connection \<Rightarrow> TcpView \<Rightarrow> u8 list \<Rightarrow> nat \<Rightarrow> bool" where
  "conforms S c view payload segment_length \<longleftrightarrow>
     payload = piece S (tv_sequence view) (length payload) \<and>
     (has_flag kTcpFlagSyn view \<longrightarrow> payload = []) \<and>
     segment_length = length payload + (if has_flag kTcpFlagSyn view then 1 else 0) + (if has_flag kTcpFlagFin view then 1 else 0) \<and>
     (past_fin (tc_state c) \<longrightarrow> seq_before_eq (tv_sequence view + of_nat segment_length) (tc_rcv_nxt c)) \<and>
     (has_flag kTcpFlagFin view \<longrightarrow>
        (\<forall>seat\<in>set (tc_reorder c). rs_used seat \<longrightarrow> rs_start seat \<noteq> tv_sequence view + of_nat segment_length))"

lemma harvest_moves:
  assumes "k < length (tm_connections m)" "rx_ok S (conn m k)"
  shows "rx_moves S k m (snd (TcpModule_harvest_reorder k fire m))"
proof -
  obtain c' s' d' where loop: "harvest_loop (conn m k, tm_stats m, pf_data fire) = (c', s', d')" by (metis prod_cases3)
  have "rx_grows S (conn m k) c'" using harvest_loop_rx[OF assms(2) loop] by simp
  then have "rx_moves S k m (upd_conn k (\<lambda>_. c') (m\<lparr>tm_stats := s'\<rparr>))"
    using assms(1) by (simp add: rx_moves_def conn_upd_conn)
  then show ?thesis by (simp add: TcpModule_harvest_reorder_def loop)
qed

lemma rx_grows_seats:
  assumes ok: "rx_ok S c" and opn: "\<not> past_fin (tc_state c)" "tc_state c \<noteq> TcpState_kSynSent"
    and seats: "length seats = 4" "\<forall>seat\<in>set seats. seat_ok S seat"
  shows "rx_grows S c (c\<lparr>tc_reorder := seats\<rparr>)"
proof -
  have "rx_grows S c (c\<lparr>tc_inbox := push_bytes [] (tc_inbox c), tc_rcv_nxt := tc_rcv_nxt c + of_nat (length ([] :: u8 list)), tc_reorder := seats\<rparr>)"
    by (rule rx_push[OF ok opn _ _ seats]) (use rx_count_le[OF ok] in simp_all)
  then show ?thesis by simp
qed

lemma drop_reorder_touch: "touch k view m (tcp_drop_reorder m)"
  by (simp add: tcp_drop_reorder_def touch_upd_stats)

lemma store_moves:
  assumes k: "k < length (tm_connections m)" and ok: "rx_ok S (conn m k)"
    and opn: "\<not> past_fin (tc_state (conn m k))" "tc_state (conn m k) \<noteq> TcpState_kSynSent"
    and bytes: "payload = piece S (tv_sequence view) (length payload)"
  shows "rx_moves S k m (TcpModule_store_out_of_order k view payload m)"
proof -
  let ?c = "conn m k"
  note dropped = touch_moves[OF drop_reorder_touch ok]
  show ?thesis
  proof (cases "has_flag kTcpFlagFin view \<or> length payload = 0 \<or> length payload > 1460 \<or>
      \<not> seq_before (tv_sequence view) (tc_rcv_nxt ?c + of_nat 4096) \<or>
      (\<exists>seat\<in>set (tc_reorder ?c). rs_used seat \<and> seq_before (tv_sequence view) (rs_start seat + of_nat (rs_bytes seat)) \<and>
         seq_before (rs_start seat) (tv_sequence view + of_nat (length payload))) \<or>
      find (\<lambda>i. \<not> rs_used (tc_reorder ?c ! i)) [0..<4] = None")
    case True
    then have "TcpModule_store_out_of_order k view payload m = tcp_drop_reorder m"
      unfolding TcpModule_store_out_of_order_def Let_def by (elim disjE) simp_all
    then show ?thesis using dropped by simp
  next
    case False
    then obtain i where i: "find (\<lambda>i. \<not> rs_used (tc_reorder ?c ! i)) [0..<4] = Some i" by blast
    then have i4: "i < 4" unfolding find_upt_Some_iff by simp
    have fits: "length payload \<le> 1460" using False by simp
    let ?seat = "\<lparr>rs_used = True, rs_start = tv_sequence view, rs_bytes = length payload,
                  rs_data = copy_into (rs_data (tc_reorder ?c ! i)) 0 payload\<rparr>"
    have data: "length (rs_data (tc_reorder ?c ! i)) = 1460"
      using rx_okD(4)[OF ok, of "tc_reorder ?c ! i"] rx_okD(3)[OF ok] i4 by (simp add: seat_ok_def)
    have "seat_ok S ?seat" using fits data bytes by (simp add: seat_ok_def copy_into_alt)
    then have "\<forall>seat\<in>set ((tc_reorder ?c)[i := ?seat]). seat_ok S seat"
      using rx_okD(4)[OF ok] set_update_subset_insert[of "tc_reorder ?c" i ?seat] by blast
    then have g: "rx_grows S ?c (?c\<lparr>tc_reorder := (tc_reorder ?c)[i := ?seat]\<rparr>)"
      using rx_grows_seats[OF ok opn] rx_okD(3)[OF ok] by simp
    have "rx_moves S k m (upd_conn k (\<lambda>c. c\<lparr>tc_reorder := (tc_reorder c)[i :=
        \<lparr>rs_used = True, rs_start = tv_sequence view, rs_bytes = length payload,
         rs_data = copy_into (rs_data (tc_reorder c ! i)) 0 payload\<rparr>]\<rparr>) m)"
      by (rule moves_upd[OF k]) (rule g)
    then show ?thesis using False i dropped moves_touch[OF _ touch_upd_stats]
      unfolding TcpModule_store_out_of_order_def Let_def by simp
  qed
qed


section \<open>A segment absorbed\<close>

text \<open>Taking the peer's FIN: the cursor steps over it and the state leaves the open ones.\<close>

lemma rx_grows_fin:
  assumes ok: "rx_ok S c" and opn: "\<not> past_fin (tc_state c)" "tc_state c \<noteq> TcpState_kSynSent"
    and seats: "\<forall>seat\<in>set (tc_reorder c). rs_used seat \<longrightarrow> rs_start seat \<noteq> tc_rcv_nxt c + 1"
    and new: "past_fin st"
  shows "rx_grows S c (c\<lparr>tc_rcv_nxt := tc_rcv_nxt c + 1, tc_state := st\<rparr>)"
proof -
  let ?c = "c\<lparr>tc_rcv_nxt := tc_rcv_nxt c + 1, tc_state := st\<rparr>"
  have e: "rx_end ?c = rx_end c" using opn new by (simp add: rx_end_def)
  have "st \<noteq> TcpState_kSynSent" using new by (auto simp: past_fin_def)
  moreover from this have "rx_ok S ?c" using ok seats opn new unfolding rx_ok_def Let_def e by simp
  ultimately show ?thesis unfolding rx_grows_def e using opn(2) by (auto intro: exI[of _ 0])
qed


lemma upd_conn_comp: "k < length (tm_connections m) \<Longrightarrow> upd_conn k g (upd_conn k f m) = upd_conn k (\<lambda>c. g (f c)) m"
  by (simp add: upd_conn_def)

lemma fin_moves:
  assumes k: "k < length (tm_connections m)" and ok: "rx_ok S (conn m k)" and opn: "\<not> past_fin (tc_state (conn m k))" "tc_state (conn m k) \<noteq> TcpState_kSynSent"
    and seats: "\<forall>seat\<in>set (tc_reorder (conn m k)). rs_used seat \<longrightarrow> rs_start seat \<noteq> tc_rcv_nxt (conn m k) + 1"
    and new: "past_fin st" and last: "fin = tc_rcv_nxt (conn m k) + 1"
  shows "rx_moves S k m (upd_conn k (\<lambda>c. c\<lparr>tc_state := st\<rparr>) (upd_conn k (\<lambda>c. c\<lparr>tc_rcv_nxt := fin\<rparr>) m))"
  unfolding upd_conn_comp[OF k]
  by (rule moves_upd[OF k]) (use rx_grows_fin[OF ok opn seats new] in \<open>simp add: last\<close>)

abbreviation (input) takes_bytes :: "TcpState \<Rightarrow> bool" where
  "takes_bytes st \<equiv> st = TcpState_kEstablished \<or> st = TcpState_kSynReceived \<or> st = TcpState_kFinWait1 \<or> st = TcpState_kFinWait2"

text \<open>The payload bytes from the read cursor on.\<close>

lemma payload_at_cursor:
  assumes "payload = piece S seq (length payload)" "skip = unat (nxt - seq)" "n \<le> length payload - skip"
  shows "take n (drop skip payload) = piece S nxt n"
proof -
  have "seq + of_nat skip = nxt" using assms(2) by simp
  moreover have "take n (drop skip (piece S seq (length payload))) = piece S (seq + of_nat skip) (min n (length payload - skip))"
    by (simp add: piece_drop piece_take)
  ultimately show ?thesis using assms(1,3) by (metis min.absorb1)
qed

lemma bytes_grow:
  assumes ok: "rx_ok S c" and st: "takes_bytes (tc_state c)"
    and conf: "payload = piece S seq (length payload)" and skip: "skip = unat (tc_rcv_nxt c - seq)" "skip < length payload"
    and taken: "taken = min (length payload - skip) (4096 - RingQueue_count (tc_inbox c))"
  shows "rx_grows S c (c\<lparr>tc_inbox := push_bytes (take taken (drop skip payload)) (tc_inbox c), tc_rcv_nxt := tc_rcv_nxt c + of_nat taken\<rparr>)"
proof -
  let ?bs = "take taken (drop skip payload)"
  have len: "length ?bs = taken" using taken by simp
  have opn: "\<not> past_fin (tc_state c)" "tc_state c \<noteq> TcpState_kSynSent" using st by (auto simp: past_fin_def)
  have "?bs = piece S (tc_rcv_nxt c) taken" by (rule payload_at_cursor[OF conf skip(1)]) (simp add: taken)
  then have "rx_grows S c (c\<lparr>tc_inbox := push_bytes ?bs (tc_inbox c), tc_rcv_nxt := tc_rcv_nxt c + of_nat (length ?bs), tc_reorder := tc_reorder c\<rparr>)"
    using len rx_count[OF ok] rx_count_le[OF ok] taken rx_okD(3,4)[OF ok]
    by (intro rx_push[OF ok opn]) auto
  then show ?thesis unfolding len by simp
qed

lemma absorb_bytes_moves:
  assumes k: "k < length (tm_connections m)" and ok: "rx_ok S (conn m k)" and st: "takes_bytes (tc_state (conn m k))"
    and conf: "conforms S (conn m k) view payload segment_length"
  shows "rx_moves S k m (snd (TcpModule_absorb_bytes k view payload segment_length fire m))"
proof -
  define c where "c = conn m k"
  define skip :: u64 where "skip = ucast (tc_rcv_nxt c - tv_sequence view) - (if has_flag kTcpFlagSyn view then 1 else 0)"
  define taken where "taken = (if unat skip < length payload
      then min (length payload - unat skip) (4096 - RingQueue_count (tc_inbox c)) else 0)"
  define m1 where "m1 = (if unat skip < length payload
      then upd_stats (\<lambda>s. s\<lparr>st_bytes_delivered := st_bytes_delivered s + of_nat taken\<rparr>)
             (upd_conn k (\<lambda>c. c\<lparr>tc_inbox := push_bytes (take taken (drop (unat skip) payload)) (tc_inbox c),
                                tc_rcv_nxt := tc_rcv_nxt c + of_nat taken\<rparr>) m) else m)"
  define kEnd where "kEnd = tv_sequence view + of_nat segment_length"
  define fin where "fin = (has_flag kTcpFlagFin view \<and> tc_rcv_nxt (conn m1 k) + 1 = kEnd)"
  have conf': "payload = piece S (tv_sequence view) (length payload)" "has_flag kTcpFlagSyn view \<longrightarrow> payload = []"
      "has_flag kTcpFlagFin view \<longrightarrow> (\<forall>seat\<in>set (tc_reorder c). rs_used seat \<longrightarrow> rs_start seat \<noteq> kEnd)"
    using conf unfolding conforms_def c_def kEnd_def by blast+
  have mv1: "rx_moves S k m m1 \<and> tc_state (conn m1 k) = tc_state c \<and> tc_reorder (conn m1 k) = tc_reorder c"
  proof (cases "unat skip < length payload")
    case True
    then have noSyn: "\<not> has_flag kTcpFlagSyn view" using conf'(2) by auto
    have us: "unat skip = unat (tc_rcv_nxt c - tv_sequence view)"
      using noSyn by (simp add: skip_def unsigned_ucast_eq take_bit_eq_mod order.strict_trans[OF unsigned_less])
    have "rx_grows S c (c\<lparr>tc_inbox := push_bytes (take taken (drop (unat skip) payload)) (tc_inbox c), tc_rcv_nxt := tc_rcv_nxt c + of_nat taken\<rparr>)"
      by (rule bytes_grow[OF _ _ conf'(1) us True]) (use ok st True in \<open>simp_all add: c_def taken_def\<close>)
    then have "rx_moves S k m (upd_conn k (\<lambda>c. c\<lparr>tc_inbox := push_bytes (take taken (drop (unat skip) payload)) (tc_inbox c),
                                tc_rcv_nxt := tc_rcv_nxt c + of_nat taken\<rparr>) m)"
      unfolding c_def by (rule moves_upd[OF k])
    then show ?thesis using True moves_touch[OF _ touch_upd_stats] k by (simp add: m1_def conn_upd_conn c_def)
  next
    case False
    then show ?thesis using rx_moves_refl[OF ok] by (simp add: m1_def c_def)
  qed
  then have k1: "k < length (tm_connections m1)" and ok1: "rx_ok S (conn m1 k)" using rx_movesD k by auto
  let ?m' = "upd_conn k (\<lambda>c. c\<lparr>tc_rcv_nxt := kEnd\<rparr>) m1"
  define m2 where "m2 = (if fin then case tc_state (conn ?m' k) of
                    TcpState_kEstablished \<Rightarrow> upd_conn k (\<lambda>c. c\<lparr>tc_state := TcpState_kCloseWait\<rparr>) ?m'
                  | TcpState_kSynReceived \<Rightarrow> upd_conn k (\<lambda>c. c\<lparr>tc_state := TcpState_kCloseWait\<rparr>) ?m'
                  | TcpState_kFinWait1 \<Rightarrow> upd_conn k (\<lambda>c. c\<lparr>tc_state := TcpState_kClosing\<rparr>) ?m'
                  | TcpState_kFinWait2 \<Rightarrow>
                      TcpModule_begin_time_wait k (upd_conn k (\<lambda>c. c\<lparr>tc_state := TcpState_kTimeWait\<rparr>) ?m')
                  | _ \<Rightarrow> ?m' else m1)"
  have mv2: "rx_moves S k m1 m2"
  proof (cases fin)
    case True
    have fm: "rx_moves S k m1 (upd_conn k (\<lambda>c. c\<lparr>tc_state := new\<rparr>) ?m')" if "past_fin new" for new
      by (rule fin_moves[OF k1 ok1 _ _ _ that]) (use True mv1 st conf'(3) in \<open>auto simp: fin_def past_fin_def c_def\<close>)
    have tw: "touch k rx_view (upd_conn k (\<lambda>c. c\<lparr>tc_state := TcpState_kTimeWait\<rparr>) ?m')
        (TcpModule_begin_time_wait k (upd_conn k (\<lambda>c. c\<lparr>tc_state := TcpState_kTimeWait\<rparr>) ?m'))"
      by (rule begin_time_wait_touch) (use k1 in \<open>simp_all add: conn_upd_conn past_fin_def\<close>)
    have s: "tc_state (conn ?m' k) = tc_state (conn m k)" using mv1 k1 by (simp add: conn_upd_conn c_def)
    have "rx_moves S k m1 (upd_conn k (\<lambda>c. c\<lparr>tc_state := TcpState_kCloseWait\<rparr>) ?m')"
        "rx_moves S k m1 (upd_conn k (\<lambda>c. c\<lparr>tc_state := TcpState_kClosing\<rparr>) ?m')"
      by (rule fm, simp add: past_fin_def)+
    moreover have "rx_moves S k m1 (TcpModule_begin_time_wait k (upd_conn k (\<lambda>c. c\<lparr>tc_state := TcpState_kTimeWait\<rparr>) ?m'))"
      by (rule moves_touch[OF fm tw]) (simp add: past_fin_def)
    ultimately show ?thesis unfolding m2_def s using st True by (elim disjE) simp_all
  next
    case False
    then show ?thesis using rx_moves_refl[OF ok1] by (simp add: m2_def)
  qed
  have "rx_moves S k m m2" using mv1 mv2 rx_moves_trans by blast
  then have "rx_moves S k m (if taken \<noteq> 0 \<or> fin then TcpModule_transmit_segment (conn m2 k) kTcpFlagAck [] (tc_snd_nxt (conn m2 k)) m2 else m2)"
    using moves_touch[OF _ touch_transmit] by auto
  moreover have "snd (TcpModule_absorb_bytes k view payload segment_length fire m) =
      (if taken \<noteq> 0 \<or> fin then TcpModule_transmit_segment (conn m2 k) kTcpFlagAck [] (tc_snd_nxt (conn m2 k)) m2 else m2)"
    unfolding TcpModule_absorb_bytes_def Let_def snd_conv
    unfolding c_def[symmetric] skip_def[symmetric] taken_def[symmetric] m1_def[symmetric] kEnd_def[symmetric]
      fin_def[symmetric] m2_def[symmetric] ..
  ultimately show ?thesis by simp
qed


lemma st_viewD: "st_view c = st_view c' \<Longrightarrow> tc_state c = tc_state c'" "st_view c = st_view c' \<Longrightarrow> rx_view c = rx_view c'"
  by (simp_all add: st_view_def)

lemma touch_upd_st:
  "(\<And>c. tc_inbox (f c) = tc_inbox c \<and> tc_rcv_nxt (f c) = tc_rcv_nxt c \<and> tc_reorder (f c) = tc_reorder c \<and>
      tc_state (f c) = tc_state c \<and> tc_used (f c) = tc_used c \<and> tc_stamp (f c) = tc_stamp c) \<Longrightarrow>
   touch k st_view m (upd_conn k f m)"
  by (rule touch_upd_conn) (simp add: st_view_def rx_view_def)

text \<open>The sliding side of a segment, by outcome.\<close>

lemma absorb_ack_cases:
  assumes "TcpModule_absorb_ack k view n fire m = (stop, fire', m')"
  obtains m0 where "m0 = (if has_flag kTcpFlagAck view then upd_conn k (\<lambda>c. c\<lparr>tc_snd_window := ucast (tv_window view)\<rparr>) m else m)"
    "stop" "m' = upd_stats (\<lambda>s. s\<lparr>st_ack_beyond_dropped := st_ack_beyond_dropped s + 1\<rparr>) m0"
  | m0 m1 where "m0 = (if has_flag kTcpFlagAck view then upd_conn k (\<lambda>c. c\<lparr>tc_snd_window := ucast (tv_window view)\<rparr>) m else m)"
    "m1 = tcp_slide k view n m0"
    "\<not> (has_flag kTcpFlagAck view \<and> seq_before (tc_snd_una (conn m0 k)) (tv_acknowledgement view) \<and>
         seq_before (tc_snd_nxt (conn m0 k)) (tv_acknowledgement view))"
    "tc_snd_una (conn m1 k) = tc_snd_nxt (conn m1 k) \<and> tc_state (conn m1 k) = TcpState_kClosing \<and>
       stop \<and> m' = TcpModule_begin_time_wait k m1 \<or>
     tc_snd_una (conn m1 k) = tc_snd_nxt (conn m1 k) \<and> tc_state (conn m1 k) = TcpState_kLastAck \<and>
       stop \<and> m' = snd (TcpModule_release_connection k fire TcpFarewell_kGraceful m1) \<or>
     tc_snd_una (conn m1 k) = tc_snd_nxt (conn m1 k) \<and> tc_state (conn m1 k) = TcpState_kFinWait1 \<and>
       m' = upd_conn k (\<lambda>c. c\<lparr>tc_state := TcpState_kFinWait2\<rparr>) m1 \<or>
     \<not> (tc_snd_una (conn m1 k) = tc_snd_nxt (conn m1 k) \<and>
         (tc_state (conn m1 k) = TcpState_kClosing \<or> tc_state (conn m1 k) = TcpState_kLastAck \<or> tc_state (conn m1 k) = TcpState_kFinWait1)) \<and>
       m' = m1"
proof -
  define m0 where "m0 = (if has_flag kTcpFlagAck view then upd_conn k (\<lambda>c. c\<lparr>tc_snd_window := ucast (tv_window view)\<rparr>) m else m)"
  define m1 where "m1 = tcp_slide k view n m0"
  note eq = assms[unfolded TcpModule_absorb_ack_def Let_def m0_def[symmetric] m1_def[symmetric]]
  show thesis
  proof (cases "has_flag kTcpFlagAck view \<and> seq_before (tc_snd_una (conn m0 k)) (tv_acknowledgement view) \<and>
         seq_before (tc_snd_nxt (conn m0 k)) (tv_acknowledgement view)")
    case True
    then show thesis using eq that(1)[OF m0_def] by simp
  next
    case False
    note eq = eq[unfolded if_not_P[OF False]]
    show thesis
    proof (rule that(2)[OF m0_def m1_def False], cases "tc_snd_una (conn m1 k) = tc_snd_nxt (conn m1 k)")
      case True
      note eq = eq[unfolded eqTrueI[OF True] simp_thms]
      show "tc_snd_una (conn m1 k) = tc_snd_nxt (conn m1 k) \<and> tc_state (conn m1 k) = TcpState_kClosing \<and>
       stop \<and> m' = TcpModule_begin_time_wait k m1 \<or>
     tc_snd_una (conn m1 k) = tc_snd_nxt (conn m1 k) \<and> tc_state (conn m1 k) = TcpState_kLastAck \<and>
       stop \<and> m' = snd (TcpModule_release_connection k fire TcpFarewell_kGraceful m1) \<or>
     tc_snd_una (conn m1 k) = tc_snd_nxt (conn m1 k) \<and> tc_state (conn m1 k) = TcpState_kFinWait1 \<and>
       m' = upd_conn k (\<lambda>c. c\<lparr>tc_state := TcpState_kFinWait2\<rparr>) m1 \<or>
     \<not> (tc_snd_una (conn m1 k) = tc_snd_nxt (conn m1 k) \<and>
         (tc_state (conn m1 k) = TcpState_kClosing \<or> tc_state (conn m1 k) = TcpState_kLastAck \<or> tc_state (conn m1 k) = TcpState_kFinWait1)) \<and>
       m' = m1"
        using eq True by (cases "tc_state (conn m1 k)") (simp_all add: case_prod_beta)
    qed (use eq in simp)
  qed
qed

lemma slide_touch: "touch k st_view m (tcp_slide k view n m)"
proof -
  have dup: "touch k st_view m (upd_conn k (\<lambda>c. c\<lparr>tc_duplicate_acks := tc_duplicate_acks c + 1\<rparr>) m)"
    by (rule touch_upd_st) simp
  have again: "touch k st_view m (TcpModule_resend_oldest k (upd_stats f
      (upd_conn k (\<lambda>c. c\<lparr>tc_duplicate_acks := 0\<rparr>) (upd_conn k (\<lambda>c. c\<lparr>tc_duplicate_acks := tc_duplicate_acks c + 1\<rparr>) m))))" for f
    by (rule touch_trans[OF touch_trans[OF touch_trans[OF dup touch_upd_st] touch_upd_stats] resend_touch]) simp
  have slid: "touch k st_view m (upd_conn k (\<lambda>c. c\<lparr>tc_snd_una := a,
      tc_outbox := release_bytes (unat (a - tc_snd_una c)) (tc_outbox c), tc_duplicate_acks := 0\<rparr>) m)" for a
    by (rule touch_upd_st) simp
  show ?thesis unfolding tcp_slide_def Let_def by (simp only: slid dup again touch_refl if_split simp_thms)
qed

text \<open>The sliding side of a segment leaves the receive side alone, or ends the connection.\<close>

lemma absorb_ack_outcome:
  assumes k: "k < length (tm_connections m)"
    and run: "TcpModule_absorb_ack k view n fire m = (stop, fire', m')"
  shows "touch k rx_view m m' \<and> (takes_bytes (tc_state (conn m k)) \<longrightarrow> takes_bytes (tc_state (conn m' k))) \<or>
    stop \<and> released k m m'"
  using run
proof (cases rule: absorb_ack_cases)
  case (1 m0)
  have "touch k st_view m m0" unfolding 1(1) by (simp add: touch_refl touch_upd_st)
  then have t': "touch k st_view m m'" unfolding 1(3) by (rule touch_trans[OF _ touch_upd_stats])
  then show ?thesis using st_rx[OF t'] st_viewD(1)[OF touchD(3)[OF t']] by simp
next
  case (2 m0 m1)
  have "touch k st_view m m0" unfolding 2(1) by (simp add: touch_refl touch_upd_st)
  then have t: "touch k st_view m m1" unfolding 2(2) by (rule touch_trans[OF _ slide_touch])
  note len = touchD(1)[OF t] and st = st_viewD(1)[OF touchD(3)[OF t]]
  from 2(4) show ?thesis
  proof (elim disjE conjE)
    assume c: "tc_state (conn m1 k) = TcpState_kClosing" "m' = TcpModule_begin_time_wait k m1"
    then have "touch k rx_view m1 m'" using begin_time_wait_touch[of k m1] k len by (simp add: past_fin_def)
    then show ?thesis using touch_trans[OF st_rx[OF t]] c(1) st by auto
  next
    assume l: "stop" "m' = snd (TcpModule_release_connection k fire TcpFarewell_kGraceful m1)"
    then have "released k m1 m'" using release_released[of k m1] k len by simp
    then show ?thesis using touch_released[OF st_stamp[OF t]] l(1) by blast
  next
    assume f: "tc_state (conn m1 k) = TcpState_kFinWait1" "m' = upd_conn k (\<lambda>c. c\<lparr>tc_state := TcpState_kFinWait2\<rparr>) m1"
    have "touch k rx_view m1 m'" using f k len by (simp add: touch_def conn_upd_conn rx_view_def past_fin_def)
    then show ?thesis using touch_trans[OF st_rx[OF t]] f k len by (simp add: conn_upd_conn)
  next
    assume "m' = m1"
    then show ?thesis using st_rx[OF t] st by simp
  qed
qed

lemma conforms_view: "rx_view c = rx_view c' \<Longrightarrow> conforms S c view payload n = conforms S c' view payload n"
  by (simp add: conforms_def rx_view_def)

lemma absorb_tail_outcome:
  assumes k: "k < length (tm_connections m)" and ok: "rx_ok S (conn m k)"
    and st: "takes_bytes (tc_state (conn m k)) \<or> past_fin (tc_state (conn m k))"
    and conf: "conforms S (conn m k) view payload n"
  shows "rx_moves S k m (snd (tcp_absorb_tail k view payload n fire m)) \<or> freed k m (snd (tcp_absorb_tail k view payload n fire m))"
proof -
  obtain stop fire1 m1 where run: "TcpModule_absorb_ack k view n fire m = (stop, fire1, m1)" by (metis prod_cases3)
  from absorb_ack_outcome[OF k run] show ?thesis
  proof
    assume "stop \<and> released k m m1"
    then show ?thesis using run by (simp add: tcp_absorb_tail_def released_freed)
  next
    assume "touch k rx_view m m1 \<and> (takes_bytes (tc_state (conn m k)) \<longrightarrow> takes_bytes (tc_state (conn m1 k)))"
    then have t: "touch k rx_view m m1" and st1: "takes_bytes (tc_state (conn m k)) \<longrightarrow> takes_bytes (tc_state (conn m1 k))" by auto
    note v = touchD(3)[OF t]
    have k1: "k < length (tm_connections m1)" using touchD(1)[OF t] k by simp
    have ok1: "rx_ok S (conn m1 k)" using rx_ok_view[OF v] ok by simp
    have conf1: "conforms S (conn m1 k) view payload n" using conforms_view[OF v] conf by simp
    have mv: "rx_moves S k m m1" by (rule touch_moves[OF t ok])
    let ?stop_at = "tv_sequence view + of_nat n"
    show ?thesis
    proof (cases "stop \<or> seq_before_eq ?stop_at (tc_rcv_nxt (conn m1 k))")
      case True
      have "touch k rx_view m1 (TcpModule_transmit_segment c f p q (upd_stats g m1))" for c f p q g
        by (rule touch_trans[OF touch_upd_stats touch_transmit])
      then show ?thesis using True mv moves_touch[OF mv] run by (cases stop) (simp_all add: tcp_absorb_tail_def Let_def)
    next
      case False
      then have open1: "\<not> past_fin (tc_state (conn m1 k))" using conf1 by (auto simp: conforms_def)
      then have take1: "takes_bytes (tc_state (conn m1 k))" using st st1 v by (auto simp: rx_view_def)
      have stop: "\<not> stop" "\<not> seq_before_eq ?stop_at (tc_rcv_nxt (conn m1 k))" using False by simp_all
      show ?thesis
      proof (cases "seq_before (tc_rcv_nxt (conn m1 k)) (tv_sequence view)")
        case True
        let ?m2 = "TcpModule_store_out_of_order k view payload m1"
        obtain fire2 m3 where h: "TcpModule_harvest_reorder k fire1 ?m2 = (fire2, m3)" by fastforce
        have s: "rx_moves S k m1 ?m2"
          by (rule store_moves[OF k1 ok1 open1]) (use take1 conf1 in \<open>auto simp: conforms_def\<close>)
        then have "rx_moves S k ?m2 m3" using harvest_moves[of k ?m2 S fire1] rx_movesD(1,2)[OF s] k1 h by simp
        then have "rx_moves S k m m3" using mv s rx_moves_trans by blast
        then show ?thesis using run stop True h moves_touch[OF _ touch_transmit]
          by (simp add: tcp_absorb_tail_def Let_def)
      next
        case False
        obtain fire2 m2 where b: "TcpModule_absorb_bytes k view payload n fire1 m1 = (fire2, m2)" by fastforce
        have s: "rx_moves S k m1 m2" using absorb_bytes_moves[OF k1 ok1 take1 conf1, of fire1] b by simp
        then have "rx_moves S k m2 (snd (TcpModule_harvest_reorder k fire2 m2))"
          using harvest_moves[of k m2 S fire2] rx_movesD(1,2)[OF s] k1 by simp
        then have "rx_moves S k m (snd (TcpModule_harvest_reorder k fire2 m2))" using mv s rx_moves_trans by blast
        then show ?thesis using run stop False b by (simp add: tcp_absorb_tail_def Let_def)
      qed
    qed
  qed
qed

end
