(* ===== verification/Tcp_Wire.thy ===== *)
theory Tcp_Wire
  imports Tcp Internet_Facts
begin

text \<open>
  TCP segments as bytes: what the module transmits is what the other end's \<^verbatim>\<open>handle\<close> reads.
\<close>

unbundle bit_operations_syntax

section \<open>Reading a segment\<close>

text \<open>The segment a datagram carries when it passes the tests at the top of \<^verbatim>\<open>handle\<close>.\<close>

definition tcp_segment :: "u8 list \<Rightarrow> Ipv4View \<Rightarrow> (TcpView \<times> u8 list \<times> nat) option" where
  "tcp_segment bytes header =
     (case ParseTcp bytes of Inl _ \<Rightarrow> None
      | Inr view \<Rightarrow>
          if checksum_value_of [tcp_pseudo_header (i4_source header) (i4_destination header) (of_nat (length bytes)), bytes] \<noteq> 0
          then None
          else let payload = drop (unat (tv_header_bytes view)) bytes in
            Some (view, payload, length payload + (if has_flag kTcpFlagSyn view then 1 else 0) + (if has_flag kTcpFlagFin view then 1 else 0)))"

lemma handle_segment:
  assumes "tcp_segment bytes header = Some (view, payload, n)"
  shows "TcpModule_handle bytes header m =
    (case TcpModule_find_connection (i4_source header) (tv_source_port view) (tv_destination_port view) m of
       None \<Rightarrow> TcpModule_deliver_fire PendingFire_none (TcpModule_answer_unclaimed header view n m)
     | Some k \<Rightarrow>
         if tc_state (conn m k) = TcpState_kTimeWait \<and> has_flag kTcpFlagSyn view \<and> \<not> has_flag kTcpFlagAck view
         then TcpModule_deliver_fire PendingFire_none
                (TcpModule_answer_unclaimed header view n
                  (snd (TcpModule_release_connection k PendingFire_none TcpFarewell_kGraceful m)))
         else
           let kUnaBefore = tc_snd_una (conn m k) in
           case TcpModule_absorb_segment k view payload n PendingFire_none m of
             (fire, m1) \<Rightarrow>
               TcpModule_deliver_fire fire
                 (if tc_used (conn m1 k)
                  then TcpModule_after_ack_movement k (seq_before kUnaBefore (tc_snd_una (conn m1 k))) (tm_service_now_ns m1) m1
                  else m1))"
proof -
  obtain parsed: "ParseTcp bytes = Inr view"
    and sum: "checksum_value_of [tcp_pseudo_header (i4_source header) (i4_destination header) (of_nat (length bytes)), bytes] = 0"
    and pl: "payload = drop (unat (tv_header_bytes view)) bytes"
      "n = length payload + (if has_flag kTcpFlagSyn view then 1 else 0) + (if has_flag kTcpFlagFin view then 1 else 0)"
    using assms by (auto simp: tcp_segment_def Let_def split: sum.splits if_splits)
  note h = TcpModule_handle_def[of bytes header m, unfolded parsed sum.case sum Let_def pl(1)[symmetric] pl(2)[symmetric]]
  show ?thesis unfolding h Let_def by simp
qed

section \<open>Writing a segment\<close>

abbreviation (input) fits_tcp :: "u8 list \<Rightarrow> bool" where
  "fits_tcp payload \<equiv> length payload \<le> 1480"

lemma tcp_header_length [write_simps]: "length (tcp_header b lp rp s a f w) = length b"
  by (simp add: tcp_header_def Let_def write_simps)

lemma tcp_header_reads:
  assumes "20 \<le> length b"
  shows "ReadWord16Be (tcp_header b lp rp s a f w) 0 = lp" "ReadWord16Be (tcp_header b lp rp s a f w) 2 = rp"
    "ReadWord32Be (tcp_header b lp rp s a f w) 4 = s" "ReadWord32Be (tcp_header b lp rp s a f w) 8 = a"
    "tcp_header b lp rp s a f w ! 12 = 0x50" "tcp_header b lp rp s a f w ! 13 = f"
    "ReadWord16Be (tcp_header b lp rp s a f w) 14 = w"
    "tcp_header b lp rp s a f w ! 16 = 0" "tcp_header b lp rp s a f w ! 17 = 0"
  using assms
  by (simp_all add: tcp_header_def Let_def write_simps)
    ((rule read16be_bytes read32be_bytes; simp add: write_simps)+)?

definition tcp_wire :: "u32 \<Rightarrow> Connection \<Rightarrow> u8 \<Rightarrow> u8 list \<Rightarrow> u32 \<Rightarrow> u8 list" where
  "tcp_wire own c flags payload sequence = take (20 + length payload) (tcp_outgoing own c flags payload sequence)"

definition tcp_unsealed :: "Connection \<Rightarrow> u8 \<Rightarrow> u8 list \<Rightarrow> u32 \<Rightarrow> u8 list" where
  "tcp_unsealed c flags payload sequence = take (20 + length payload)
     (copy_into (tcp_header (replicate 1500 0) (tc_local_port c) (tc_remote_port c) sequence (tc_rcv_nxt c) flags
        (TcpModule_receive_window_of c)) 20 payload)"

lemma tcp_unsealed_eq:
  assumes "fits_tcp payload"
  shows "tcp_unsealed c flags payload sequence =
    take 20 (tcp_header (replicate 1500 0) (tc_local_port c) (tc_remote_port c) sequence (tc_rcv_nxt c) flags
      (TcpModule_receive_window_of c)) @ payload"
  unfolding tcp_unsealed_def by (subst copy_into_alt) (use assms in \<open>simp_all add: write_simps\<close>)

lemma tcp_unsealed_length: "fits_tcp payload \<Longrightarrow> length (tcp_unsealed c flags payload sequence) = 20 + length payload"
  by (simp add: tcp_unsealed_eq write_simps)

lemma tcp_unsealed_reads:
  assumes "fits_tcp payload"
  shows "ReadWord16Be (tcp_unsealed c flags payload sequence) 0 = tc_local_port c"
    "ReadWord16Be (tcp_unsealed c flags payload sequence) 2 = tc_remote_port c"
    "ReadWord32Be (tcp_unsealed c flags payload sequence) 4 = sequence"
    "ReadWord32Be (tcp_unsealed c flags payload sequence) 8 = tc_rcv_nxt c"
    "tcp_unsealed c flags payload sequence ! 12 = 0x50" "tcp_unsealed c flags payload sequence ! 13 = flags"
    "ReadWord16Be (tcp_unsealed c flags payload sequence) 14 = TcpModule_receive_window_of c"
    "tcp_unsealed c flags payload sequence ! 16 = 0" "tcp_unsealed c flags payload sequence ! 17 = 0"
proof -
  let ?h = "tcp_header (replicate 1500 0) (tc_local_port c) (tc_remote_port c) sequence (tc_rcv_nxt c) flags (TcpModule_receive_window_of c)"
  note r = tcp_header_reads[of "replicate 1500 0" "tc_local_port c" "tc_remote_port c" sequence "tc_rcv_nxt c" flags "TcpModule_receive_window_of c", simplified]
  have n: "i < 20 \<Longrightarrow> tcp_unsealed c flags payload sequence ! i = ?h ! i" for i
    unfolding tcp_unsealed_eq[OF assms] by (simp add: nth_append write_simps)
  then have r16: "i < 19 \<Longrightarrow> ReadWord16Be (tcp_unsealed c flags payload sequence) i = ReadWord16Be ?h i"
    and r32: "i < 17 \<Longrightarrow> ReadWord32Be (tcp_unsealed c flags payload sequence) i = ReadWord32Be ?h i" for i
    by (simp_all add: ReadWord16Be_def ReadWord32Be_def)
  show "ReadWord16Be (tcp_unsealed c flags payload sequence) 0 = tc_local_port c"
    "ReadWord16Be (tcp_unsealed c flags payload sequence) 2 = tc_remote_port c"
    "ReadWord32Be (tcp_unsealed c flags payload sequence) 4 = sequence"
    "ReadWord32Be (tcp_unsealed c flags payload sequence) 8 = tc_rcv_nxt c"
    "tcp_unsealed c flags payload sequence ! 12 = 0x50" "tcp_unsealed c flags payload sequence ! 13 = flags"
    "ReadWord16Be (tcp_unsealed c flags payload sequence) 14 = TcpModule_receive_window_of c"
    "tcp_unsealed c flags payload sequence ! 16 = 0" "tcp_unsealed c flags payload sequence ! 17 = 0"
    by (simp_all add: n r16 r32 r)
qed

lemma tcp_pseudo_length: "length (tcp_pseudo_header s d n) = 12"
  by (simp add: tcp_pseudo_header_def Let_def write_simps)

lemma tcp_wire_sealed:
  fixes own :: u32 and c :: Connection
  assumes "fits_tcp payload"
  defines "h \<equiv> tcp_pseudo_header (SourceAddressFor own (tc_remote_address c)) (tc_remote_address c) (of_nat (20 + length payload))"
  obtains v where "tcp_wire own c flags payload sequence = WriteWord16Be (tcp_unsealed c flags payload sequence) 16 v"
    "checksum_value_of [h, tcp_wire own c flags payload sequence] = 0"
proof -
  let ?b = "tcp_unsealed c flags payload sequence"
  let ?c = "checksum_value_of [h, ?b]"
  have wire: "tcp_wire own c flags payload sequence = WriteWord16Be ?b 16 (if ?c = 0 then 0xFFFF else ?c)"
    unfolding tcp_wire_def tcp_outgoing_def seal_checksum_def Let_def tcp_unsealed_def h_def by (simp add: take_write16be)
  have "checksum_value_of [h, tcp_wire own c flags payload sequence] = 0" unfolding wire
    by (rule checksum_sealed_ones)
      (use assms(1) tcp_unsealed_length[OF assms(1)] tcp_unsealed_reads[OF assms(1)] in \<open>simp_all add: h_def tcp_pseudo_length\<close>)
  then show thesis using that wire by blast
qed

text \<open>
  What the other end reads in a transmitted segment, up to the checksum word.
\<close>

definition tcp_view_of :: "Connection \<Rightarrow> u8 \<Rightarrow> u32 \<Rightarrow> u16 \<Rightarrow> TcpView" where
  "tcp_view_of c flags sequence checksum =
     \<lparr>tv_source_port = tc_local_port c, tv_destination_port = tc_remote_port c, tv_sequence = sequence,
      tv_acknowledgement = tc_rcv_nxt c, tv_header_bytes = 20, tv_flags = flags,
      tv_window = TcpModule_receive_window_of c, tv_checksum = checksum\<rparr>"

lemma tcp_segment_wire:
  assumes "fits_tcp payload" "i4_source header = SourceAddressFor own (tc_remote_address c)" "i4_destination header = tc_remote_address c"
  obtains v where "tcp_segment (tcp_wire own c flags payload sequence) header =
    Some (tcp_view_of c flags sequence v, payload,
      length payload + (if flags AND 2 \<noteq> 0 then 1 else 0) + (if flags AND 1 \<noteq> 0 then 1 else 0))"
proof -
  let ?w = "tcp_wire own c flags payload sequence" and ?b = "tcp_unsealed c flags payload sequence"
  obtain v where v: "?w = WriteWord16Be ?b 16 v"
      "checksum_value_of [tcp_pseudo_header (SourceAddressFor own (tc_remote_address c)) (tc_remote_address c) (of_nat (20 + length payload)), ?w] = 0"
    using tcp_wire_sealed[OF assms(1)] by metis
  note len = tcp_unsealed_length[OF assms(1), of c flags sequence] and r = tcp_unsealed_reads[OF assms(1), of c flags sequence]
  have wl: "length ?w = 20 + length payload" by (simp add: v(1) write_simps len)
  have nib: "HighNibble (80 :: u8) = 5" by (simp add: word_unat_eq_iff unat_HighNibble)
  have n: "?w ! 12 = 0x50" "?w ! 13 = flags" using r len by (simp_all add: v(1) write_simps)
  have "ParseTcp ?w = Inr (tcp_view_of c flags sequence v)"
    unfolding ParseTcp_def Let_def wl n nib tcp_view_of_def
    using len r by (simp add: v(1) read_write16be read16be_write_other read32be_write_other)
  moreover have "drop 20 ?w = payload" unfolding v(1) tcp_unsealed_eq[OF assms(1)] by (simp add: drop_write16be write_simps)
  ultimately show thesis using that v(2) wl assms(2,3)
    by (simp add: tcp_segment_def tcp_view_of_def has_flag_def Let_def del: of_nat_add)
qed

text \<open>
  C23. What one module transmits, another reads. A segment handed to the sink passes the receiving
  module's parser and checksum under the addresses of the datagram that carries it, and what comes out
  is the connection's ports, sequence number, acknowledgement, flags and window, and the payload,
  unchanged.
\<close>

theorem tcp_segment_round_trip:
  assumes "DatagramSink_assigned (tm_sink m)" "length payload \<le> 1480"
    and "i4_source header = SourceAddressFor (tm_own_address m) (tc_remote_address c)" "i4_destination header = tc_remote_address c"
  shows "\<exists>bytes checksum. tm_sent (TcpModule_transmit_segment c flags payload sequence m) = tm_sent m @
      [(tm_sink m, \<lparr>od_destination = tc_remote_address c, od_protocol = 6, od_payload = bytes\<rparr>)] \<and>
    tcp_segment bytes header = Some
      (\<lparr>tv_source_port = tc_local_port c, tv_destination_port = tc_remote_port c, tv_sequence = sequence,
        tv_acknowledgement = tc_rcv_nxt c, tv_header_bytes = 20, tv_flags = flags,
        tv_window = TcpModule_receive_window_of c, tv_checksum = checksum\<rparr>, payload,
       length payload + (if flags AND 2 \<noteq> 0 then 1 else 0) + (if flags AND 1 \<noteq> 0 then 1 else 0))"
proof -
  obtain v where "tcp_segment (tcp_wire (tm_own_address m) c flags payload sequence) header =
    Some (tcp_view_of c flags sequence v, payload,
      length payload + (if flags AND 2 \<noteq> 0 then 1 else 0) + (if flags AND 1 \<noteq> 0 then 1 else 0))"
    using tcp_segment_wire[OF assms(2-4)] by blast
  then show ?thesis using assms(1) by (simp add: TcpModule_transmit_segment_def tcp_wire_def tcp_view_of_def upd_stats_def)
qed

theorem tcp_segment_round_trip_witness:
  "\<exists>bytes checksum. tm_sent (TcpModule_transmit_segment Connection_empty 0x18 [7, 8, 9] 100
       (TcpModule_new\<lparr>tm_sink := \<lparr>ds_context = Some 1, ds_send = Some 2\<rparr>\<rparr>)) =
      [(\<lparr>ds_context = Some 1, ds_send = Some 2\<rparr>, \<lparr>od_destination = 0, od_protocol = 6, od_payload = bytes\<rparr>)] \<and>
    tcp_segment bytes \<lparr>i4_header_bytes = 20, i4_total_length = 43, i4_protocol = 6, i4_source = 0, i4_destination = 0\<rparr> = Some
      (\<lparr>tv_source_port = 0, tv_destination_port = 0, tv_sequence = 100, tv_acknowledgement = 0, tv_header_bytes = 20, tv_flags = 0x18,
        tv_window = 4096, tv_checksum = checksum\<rparr>, [7, 8, 9], 3)"
proof -
  let ?m = "TcpModule_new\<lparr>tm_sink := \<lparr>ds_context = Some 1, ds_send = Some 2\<rparr>\<rparr>"
  let ?h = "\<lparr>i4_header_bytes = 20, i4_total_length = 43, i4_protocol = 6, i4_source = 0, i4_destination = 0\<rparr>"
  have w: "TcpModule_receive_window_of Connection_empty = 4096"
    by (simp add: TcpModule_receive_window_of_def Connection_empty_def RingQueue_count_def RingQueue_init_def)
  have f: "0x18 AND 2 = (0 :: u8)" "0x18 AND 1 = (0 :: u8)" by simp_all
  have c: "tc_remote_address Connection_empty = 0" "tc_local_port Connection_empty = 0" "tc_remote_port Connection_empty = 0"
      "tc_rcv_nxt Connection_empty = 0" by (simp_all add: Connection_empty_def)
  have m: "tm_sent ?m = []" "tm_own_address ?m = 0" "tm_sink ?m = \<lparr>ds_context = Some 1, ds_send = Some 2\<rparr>" by (simp_all add: TcpModule_new_def)
  have "DatagramSink_assigned (tm_sink ?m)" "length [7, 8, 9 :: u8] \<le> 1480"
      "i4_source ?h = SourceAddressFor (tm_own_address ?m) (tc_remote_address Connection_empty)"
      "i4_destination ?h = tc_remote_address Connection_empty"
    unfolding m c by (simp_all add: DatagramSink_assigned_def SourceAddressFor_def)
  from tcp_segment_round_trip[OF this, of "0x18" 100] show ?thesis unfolding c w f m by (simp add: numeral_3_eq_3)
qed

end
