(* ===== verification/Tcp_Run.thy ===== *)
theory Tcp_Run
  imports Tcp_Stream Tcp_Wire
begin

text \<open>
  Runs of the TCP module: the public operations as one type, what each of them does to the seats of
  the connection table, and the properties that hold over every sequence of them.
\<close>

unbundle bit_operations_syntax

section \<open>Operations\<close>

datatype TcpOp =
    Op_aim DatagramSink u32
  | Op_handle "u8 list" Ipv4View
  | Op_listen u16 TcpEvents
  | Op_unlisten TcpListenTicket
  | Op_take_accepted TcpListenTicket
  | Op_connect u16 u32 u16 TcpEvents u64
  | Op_send TcpTicket "u8 list" u64
  | Op_receive TcpTicket nat
  | Op_close TcpTicket
  | Op_abandon TcpTicket
  | Op_service u64

fun tcp_exec :: "TcpOp \<Rightarrow> TcpModule \<Rightarrow> TcpModule" where
  "tcp_exec (Op_aim sink own) m = TcpModule_aim sink own m"
| "tcp_exec (Op_handle bytes header) m = TcpModule_handle bytes header m"
| "tcp_exec (Op_listen port events) m = snd (TcpModule_listen port events m)"
| "tcp_exec (Op_unlisten ticket) m = snd (TcpModule_unlisten ticket m)"
| "tcp_exec (Op_take_accepted ticket) m = snd (TcpModule_take_accepted ticket m)"
| "tcp_exec (Op_connect lp ra rp events now) m = snd (TcpModule_connect lp ra rp events now m)"
| "tcp_exec (Op_send ticket payload now) m = snd (TcpModule_send ticket payload now m)"
| "tcp_exec (Op_receive ticket capacity) m = snd (TcpModule_receive ticket capacity m)"
| "tcp_exec (Op_close ticket) m = TcpModule_close ticket m"
| "tcp_exec (Op_abandon ticket) m = TcpModule_abandon ticket m"
| "tcp_exec (Op_service now) m = TcpModule_service now m"

section \<open>An operation on one connection alters no other\<close>

named_theorems tcp_frame

definition alters :: "nat \<Rightarrow> TcpModule \<Rightarrow> TcpModule \<Rightarrow> bool" where
  "alters k m m' \<longleftrightarrow> length (tm_connections m') = length (tm_connections m) \<and> (\<forall>j. j \<noteq> k \<longrightarrow> conn m' j = conn m j)"

lemma altersD: "alters k m m' \<Longrightarrow> length (tm_connections m') = length (tm_connections m)"
    "alters k m m' \<Longrightarrow> j \<noteq> k \<Longrightarrow> conn m' j = conn m j"
  by (simp_all add: alters_def)

lemma alters_trans: "alters k m1 m2 \<Longrightarrow> alters k m2 m3 \<Longrightarrow> alters k m1 m3"
  by (simp add: alters_def)

lemma alters_refl [tcp_frame]: "alters k m m"
  by (simp add: alters_def)

lemma touch_alters: "touch k view m m' \<Longrightarrow> alters k m m'"
  by (simp add: touch_def alters_def)

lemma released_alters: "released k m m' \<Longrightarrow> alters k m m'"
  by (simp add: released_def alters_def)

lemma alters_after:
  assumes "\<And>m. alters k m (f m)" "alters k m m1" shows "alters k m (f m1)"
  using alters_trans[OF assms(2) assms(1)] .

lemma alters_upd: "alters k m (upd_conn k f m)"
  by (cases "k < length (tm_connections m)")
    (simp_all add: alters_def conn_upd_conn, simp add: conn_def upd_conn_def list_update_beyond)

lemma alters_fields [tcp_frame]:
  "alters k m m1 \<Longrightarrow> alters k m (upd_conn k f m1)" "alters k m m1 \<Longrightarrow> alters k m (upd_stats g m1)"
  "alters k m m1 \<Longrightarrow> alters k m (m1\<lparr>tm_timers := t\<rparr>)" "alters k m m1 \<Longrightarrow> alters k m (m1\<lparr>tm_stats := s\<rparr>)"
  "alters k m m1 \<Longrightarrow> alters k m (m1\<lparr>tm_listens := ls\<rparr>)" "alters k m m1 \<Longrightarrow> alters k m (m1\<lparr>tm_isn_cursor := i\<rparr>)"
  "alters k m m1 \<Longrightarrow> alters k m (m1\<lparr>tm_ephemeral_cursor := e\<rparr>)"
  by (erule alters_trans, rule alters_upd) (simp_all add: alters_def)

lemma alters_calls [tcp_frame]:
  "alters k m m1 \<Longrightarrow> alters k m (TcpModule_transmit_segment c flags payload sequence m1)"
  "alters k m m1 \<Longrightarrow> alters k m (TcpModule_transmit_rst a p l s n w m1)"
  "alters k m m1 \<Longrightarrow> alters k m (TcpModule_deliver_fire fire m1)"
  "alters k m m1 \<Longrightarrow> alters k m (tcp_note_fire fire m1)"
  "alters k m m1 \<Longrightarrow> alters k m (TcpModule_disarm_rto_guard k m1)"
  "alters k m m1 \<Longrightarrow> alters k m (TcpModule_arm_rto_guard k m1)"
  "alters k m m1 \<Longrightarrow> alters k m (TcpModule_after_ack_movement k moved now m1)"
  "alters k m m1 \<Longrightarrow> alters k m (TcpModule_resend_oldest k m1)"
  by (erule alters_trans, rule touch_alters,
      rule touch_transmit touch_transmit_rst touch_deliver touch_note_fire disarm_touch arm_touch after_ack_touch resend_touch)+

lemma alters_branches [tcp_frame]:
  "alters k m x \<Longrightarrow> alters k m y \<Longrightarrow> alters k m (if b then x else y)"
  "alters k m a0 \<Longrightarrow> alters k m a1 \<Longrightarrow> alters k m a2 \<Longrightarrow> alters k m a3 \<Longrightarrow> alters k m a4 \<Longrightarrow> alters k m a5 \<Longrightarrow>
   alters k m a6 \<Longrightarrow> alters k m a7 \<Longrightarrow> alters k m a8 \<Longrightarrow> alters k m a9 \<Longrightarrow>
   alters k m (case st of TcpState_kClosed \<Rightarrow> a0 | TcpState_kSynSent \<Rightarrow> a1 | TcpState_kSynReceived \<Rightarrow> a2
     | TcpState_kEstablished \<Rightarrow> a3 | TcpState_kFinWait1 \<Rightarrow> a4 | TcpState_kFinWait2 \<Rightarrow> a5 | TcpState_kCloseWait \<Rightarrow> a6
     | TcpState_kClosing \<Rightarrow> a7 | TcpState_kLastAck \<Rightarrow> a8 | TcpState_kTimeWait \<Rightarrow> a9)"
  "alters k m z \<Longrightarrow> (\<And>i. alters k m (g i)) \<Longrightarrow> alters k m (case opt of None \<Rightarrow> z | Some i \<Rightarrow> g i)"
  by (simp_all split: TcpState.split option.split)

lemma begin_time_wait_alters [tcp_frame]: "alters k m m1 \<Longrightarrow> alters k m (TcpModule_begin_time_wait k m1)"
  unfolding TcpModule_begin_time_wait_def Let_def
  by (auto intro!: tcp_frame split: prod.split sum.split)

lemma release_alters [tcp_frame]: "alters k m m1 \<Longrightarrow> alters k m (snd (TcpModule_release_connection k fire farewell m1))"
  unfolding TcpModule_release_connection_def Let_def by (auto intro!: tcp_frame)

lemma store_alters [tcp_frame]: "alters k m m1 \<Longrightarrow> alters k m (TcpModule_store_out_of_order k view payload m1)"
  unfolding TcpModule_store_out_of_order_def Let_def tcp_drop_reorder_def
  by (auto intro!: tcp_frame split: option.split)

lemma harvest_alters [tcp_frame]: "alters k m m1 \<Longrightarrow> alters k m (snd (TcpModule_harvest_reorder k fire m1))"
  unfolding TcpModule_harvest_reorder_def by (auto intro!: tcp_frame split: prod.split)

lemma absorb_bytes_alters [tcp_frame]:
  "alters k m m1 \<Longrightarrow> alters k m (snd (TcpModule_absorb_bytes k view payload n fire m1))"
  unfolding TcpModule_absorb_bytes_def Let_def snd_conv by (intro tcp_frame)

lemma slide_alters [tcp_frame]: "alters k m m1 \<Longrightarrow> alters k m (tcp_slide k view n m1)"
  by (erule alters_trans) (rule touch_alters[OF slide_touch])

lemma absorb_ack_alters [tcp_frame]: "alters k m m1 \<Longrightarrow> alters k m (snd (snd (TcpModule_absorb_ack k view n fire m1)))"
  unfolding TcpModule_absorb_ack_def Let_def case_prod_beta if_distrib[of snd] snd_conv by (intro tcp_frame)

lemma absorb_tail_alters [tcp_frame]: "alters k m m1 \<Longrightarrow> alters k m (snd (tcp_absorb_tail k view payload n fire m1))"
proof -
  assume a: "alters k m m1"
  obtain stop fire1 m2 where r: "TcpModule_absorb_ack k view n fire m1 = (stop, fire1, m2)" by (metis prod_cases3)
  then have "alters k m m2" using absorb_ack_alters[OF a, of view n fire] by simp
  then show ?thesis unfolding tcp_absorb_tail_def r
    by (cases stop) (auto intro!: tcp_frame simp: Let_def case_prod_beta)
qed

lemma queue_accepted_alters [tcp_frame]: "alters k m m1 \<Longrightarrow> alters k m (tcp_queue_accepted k m1)"
  unfolding tcp_queue_accepted_def by (intro tcp_frame)

lemma absorb_segment_alters [tcp_frame]:
  "alters k m m1 \<Longrightarrow> alters k m (snd (TcpModule_absorb_segment k view payload n fire m1))"
  unfolding TcpModule_absorb_segment_def Let_def TcpState.case_distrib[of snd] if_distrib[of snd] snd_conv
  by (intro tcp_frame)

section \<open>One segment for one connection\<close>

text \<open>The third way out of a segment, beside growth and release: the handshake completes.\<close>

definition synced :: "nat \<Rightarrow> TcpView \<Rightarrow> TcpModule \<Rightarrow> TcpModule \<Rightarrow> bool" where
  "synced k view m m' \<longleftrightarrow> tc_state (conn m k) = TcpState_kSynSent \<and> tc_state (conn m' k) = TcpState_kEstablished \<and>
     tv_flags view AND 0x12 = 0x12 \<and> tv_acknowledgement view = tc_snd_nxt (conn m k) \<and>
     tc_rcv_nxt (conn m' k) = tv_sequence view + 1 \<and> tc_inbox (conn m' k) = tc_inbox (conn m k) \<and>
     tc_reorder (conn m' k) = tc_reorder (conn m k) \<and> tc_used (conn m' k) = tc_used (conn m k) \<and>
     tc_stamp (conn m' k) = tc_stamp (conn m k)"

lemma touch_synced: "synced k view m m1 \<Longrightarrow> touch k st_view m1 m2 \<Longrightarrow> synced k view m m2"
  by (simp add: synced_def touch_def st_view_def rx_view_def)

text \<open>What the accept queue of a listener receives changes the listeners only.\<close>

lemma queue_accepted_conn [simp]:
  "tm_connections (tcp_queue_accepted k m) = tm_connections m" "conn (tcp_queue_accepted k m) j = conn m j"
  by (simp_all add: tcp_queue_accepted_def conn_def split: option.split)

lemma absorb_segment_outcome:
  assumes k: "k < length (tm_connections m)" and ok: "rx_ok S (conn m k)"
    and conf: "conforms S (conn m k) view payload n"
    and m': "m' = snd (TcpModule_absorb_segment k view payload n fire m)"
  shows "rx_moves S k m m' \<or> freed k m m' \<or> synced k view m m'"
proof (cases "has_flag kTcpFlagRst view")
  case True
  let ?m = "upd_stats (\<lambda>s. s\<lparr>st_resets_received := st_resets_received s + 1\<rparr>) m"
  have "released k ?m m'" using True release_released[of k ?m] k by (simp add: m' TcpModule_absorb_segment_def Let_def)
  then show ?thesis using released_freed[OF touch_released[OF touch_upd_stats]] by blast
next
  case False
  note rst = False
  have stay: "rx_moves S k m m" by (rule rx_moves_refl[OF ok])
  have same: "touch k rx_view m m' \<Longrightarrow> ?thesis" using touch_moves[OF _ ok] by blast
  have tail: ?thesis if "m' = snd (tcp_absorb_tail k view payload n f m)" "takes_bytes (tc_state (conn m k)) \<or> past_fin (tc_state (conn m k))" for f
    using absorb_tail_outcome[OF k ok that(2) conf, of f] that(1) by blast
  note eq = m'[unfolded TcpModule_absorb_segment_def Let_def if_not_P[OF rst]]
  show ?thesis
  proof (cases "tc_state (conn m k)")
    case TcpState_kSynSent
    note sent = TcpState_kSynSent
    let ?m1 = "upd_conn k (\<lambda>c. c\<lparr>tc_rcv_nxt := tv_sequence view + 1, tc_snd_una := tv_acknowledgement view,
        tc_snd_window := ucast (tv_window view), tc_state := TcpState_kEstablished\<rparr>) m"
    consider "m' = m" | g where "m' = upd_stats g m"
      | "m' = TcpModule_transmit_segment (conn ?m1 k) kTcpFlagAck [] (tc_snd_nxt (conn ?m1 k)) ?m1"
        "tv_flags view AND 0x12 = 0x12" "tv_acknowledgement view = tc_snd_nxt (conn m k)"
      using eq sent by (simp split: if_splits)
    then show ?thesis
    proof cases
      case 1
      then show ?thesis using stay by simp
    next
      case 2
      then show ?thesis using same[unfolded 2, OF touch_upd_stats] by simp
    next
      case 3
      then have "synced k view m ?m1" using k sent by (simp add: synced_def conn_upd_conn)
      then show ?thesis unfolding 3(1) using touch_synced[OF _ touch_transmit] by blast
    qed
  next
    case TcpState_kSynReceived
    note rec = TcpState_kSynReceived
    show ?thesis
    proof (cases "has_flag kTcpFlagAck view \<and> tv_acknowledgement view = tc_snd_nxt (conn m k)")
      case True
      let ?m1 = "upd_stats (\<lambda>s. s\<lparr>st_accepted := st_accepted s + 1\<rparr>)
                   (upd_conn k (\<lambda>c. c\<lparr>tc_snd_una := tv_acknowledgement view, tc_state := TcpState_kEstablished\<rparr>) m)"
      let ?m2 = "tcp_queue_accepted k ?m1"
      obtain f where m': "m' = snd (tcp_absorb_tail k view payload n f ?m2)" using eq rec True by simp
      have v: "rx_view (conn ?m2 k) = rx_view (conn m k)"
        using k rec by (simp add: conn_upd_conn rx_view_def past_fin_def)
      have mv: "rx_moves S k m ?m2" using k rx_grows_view[OF ok v] by (simp add: rx_moves_def conn_upd_conn)
      have "rx_moves S k ?m2 m' \<or> freed k ?m2 m'" unfolding m'
        by (rule absorb_tail_outcome) (use rx_ok_view[OF v] ok conforms_view[OF v] conf k in \<open>simp_all add: conn_upd_conn\<close>)
      then show ?thesis using rx_moves_trans[OF mv] moves_freed[OF mv] by blast
    next
      case False
      then consider "m' = m" | g where "m' = upd_stats g m" | c f p q where "m' = TcpModule_transmit_segment c f p q m"
        using eq rec by (simp split: if_splits)
      then show ?thesis by cases (use stay same touch_upd_stats touch_transmit in blast)+
    qed
  next
    case TcpState_kTimeWait
    then show ?thesis by (intro same) (use eq in \<open>simp add: touch_transmit\<close>)
  next
    case TcpState_kClosed
    then show ?thesis by (intro same) (use eq in \<open>simp add: touch_refl\<close>)
  qed (use eq tail in \<open>simp_all add: past_fin_def\<close>)
qed

section \<open>What each operation does to a connection in use\<close>

text \<open>
  The history \<open>H\<close> of bytes read from a connection and the bytes still in its inbox are one piece of
  the stream from \<open>base\<close> on; before the handshake completes there are neither.
\<close>

definition stream_at :: "(u32 \<Rightarrow> u8) \<Rightarrow> u32 \<Rightarrow> u8 list \<Rightarrow> Connection \<Rightarrow> bool" where
  "stream_at S base H c \<longleftrightarrow> rx_ok S c \<and>
     (if tc_state c = TcpState_kSynSent then H = []
      else \<exists>n. H @ RingQueue_content (tc_inbox c) = piece S base n \<and> rx_end c = base + of_nat n)"

lemma stream_at_ok: "stream_at S base H c \<Longrightarrow> rx_ok S c"
  by (simp add: stream_at_def)

lemma stream_at_view: "rx_view c' = rx_view c \<Longrightarrow> stream_at S base H c \<Longrightarrow> stream_at S base H c'"
  unfolding stream_at_def using rx_ok_view[of c' c S] rx_end_view[of c' c] by (auto simp: rx_view_def)

lemma stream_at_grows:
  assumes "rx_grows S c c'" "stream_at S base H c" shows "stream_at S base H c'"
proof (cases "tc_state c = TcpState_kSynSent")
  case True
  then show ?thesis using assms by (simp add: stream_at_def rx_grows_def)
next
  case False
  obtain j where j: "RingQueue_content (tc_inbox c') = RingQueue_content (tc_inbox c) @ piece S (rx_end c) j"
      "rx_end c' = rx_end c + of_nat j" using assms(1) by (auto simp: rx_grows_def)
  obtain n where n: "H @ RingQueue_content (tc_inbox c) = piece S base n" "rx_end c = base + of_nat n"
    using assms(2) False by (auto simp: stream_at_def)
  have "H @ RingQueue_content (tc_inbox c') = piece S base (n + j)"
    unfolding j(1) append_assoc[symmetric] n(1) unfolding n(2) by (rule piece_append)
  moreover have "rx_end c' = base + of_nat (n + j)" using j(2) n(2) by (simp add: add.assoc)
  ultimately show ?thesis using assms(1) False by (auto simp: stream_at_def rx_grows_def)
qed

lemma stream_at_synced:
  assumes "synced k view m m'" "stream_at S base H (conn m k)" "tv_sequence view + 1 = base"
  shows "stream_at S base H (conn m' k)"
proof -
  note ok = stream_at_ok[OF assms(2)] and s = assms(1)[unfolded synced_def]
  have e: "RingQueue_content (tc_inbox (conn m' k)) = []" "rx_end (conn m' k) = base"
    using s rx_okD(7)[OF ok] assms(3) by (simp_all add: rx_end_def past_fin_def)
  have "rx_ok S (conn m' k)" unfolding rx_ok_def Let_def e
    using s rx_okD(1,2,3,4)[OF ok] rx_okD(8)[OF ok] by (simp add: past_fin_def)
  moreover have "H = []" using assms(2) s by (simp add: stream_at_def)
  moreover have "tc_state (conn m' k) \<noteq> TcpState_kSynSent" using s by simp
  ultimately show ?thesis unfolding stream_at_def e by (auto intro: exI[of _ 0])
qed

text \<open>The seat was given up: under its old stamp it is no longer in use.\<close>

definition gone :: "Connection \<Rightarrow> Connection \<Rightarrow> bool" where
  "gone c c' \<longleftrightarrow> tc_stamp c' = tc_stamp c + 1 \<or> tc_stamp c' = tc_stamp c + 2 \<or> tc_stamp c' = tc_stamp c \<and> \<not> tc_used c'"

definition goes_on :: "(u32 \<Rightarrow> u8) \<Rightarrow> u32 \<Rightarrow> u8 list \<Rightarrow> u8 list \<Rightarrow> Connection \<Rightarrow> Connection \<Rightarrow> bool" where
  "goes_on S base H bs c c' \<longleftrightarrow> tc_used c' \<and> tc_stamp c' = tc_stamp c \<and> stream_at S base (H @ bs) c' \<or> gone c c'"

lemma goes_on_view:
  "stream_at S base H c \<Longrightarrow> tc_used c \<Longrightarrow> rx_view c' = rx_view c \<Longrightarrow> goes_on S base H [] c c'"
  using stream_at_view by (auto simp: goes_on_def rx_view_def)

lemma goes_on_touch:
  "touch k rx_view m m' \<Longrightarrow> stream_at S base H (conn m k) \<Longrightarrow> tc_used (conn m k) \<Longrightarrow> goes_on S base H [] (conn m k) (conn m' k)"
  using goes_on_view[OF _ _ touchD(3)] .

lemma goes_on_alters:
  "alters j m m' \<Longrightarrow> j \<noteq> k \<Longrightarrow> stream_at S base H (conn m k) \<Longrightarrow> tc_used (conn m k) \<Longrightarrow> goes_on S base H [] (conn m k) (conn m' k)"
  using altersD(2)[of j m m' k] by (simp add: goes_on_def)

lemma goes_on_freed: "freed k m m' \<Longrightarrow> goes_on S base H bs (conn m k) (conn m' k)"
  by (simp add: goes_on_def gone_def freed_def)

lemma goes_on_then_touch: "goes_on S base H bs c (conn m1 k) \<Longrightarrow> touch k rx_view m1 m2 \<Longrightarrow> goes_on S base H bs c (conn m2 k)"
  using touchD(3)[of k rx_view m1 m2] stream_at_view[of "conn m2 k" "conn m1 k"]
  by (auto simp: goes_on_def gone_def rx_view_def)

text \<open>A seat that was not in use is claimed; its stamp moves on.\<close>

definition renews :: "nat \<Rightarrow> TcpModule \<Rightarrow> TcpModule \<Rightarrow> bool" where
  "renews j m m' \<longleftrightarrow> j < length (tm_connections m) \<and> \<not> tc_used (conn m j) \<and> alters j m m' \<and>
     tc_stamp (conn m' j) = tc_stamp (conn m j) + 1"

lemma renews_after: "renews j m m1 \<Longrightarrow> touch j tc_stamp m1 m2 \<Longrightarrow> renews j m m2"
  using alters_trans[OF _ touch_alters] by (fastforce simp: renews_def touch_def)

lemma claim_renews:
  assumes "TcpModule_claim_free_connection m = (Some j, m1)" "length (tm_connections m) = 8"
  shows "renews j m m1" "j < 8" "conn m1 j = Connection_empty\<lparr>tc_used := True, tc_stamp := tc_stamp (conn m j) + 1\<rparr>"
    "tm_listens m1 = tm_listens m"
proof -
  have f: "find (\<lambda>k. \<not> tc_used (conn m k)) [0..<8] = Some j"
      and m1: "m1 = upd_conn j (\<lambda>c. Connection_empty\<lparr>tc_used := True, tc_stamp := tc_stamp c + 1\<rparr>) m"
    using assms(1) by (auto simp: TcpModule_claim_free_connection_def split: option.splits)
  show j: "j < 8" using f unfolding find_upt_Some_iff by simp
  show "renews j m m1" using f j assms(2) unfolding find_upt_Some_iff
    by (simp add: renews_def m1 conn_upd_conn alters_upd)
  show "conn m1 j = Connection_empty\<lparr>tc_used := True, tc_stamp := tc_stamp (conn m j) + 1\<rparr>" "tm_listens m1 = tm_listens m"
    using j assms(2) by (simp_all add: m1 conn_upd_conn)
qed

lemma claim_none: "TcpModule_claim_free_connection m = (None, m1) \<Longrightarrow> m1 = m"
  by (auto simp: TcpModule_claim_free_connection_def split: option.splits)

lemma touch_stamps:
  "touch j tc_stamp m m"
  "touch j tc_stamp m x \<Longrightarrow> (\<And>c. tc_stamp (f c) = tc_stamp c) \<Longrightarrow> touch j tc_stamp m (upd_conn j f x)"
  "touch j tc_stamp m x \<Longrightarrow> touch j tc_stamp m (upd_stats g x)"
  "touch j tc_stamp m x \<Longrightarrow> touch j tc_stamp m (x\<lparr>tm_isn_cursor := i\<rparr>)"
  "touch j tc_stamp m x \<Longrightarrow> touch j tc_stamp m (x\<lparr>tm_ephemeral_cursor := e\<rparr>)"
  "touch j tc_stamp m x \<Longrightarrow> touch j tc_stamp m (TcpModule_transmit_segment c flags payload sequence x)"
  "touch j tc_stamp m x \<Longrightarrow> touch j tc_stamp m (TcpModule_transmit_rst a p l s n w x)"
  by (rule touch_refl) (erule touch_trans, rule touch_upd_conn touch_upd_stats touch_transmit touch_transmit_rst touch_same, simp_all?)+

lemma answer_unclaimed_cases:
  assumes "length (tm_connections m) = 8"
  obtains (same) "tm_connections (TcpModule_answer_unclaimed header view n m) = tm_connections m"
  | (fresh) j where "renews j m (TcpModule_answer_unclaimed header view n m)"
proof -
  obtain got m1 where claim: "TcpModule_claim_free_connection m = (got, m1)" by fastforce
  have stay: "tm_connections (TcpModule_transmit_rst a p l s q w x) = tm_connections x" for a p l s q w x
    by (simp add: TcpModule_transmit_rst_def Let_def)
  show thesis
  proof (cases "has_flag kTcpFlagSyn view \<and> \<not> has_flag kTcpFlagAck view")
    case False
    show thesis by (rule same) (use False in \<open>auto simp: TcpModule_answer_unclaimed_def Let_def stay\<close>)
  next
    case True
    show thesis
    proof (cases got)
      case None
      show thesis
        by (rule same) (use True None claim claim_none[of m m1] in
          \<open>simp add: TcpModule_answer_unclaimed_def Let_def stay split: option.split\<close>)
    next
      case (Some j)
      note new = claim_renews(1)[OF claim[unfolded Some] assms]
      have "touch j tc_stamp m1 (TcpModule_answer_unclaimed header view n m)"
        using True Some claim unfolding TcpModule_answer_unclaimed_def Let_def
        by (auto intro!: touch_stamps split: option.split)
      then show thesis using fresh renews_after[OF new] by blast
    qed
  qed
qed

lemma pick_local_port_conn [simp]:
  "tm_connections (snd (TcpModule_pick_local_port m)) = tm_connections m" "tm_listens (snd (TcpModule_pick_local_port m)) = tm_listens m"
  by (auto simp: TcpModule_pick_local_port_def Let_def split: option.split)

lemma connect_cases:
  assumes "length (tm_connections m) = 8"
  obtains (same) "tm_connections (snd (TcpModule_connect lp ra rp events now m)) = tm_connections m"
  | (fresh) j where "renews j m (snd (TcpModule_connect lp ra rp events now m))"
proof (cases "ra = 0 \<or> rp = 0")
  case True
  then show thesis by (intro same) (auto simp: TcpModule_connect_def)
next
  case False
  obtain got m1 where claim: "TcpModule_claim_free_connection m = (got, m1)" by fastforce
  show thesis
  proof (cases got)
    case None
    show thesis by (rule same) (use False None claim claim_none[of m m1] in \<open>simp add: TcpModule_connect_def\<close>)
  next
    case (Some j)
    obtain kLocal m2 where pick: "(if lp \<noteq> 0 then (lp, m1) else TcpModule_pick_local_port m1) = (kLocal, m2)" by fastforce
    have "m2 = (if lp \<noteq> 0 then m1 else snd (TcpModule_pick_local_port m1))" using pick by (auto split: if_splits)
    then have "tm_connections m2 = tm_connections m1" "tm_listens m2 = tm_listens m1" by simp_all
    then have "touch j tc_stamp m1 m2" by (rule touch_same)
    then have "touch j tc_stamp m1 (snd (TcpModule_connect lp ra rp events now m))"
      using False Some claim pick unfolding TcpModule_connect_def by (auto intro!: touch_stamps simp: Let_def)
    then show thesis using fresh renews_after[OF claim_renews(1)[OF claim[unfolded Some] assms]] by blast
  qed
qed

lemma renews_spares: "renews j m m' \<Longrightarrow> tc_used (conn m k) \<Longrightarrow> conn m' k = conn m k"
  using altersD(2)[of j m m' k] by (cases "k = j") (auto simp: renews_def)

lemma goes_on_same:
  "conn m' k = conn m k \<Longrightarrow> stream_at S base H (conn m k) \<Longrightarrow> tc_used (conn m k) \<Longrightarrow> goes_on S base H [] (conn m k) (conn m' k)"
  by (simp add: goes_on_def)

lemma conn_cong: "tm_connections m' = tm_connections m \<Longrightarrow> conn m' k = conn m k"
  by (simp add: conn_def)

lemma handle_cases:
  obtains (refused) g where "TcpModule_handle bytes header m = upd_stats g m"
  | (unclaimed) view payload n where "tcp_segment bytes header = Some (view, payload, n)"
      "TcpModule_handle bytes header m = TcpModule_deliver_fire PendingFire_none (TcpModule_answer_unclaimed header view n m)"
  | (recycled) view payload n k where "tcp_segment bytes header = Some (view, payload, n)"
      "TcpModule_find_connection (i4_source header) (tv_source_port view) (tv_destination_port view) m = Some k"
      "TcpModule_handle bytes header m = TcpModule_deliver_fire PendingFire_none (TcpModule_answer_unclaimed header view n
         (snd (TcpModule_release_connection k PendingFire_none TcpFarewell_kGraceful m)))"
  | (absorbed) view payload n k fire m1 where "tcp_segment bytes header = Some (view, payload, n)"
      "TcpModule_find_connection (i4_source header) (tv_source_port view) (tv_destination_port view) m = Some k"
      "TcpModule_absorb_segment k view payload n PendingFire_none m = (fire, m1)"
      "TcpModule_handle bytes header m = TcpModule_deliver_fire fire
         (if tc_used (conn m1 k)
          then TcpModule_after_ack_movement k (seq_before (tc_snd_una (conn m k)) (tc_snd_una (conn m1 k))) (tm_service_now_ns m1) m1
          else m1)"
proof (cases "tcp_segment bytes header")
  case None
  then show thesis using refused
    by (auto simp: tcp_segment_def TcpModule_handle_def Let_def split: sum.splits if_splits)
next
  case (Some seg)
  obtain view payload n where seg: "seg = (view, payload, n)" by (cases seg)
  let ?find = "TcpModule_find_connection (i4_source header) (tv_source_port view) (tv_destination_port view) m"
  note h = handle_segment[OF Some[unfolded seg], of m, unfolded Let_def]
  show thesis
  proof (cases ?find)
    case None
    then show thesis using unclaimed[OF Some[unfolded seg]] h by simp
  next
    case (Some k)
    show thesis
    proof (cases "tc_state (conn m k) = TcpState_kTimeWait \<and> has_flag kTcpFlagSyn view \<and> \<not> has_flag kTcpFlagAck view")
      case True
      then show thesis using recycled[OF \<open>tcp_segment bytes header = Some seg\<close>[unfolded seg] Some] h Some by simp
    next
      case False
      obtain fire m1 where "TcpModule_absorb_segment k view payload n PendingFire_none m = (fire, m1)" by fastforce
      then show thesis using absorbed[OF \<open>tcp_segment bytes header = Some seg\<close>[unfolded seg] Some] h Some False by simp
    qed
  qed
qed

lemma deliver_conn [simp]: "conn (TcpModule_deliver_fire fire m) k = conn m k"
    "tm_connections (TcpModule_deliver_fire fire m) = tm_connections m" "tm_listens (TcpModule_deliver_fire fire m) = tm_listens m"
  by (simp_all add: TcpModule_deliver_fire_def Let_def conn_def)

lemma answer_unclaimed_spares:
  assumes "length (tm_connections m) = 8" "tc_used (conn m k)"
  shows "conn (TcpModule_answer_unclaimed header view n m) k = conn m k"
  using assms by (cases rule: answer_unclaimed_cases[OF assms(1), of header view n]) (auto intro: conn_cong renews_spares)

lemma answer_unclaimed_length:
  assumes "length (tm_connections m) = 8"
  shows "length (tm_connections (TcpModule_answer_unclaimed header view n m)) = 8"
  by (cases rule: answer_unclaimed_cases[OF assms, of header view n]) (use assms in \<open>auto simp: renews_def alters_def\<close>)

text \<open>A seat freed and, perhaps, claimed again.\<close>

lemma freed_answer_gone:
  assumes "length (tm_connections m) = 8" "freed k m m1"
  shows "gone (conn m k) (conn (TcpModule_answer_unclaimed header view n m1) k)"
proof -
  have len: "length (tm_connections m1) = 8" and c: "tc_stamp (conn m1 k) = tc_stamp (conn m k) + 1"
    using assms by (simp_all add: freed_def)
  show ?thesis
  proof (cases rule: answer_unclaimed_cases[OF len, of header view n])
    case 1
    then show ?thesis using c conn_cong[OF 1, of k] by (simp add: gone_def)
  next
    case (2 j)
    then show ?thesis using c altersD(2)[of j m1 _ k] by (cases "k = j") (auto simp: renews_def gone_def)
  qed
qed

text \<open>What a peer that sends the stream \<open>S\<close> from \<open>base\<close> on may put into the segments for connection \<open>k\<close>.\<close>

definition peer_conforms :: "(u32 \<Rightarrow> u8) \<Rightarrow> u32 \<Rightarrow> nat \<Rightarrow> TcpOp \<Rightarrow> TcpModule \<Rightarrow> bool" where
  "peer_conforms S base k op m \<longleftrightarrow>
     (case op of
        Op_handle bytes header \<Rightarrow>
          (case tcp_segment bytes header of
             None \<Rightarrow> True
           | Some (view, payload, n) \<Rightarrow>
               TcpModule_find_connection (i4_source header) (tv_source_port view) (tv_destination_port view) m = Some k \<longrightarrow>
               conforms S (conn m k) view payload n \<and>
               (tc_state (conn m k) = TcpState_kSynSent \<longrightarrow> has_flag kTcpFlagSyn view \<longrightarrow> tv_sequence view + 1 = base))
      | _ \<Rightarrow> True)"

lemma synced_syn: "synced k view m m' \<Longrightarrow> has_flag kTcpFlagSyn view"
proof -
  assume "synced k view m m'"
  then have "tv_flags view AND 0x12 = 0x12" by (simp add: synced_def)
  then have "bit (tv_flags view AND 0x12) 1" by (simp add: bit_numeral_rec)
  then have "bit (tv_flags view AND 0x02) 1" by (simp add: bit_and_iff bit_numeral_rec)
  then show ?thesis unfolding has_flag_def by (metis bit_0_eq bot_apply bot_bool_def)
qed

lemma handle_goes_on:
  assumes len: "length (tm_connections m) = 8" and k: "k < 8" and used: "tc_used (conn m k)" and at: "stream_at S base H (conn m k)"
    and peer: "peer_conforms S base k (Op_handle bytes header) m"
  shows "goes_on S base H [] (conn m k) (conn (TcpModule_handle bytes header m) k)"
proof (cases rule: handle_cases[of bytes header m])
  case (refused g)
  then show ?thesis using goes_on_same[OF _ at used] by simp
next
  case (unclaimed view payload n)
  then show ?thesis using goes_on_same[OF _ at used] answer_unclaimed_spares[OF len used] by simp
next
  case (recycled view payload n j)
  let ?m1 = "snd (TcpModule_release_connection j PendingFire_none TcpFarewell_kGraceful m)"
  have a: "alters j m ?m1" by (rule release_alters[OF alters_refl])
  show ?thesis
  proof (cases "j = k")
    case True
    then have "freed k m ?m1" using released_freed[OF release_released] k len by simp
    then show ?thesis using freed_answer_gone[OF len] recycled(3) by (simp add: goes_on_def)
  next
    case False
    then have c: "conn ?m1 k = conn m k" using altersD(2)[OF a, of k] by simp
    then show ?thesis using goes_on_same[OF _ at used] answer_unclaimed_spares[of ?m1 k] altersD(1)[OF a] len used recycled(3) by simp
  qed
next
  case (absorbed view payload n j fire m1)
  have m1: "m1 = snd (TcpModule_absorb_segment j view payload n PendingFire_none m)" using absorbed(3) by simp
  let ?m2 = "if tc_used (conn m1 j)
      then TcpModule_after_ack_movement j (seq_before (tc_snd_una (conn m j)) (tc_snd_una (conn m1 j))) (tm_service_now_ns m1) m1 else m1"
  have t: "touch j rx_view m1 ?m2" using st_rx[OF after_ack_touch] touch_refl by (auto split: if_split)
  have c: "conn (TcpModule_handle bytes header m) k = conn ?m2 k" using absorbed(4) by simp
  show ?thesis
  proof (cases "j = k")
    case False
    have "alters j m m1" unfolding m1 by (rule absorb_segment_alters[OF alters_refl])
    then show ?thesis unfolding c using goes_on_alters[OF alters_trans[OF _ touch_alters[OF t]] False at used] by simp
  next
    case True
    have conf: "conforms S (conn m k) view payload n"
        "tc_state (conn m k) = TcpState_kSynSent \<longrightarrow> has_flag kTcpFlagSyn view \<longrightarrow> tv_sequence view + 1 = base"
      using peer absorbed(1,2) True by (simp_all add: peer_conforms_def)
    have "rx_moves S k m m1 \<or> freed k m m1 \<or> synced k view m m1"
      by (rule absorb_segment_outcome[OF _ stream_at_ok[OF at] conf(1)]) (use k len m1 True in simp_all)
    then have "goes_on S base H [] (conn m k) (conn m1 k)"
    proof (elim disjE)
      assume "rx_moves S k m m1"
      then have g: "rx_grows S (conn m k) (conn m1 k)" by (simp add: rx_moves_def)
      then show ?thesis using stream_at_grows[OF g at] used by (simp add: goes_on_def rx_grows_def)
    next
      assume "freed k m m1"
      then show ?thesis by (rule goes_on_freed)
    next
      assume s: "synced k view m m1"
      then have "tv_sequence view + 1 = base" using conf(2) synced_syn[OF s] by (simp add: synced_def)
      then show ?thesis using stream_at_synced[OF s at] s used by (simp add: goes_on_def synced_def)
    qed
    then show ?thesis unfolding c using goes_on_then_touch t True by blast
  qed
qed

end
