(* ===== verification/Tcp_Trace.thy ===== *)
theory Tcp_Trace
  imports Tcp_Run
begin

text \<open>
  The remaining operations of the TCP module at the level of its seats, and the properties of whole
  runs: the byte stream a connection delivers, and the ticket discipline of the connection table.
\<close>

unbundle bit_operations_syntax

section \<open>Timers and the service pass\<close>

text \<open>A seat is calm over a step that keeps its receive side or, if it was in use, releases it.\<close>

definition seat_calm :: "Connection \<Rightarrow> Connection \<Rightarrow> bool" where
  "seat_calm c c' \<longleftrightarrow> rx_view c' = rx_view c \<or> tc_used c \<and> \<not> tc_used c' \<and> tc_stamp c' = tc_stamp c + 1"

definition calm :: "TcpModule \<Rightarrow> TcpModule \<Rightarrow> bool" where
  "calm m m' \<longleftrightarrow> length (tm_connections m') = length (tm_connections m) \<and>
     (\<forall>k<length (tm_connections m). seat_calm (conn m k) (conn m' k))"

lemma calm_refl: "calm m m"
  by (simp add: calm_def seat_calm_def)

lemma seat_calm_trans: "seat_calm c c1 \<Longrightarrow> seat_calm c1 c2 \<Longrightarrow> seat_calm c c2"
  by (auto simp: seat_calm_def rx_view_def)

lemma calm_trans: "calm m m1 \<Longrightarrow> calm m1 m2 \<Longrightarrow> calm m m2"
  unfolding calm_def using seat_calm_trans by metis

lemma touch_calm: "touch k rx_view m m' \<Longrightarrow> calm m m'"
  unfolding calm_def seat_calm_def using touchD[of k rx_view m m'] by metis

lemma released_calm:
  assumes "released k m m'" "tc_used (conn m k)" shows "calm m m'"
proof -
  have "seat_calm (conn m k) (conn m' k)" using assms by (simp add: released_def seat_calm_def Connection_empty_def)
  moreover have "seat_calm (conn m j) (conn m' j)" if "j \<noteq> k" for j using assms(1) that by (simp add: released_def seat_calm_def)
  ultimately show ?thesis using assms(1) unfolding calm_def released_def by metis
qed

lemma calm_beyond: "alters k m m' \<Longrightarrow> length (tm_connections m) \<le> k \<Longrightarrow> calm m m'"
  by (auto simp: calm_def seat_calm_def alters_def)

lemma calm_fold: "(\<And>x m. calm m (f x m)) \<Longrightarrow> calm m (fold f xs m)"
  by (induction xs arbitrary: m) (auto intro: calm_refl calm_trans)

lemma release_calm:
  assumes "touch k st_view m m1" "tc_used (conn m k)"
  shows "calm m (tcp_note_fire g (snd (TcpModule_release_connection k fire farewell m1)))"
proof (cases "k < length (tm_connections m)")
  case True
  have "released k m1 (snd (TcpModule_release_connection k fire farewell m1))"
    using True touchD(1)[OF assms(1)] by (intro release_released) simp
  then have "released k m (tcp_note_fire g (snd (TcpModule_release_connection k fire farewell m1)))"
    by (intro released_touch[OF touch_released[OF st_stamp[OF assms(1)]]]) (auto intro: touch_note_fire)
  then show ?thesis using assms(2) by (rule released_calm)
next
  case False
  then show ?thesis by (intro calm_beyond[of k]) (auto intro!: tcp_frame touch_alters[OF assms(1)])
qed

lemma expire_calm: "calm m (TcpModule_expire_time_wait k m)"
proof -
  let ?m1 = "upd_conn k (\<lambda>c. c\<lparr>tc_time_wait_armed := False\<rparr>) m"
  have t: "touch k st_view m ?m1" by (rule touch_upd_st) simp
  have u: "tc_used (conn ?m1 k) = tc_used (conn m k)" using touchD(3)[OF t] by (simp add: st_view_def rx_view_def)
  show ?thesis
  proof (cases "\<not> tc_used (conn ?m1 k) \<or> tc_state (conn ?m1 k) \<noteq> TcpState_kTimeWait")
    case True
    then have "TcpModule_expire_time_wait k m = ?m1" by (simp add: TcpModule_expire_time_wait_def Let_def)
    then show ?thesis using touch_calm[OF st_rx[OF t]] by simp
  next
    case False
    then show ?thesis using release_calm[OF t] u
      by (simp add: TcpModule_expire_time_wait_def Let_def case_prod_beta)
  qed
qed

lemma retransmit_due_calm: "calm m (TcpModule_retransmit_due k m)"
proof -
  let ?m1 = "upd_conn k (\<lambda>c. c\<lparr>tc_rto_armed := False\<rparr>) m"
  let ?m2 = "upd_stats (\<lambda>s. s\<lparr>st_rto_timeouts := st_rto_timeouts s + 1\<rparr>) ?m1"
  have t: "touch k st_view m ?m1" by (rule touch_upd_st) simp
  have t2: "touch k st_view m (upd_stats g ?m2)" for g by (rule touch_trans[OF touch_trans[OF t touch_upd_stats] touch_upd_stats])
  have u: "tc_used (conn ?m1 k) = tc_used (conn m k)" using touchD(3)[OF t] by (simp add: st_view_def rx_view_def)
  let ?m3 = "upd_stats (\<lambda>s. s\<lparr>st_retransmits_sent := st_retransmits_sent s + 1\<rparr>)
               (upd_conn k (\<lambda>c. c\<lparr>tc_retransmit_count := tc_retransmit_count c + 1\<rparr>) ?m2)"
  have t3: "touch k st_view m ?m3"
    by (rule touch_trans[OF touch_trans[OF touch_trans[OF t touch_upd_stats] touch_upd_st] touch_upd_stats]) simp
  have t5: "touch k st_view m (upd_conn k (\<lambda>c. c\<lparr>tc_rto_ns := w\<rparr>) (TcpModule_resend_oldest k ?m3))" for w
    by (rule touch_trans[OF touch_trans[OF t3 resend_touch] touch_upd_st]) simp
  have t6: "touch k st_view m (upd_conn k (\<lambda>c. c\<lparr>tc_rto_seat := seat, tc_rto_armed := True\<rparr>)
      ((upd_conn k (\<lambda>c. c\<lparr>tc_rto_ns := w\<rparr>) (TcpModule_resend_oldest k ?m3))\<lparr>tm_timers := ts\<rparr>))" for w seat ts
    by (rule touch_trans[OF touch_trans[OF t5 touch_timers] touch_upd_st]) simp
  consider "\<not> tc_used (conn m k)" | "tc_used (conn m k)" "tc_retransmit_count (conn ?m2 k) \<ge> 5"
    | "tc_used (conn m k)" "\<not> tc_retransmit_count (conn ?m2 k) \<ge> 5" by blast
  then show ?thesis
  proof cases
    case 1
    then show ?thesis using touch_calm[OF st_rx[OF t]] u by (simp add: TcpModule_retransmit_due_def Let_def)
  next
    case 2
    then show ?thesis using release_calm[OF t2] u by (simp add: TcpModule_retransmit_due_def Let_def case_prod_beta)
  next
    case 3
    then have "touch k st_view m (TcpModule_retransmit_due k m)"
      using u t6 touch_trans[OF t5 touch_timers]
      by (simp add: TcpModule_retransmit_due_def Let_def split: prod.split sum.split)
    then show ?thesis by (rule touch_calm[OF st_rx])
  qed
qed

lemma timer_call_calm: "calm m (tcp_timer_call call ctx m)"
  unfolding tcp_timer_call_def
  by (auto intro: calm_refl expire_calm retransmit_due_calm split: option.split TcpTimerCall.split)

lemma calm_same: "tm_connections m' = tm_connections m \<Longrightarrow> calm m m'"
  by (simp add: calm_def seat_calm_def conn_def)

lemma advance_seat_calm:
  "calm m (TimerTable_advance_seat tm_timers (\<lambda>t m. m\<lparr>tm_timers := t\<rparr>) tcp_timer_call now i m)"
proof -
  have "calm m (tcp_timer_call call ctx (m\<lparr>tm_timers := t\<rparr>))" for call ctx t
    by (rule calm_trans[OF calm_same timer_call_calm]) simp
  then show ?thesis by (simp add: TimerTable_advance_seat_def Let_def calm_refl)
qed

lemma service_calm: "calm m (TcpModule_service now m)"
proof -
  let ?m1 = "TimerTable_advance tm_timers (\<lambda>t m. m\<lparr>tm_timers := t\<rparr>) tcp_timer_call now (m\<lparr>tm_service_now_ns := now\<rparr>)"
  let ?arm = "\<lambda>k m. if tc_used (conn m k) \<and> tc_oldest_sent_ns (conn m k) \<noteq> 0 \<and> tc_snd_una (conn m k) \<noteq> tc_snd_nxt (conn m k)
                    then TcpModule_arm_rto_guard k m else m"
  have 1: "calm m ?m1" unfolding TimerTable_advance_def
    by (rule calm_trans[OF calm_same calm_fold[OF advance_seat_calm]]) simp
  have "calm m (?arm k m)" for k m using touch_calm[OF st_rx[OF arm_touch]] calm_refl by simp
  then have 2: "calm ?m1 (fold ?arm [0..<8] ?m1)" by (rule calm_fold)
  have 3: "calm x (fold TcpModule_deliver_fire fires (x\<lparr>tm_service_fire_count := 0\<rparr>))" for x fires
    by (rule calm_trans[OF calm_same calm_fold]) (simp_all add: calm_same)
  show ?thesis unfolding TcpModule_service_def Let_def by (rule calm_trans[OF calm_trans[OF 1 2] 3])
qed

lemma goes_on_calm:
  assumes "calm m m'" "k < length (tm_connections m)" "stream_at S base H (conn m k)" "tc_used (conn m k)"
  shows "goes_on S base H [] (conn m k) (conn m' k)"
proof -
  have "seat_calm (conn m k) (conn m' k)" using assms(1,2) by (simp add: calm_def)
  then show ?thesis using goes_on_view[OF assms(3,4)] by (auto simp: seat_calm_def goes_on_def gone_def)
qed

section \<open>Operations by ticket\<close>

lemma live_connection_Some:
  "TcpModule_live_connection ticket m = Some k \<longleftrightarrow> k = tt_slot ticket \<and> k < 8 \<and> tc_used (conn m k) \<and> tc_stamp (conn m k) = tt_stamp ticket"
  by (auto simp: TcpModule_live_connection_def)

lemma send_chunks_touch: "touch k st_view m (send_chunks k bytes m)"
proof (induction k bytes m rule: send_chunks.induct)
  case (1 k bytes m)
  show ?case
  proof (cases "bytes = []")
    case True
    then show ?thesis by (subst send_chunks.simps) (simp add: touch_refl)
  next
    case False
    let ?m1 = "TcpModule_transmit_segment (conn m k) (kTcpFlagAck OR kTcpFlagPsh) (take 1460 bytes) (tc_snd_nxt (conn m k)) m"
    let ?m2 = "upd_conn k (\<lambda>c. c\<lparr>tc_outbox := push_bytes (take 1460 bytes) (tc_outbox c),
                 tc_snd_nxt := tc_snd_nxt c + of_nat (length (take 1460 bytes))\<rparr>) ?m1"
    have t: "touch k st_view m ?m2" by (rule touch_trans[OF touch_transmit touch_upd_st]) simp
    have "touch k st_view ?m2 (send_chunks k (drop 1460 bytes) ?m2)" by (rule 1[OF False refl refl])
    then show ?thesis using touch_trans[OF t] False by (subst send_chunks.simps) (simp add: Let_def)
  qed
qed

lemma send_touch: "touch (tt_slot ticket) st_view m (snd (TcpModule_send ticket payload now m))"
proof (cases "TcpModule_live_connection ticket m")
  case None
  then show ?thesis by (simp add: TcpModule_send_def touch_refl)
next
  case (Some k)
  then have k: "k = tt_slot ticket" by (simp add: live_connection_Some)
  have "touch k st_view m (upd_conn k (\<lambda>c. c\<lparr>tc_oldest_sent_ns := now\<rparr>) (send_chunks k bs m))" for bs
    by (rule touch_trans[OF send_chunks_touch touch_upd_st]) simp
  then show ?thesis using Some k send_chunks_touch
    by (simp add: TcpModule_send_def Let_def touch_refl)
qed

lemma send_fin_touch:
  assumes "k < length (tm_connections m)" "past_fin (tc_state (conn m k)) = past_fin st" "st \<noteq> TcpState_kSynSent"
    "tc_state (conn m k) \<noteq> TcpState_kSynSent"
  shows "touch k rx_view m (tcp_send_fin k st m)"
proof -
  let ?m1 = "TcpModule_transmit_segment (conn m k) (kTcpFlagFin OR kTcpFlagAck) [] (tc_snd_nxt (conn m k)) m"
  let ?m2 = "upd_conn k (\<lambda>c. c\<lparr>tc_snd_nxt := tc_snd_nxt c + 1, tc_state := st\<rparr>) ?m1"
  have "touch k rx_view m ?m2" using assms by (simp add: touch_def conn_upd_conn rx_view_def)
  moreover from this have "touch k rx_view m (upd_conn k (\<lambda>c. c\<lparr>tc_oldest_sent_ns := n\<rparr>) ?m2)" for n
    by (rule touch_trans[OF _ touch_upd_conn]) (simp add: rx_view_def)
  ultimately show ?thesis by (simp add: tcp_send_fin_def Let_def)
qed

lemma close_cases:
  assumes "length (tm_connections m) = 8"
  obtains (keep) "touch (tt_slot ticket) rx_view m (TcpModule_close ticket m)"
  | (drop) "tc_state (conn m (tt_slot ticket)) = TcpState_kSynSent"
      "alters (tt_slot ticket) m (TcpModule_close ticket m)" "\<not> tc_used (conn (TcpModule_close ticket m) (tt_slot ticket))"
      "tc_stamp (conn (TcpModule_close ticket m) (tt_slot ticket)) = tc_stamp (conn m (tt_slot ticket))"
proof (cases "TcpModule_live_connection ticket m")
  case None
  then show thesis by (intro keep) (simp add: TcpModule_close_def touch_refl)
next
  case (Some k)
  then have k: "k = tt_slot ticket" "k < length (tm_connections m)" using assms by (simp_all add: live_connection_Some)
  note eq = TcpModule_close_def[of ticket m, unfolded Some option.case]
  show thesis
  proof (cases "tc_state (conn m k) = TcpState_kSynSent")
    case True
    then show thesis using eq k by (intro drop) (simp_all add: alters_upd conn_upd_conn)
  next
    case False
    have f: "touch k rx_view m (tcp_send_fin k st m)" if "past_fin (tc_state (conn m k)) = past_fin st" "st \<noteq> TcpState_kSynSent" for st
      using send_fin_touch[OF k(2) that False] .
    have "touch k rx_view m (TcpModule_close ticket m)" unfolding eq
      using f[of TcpState_kFinWait1] f[of TcpState_kLastAck] False by (cases "tc_state (conn m k)") (auto simp: past_fin_def)
    then show thesis unfolding k(1) by (rule keep)
  qed
qed

lemma abandon_cases:
  assumes "length (tm_connections m) = 8"
  obtains (keep) "TcpModule_abandon ticket m = m" "TcpModule_live_connection ticket m = None"
  | (drop) "tc_used (conn m (tt_slot ticket))" "released (tt_slot ticket) m (TcpModule_abandon ticket m)"
proof (cases "TcpModule_live_connection ticket m")
  case None
  then show thesis by (intro keep) (simp_all add: TcpModule_abandon_def)
next
  case (Some k)
  then have k: "k = tt_slot ticket" "k < length (tm_connections m)" "tc_used (conn m k)" using assms by (auto simp: live_connection_Some)
  obtain a p l s n w where eq: "TcpModule_abandon ticket m =
      (case TcpModule_release_connection k PendingFire_none TcpFarewell_kReset (TcpModule_transmit_rst a p l s n w m) of
         (fire, m2) \<Rightarrow> TcpModule_deliver_fire fire m2)"
    unfolding TcpModule_abandon_def Some option.case Let_def by (cases "tc_state (conn m k) = TcpState_kSynSent") auto
  have "touch k tc_stamp m (TcpModule_transmit_rst a p l s n w m)" by (rule touch_transmit_rst)
  then have "released k m (snd (TcpModule_release_connection k PendingFire_none TcpFarewell_kReset (TcpModule_transmit_rst a p l s n w m)))"
    by (rule touch_released[OF _ release_released]) (use touchD(1)[OF touch_transmit_rst] k(2) in simp)
  then have "released k m (TcpModule_abandon ticket m)"
    unfolding eq by (auto intro: released_touch touch_deliver simp: case_prod_beta)
  then show thesis using k drop by simp
qed

text \<open>The bytes an operation reads from connection \<open>k\<close>.\<close>

definition op_reads :: "nat \<Rightarrow> TcpOp \<Rightarrow> TcpModule \<Rightarrow> u8 list" where
  "op_reads k op m =
     (case op of
        Op_receive ticket capacity \<Rightarrow>
          if TcpModule_live_connection ticket m = Some k
          then (case fst (TcpModule_receive ticket capacity m) of Inr bytes \<Rightarrow> bytes | Inl _ \<Rightarrow> []) else []
      | _ \<Rightarrow> [])"

lemma stream_at_read:
  assumes at: "stream_at S base H c" and d: "drain_upto (RingQueue_pop 0) cap (tc_inbox c) = (taken, inbox)"
  shows "stream_at S base (H @ taken) (c\<lparr>tc_inbox := inbox\<rparr>)"
proof -
  note ok = stream_at_ok[OF at]
  let ?q = "RingQueue_content (tc_inbox c)" and ?c = "c\<lparr>tc_inbox := inbox\<rparr>"
  have q: "taken = take cap ?q" "RingQueue_inv inbox" "RingQueue_content inbox = drop cap ?q" "RingQueue_limit inbox = 4096"
    using rq.drain_upto_spec[OF rx_okD(1)[OF ok], of 0 cap] d rx_okD(2)[OF ok] by auto
  have e: "rx_end ?c = rx_end c" by (simp add: rx_end_def)
  have "drop cap ?q = piece S (rx_end c - of_nat (length ?q) + of_nat cap) (length ?q - cap)"
    using rx_okD(5)[OF ok] piece_drop[of cap S "rx_end c - of_nat (length ?q)" "length ?q"] by simp
  also have "\<dots> = piece S (rx_end c - of_nat (length ?q - cap)) (length ?q - cap)"
    by (cases "cap \<le> length ?q") (simp_all add: of_nat_diff algebra_simps)
  finally have "rx_ok S ?c" using ok q e unfolding rx_ok_def Let_def by simp
  moreover have "tc_state c = TcpState_kSynSent \<Longrightarrow> taken = []" using rx_okD(7)[OF ok] q(1) by simp
  ultimately show ?thesis using at e q(1,3) by (simp add: stream_at_def)
qed

lemma receive_goes_on:
  assumes k: "k < length (tm_connections m)" and used: "tc_used (conn m k)" and at: "stream_at S base H (conn m k)"
    and live: "TcpModule_live_connection ticket m = Some k"
  shows "goes_on S base H (op_reads k (Op_receive ticket cap) m) (conn m k) (conn (snd (TcpModule_receive ticket cap m)) k)"
proof (cases "RingQueue_count (tc_inbox (conn m k)) = 0")
  case True
  then show ?thesis using live used at by (simp add: op_reads_def TcpModule_receive_def Let_def goes_on_def)
next
  case False
  obtain taken inbox where d: "drain_upto (RingQueue_pop 0) cap (tc_inbox (conn m k)) = (taken, inbox)" by fastforce
  let ?m1 = "upd_conn k (\<lambda>c. c\<lparr>tc_inbox := inbox\<rparr>) m"
  have r: "fst (TcpModule_receive ticket cap m) = Inr taken" and m': "touch k rx_view ?m1 (snd (TcpModule_receive ticket cap m))"
    using False live d by (simp_all add: TcpModule_receive_def Let_def touch_transmit touch_refl)
  have "goes_on S base H taken (conn m k) (conn ?m1 k)"
    using stream_at_read[OF at d] k used by (simp add: goes_on_def conn_upd_conn)
  then show ?thesis using goes_on_then_touch[OF _ m'] r live by (simp add: op_reads_def)
qed

lemma receive_alters: "alters (tt_slot ticket) m (snd (TcpModule_receive ticket cap m))"
proof (cases "TcpModule_live_connection ticket m")
  case None
  then show ?thesis by (simp add: TcpModule_receive_def alters_refl)
next
  case (Some k)
  then have k: "k = tt_slot ticket" by (simp add: live_connection_Some)
  then show ?thesis using Some by (auto simp: TcpModule_receive_def Let_def intro!: tcp_frame split: prod.split)
qed

lemma listens_conn [simp]:
  "tm_connections (snd (TcpModule_listen port events m)) = tm_connections m"
  "tm_connections (snd (TcpModule_unlisten lt m)) = tm_connections m"
  "tm_connections (snd (TcpModule_take_accepted lt m)) = tm_connections m"
  "tm_connections (TcpModule_aim sink own m) = tm_connections m"
  by (simp_all add: TcpModule_listen_def TcpModule_unlisten_def TcpModule_take_accepted_def TcpModule_aim_def Let_def split: option.split)

lemma exec_goes_on:
  assumes len: "length (tm_connections m) = 8" and k: "k < 8" and used: "tc_used (conn m k)" and at: "stream_at S base H (conn m k)"
    and peer: "peer_conforms S base k op m"
  shows "goes_on S base H (op_reads k op m) (conn m k) (conn (tcp_exec op m) k)"
proof -
  note same = goes_on_same[OF conn_cong at used] and k' = k[folded len]
  note other = goes_on_alters[OF _ _ at used]
  show ?thesis
  proof (cases op)
    case (Op_handle bytes header)
    then show ?thesis using handle_goes_on[OF len k used at] peer by (simp add: op_reads_def)
  next
    case (Op_connect lp ra rp events now)
    have "conn (tcp_exec op m) k = conn m k" unfolding Op_connect tcp_exec.simps
      by (cases rule: connect_cases[OF len, of lp ra rp events now]) (auto intro: conn_cong renews_spares[OF _ used])
    then show ?thesis using goes_on_same[OF _ at used] Op_connect by (simp add: op_reads_def)
  next
    case (Op_send ticket payload now)
    have "goes_on S base H [] (conn m k) (conn (tcp_exec op m) k)"
      using goes_on_calm[OF touch_calm[OF st_rx[OF send_touch]] k' at used] Op_send by simp
    then show ?thesis using Op_send by (simp add: op_reads_def)
  next
    case (Op_receive ticket cap)
    show ?thesis
    proof (cases "TcpModule_live_connection ticket m = Some k")
      case True
      then show ?thesis using receive_goes_on[OF k' used at] Op_receive by simp
    next
      case False
      have c: "conn (snd (TcpModule_receive ticket cap m)) k = conn m k"
      proof (cases "tt_slot ticket = k")
        case True
        then have "TcpModule_live_connection ticket m = None" using False live_connection_Some[of ticket m] by (cases "TcpModule_live_connection ticket m") auto
        then show ?thesis by (simp add: TcpModule_receive_def)
      next
        case neq: False
        then show ?thesis using altersD(2)[OF receive_alters[of ticket m cap], of k] by simp
      qed
      then show ?thesis using goes_on_same[OF c at used] Op_receive False by (simp add: op_reads_def)
    qed
  next
    case (Op_close ticket)
    have "goes_on S base H [] (conn m k) (conn (TcpModule_close ticket m) k)"
    proof (cases rule: close_cases[OF len, of ticket])
      case 1
      then show ?thesis using goes_on_calm[OF touch_calm k' at used] by blast
    next
      case 2
      then show ?thesis using other[OF 2(2)] by (cases "tt_slot ticket = k") (auto simp: goes_on_def gone_def)
    qed
    then show ?thesis using Op_close by (simp add: op_reads_def)
  next
    case (Op_abandon ticket)
    have "goes_on S base H [] (conn m k) (conn (TcpModule_abandon ticket m) k)"
      by (cases rule: abandon_cases[OF len, of ticket])
        (use goes_on_same[OF refl at used] goes_on_calm[OF released_calm k' at used] in auto)
    then show ?thesis using Op_abandon by (simp add: op_reads_def)
  next
    case (Op_service now)
    then show ?thesis using goes_on_calm[OF service_calm k' at used] by (simp add: op_reads_def)
  qed (use same in \<open>simp_all add: op_reads_def\<close>)
qed

section \<open>Seats and stamps\<close>

text \<open>The same at the level of a seat's use and stamp, for any segment.\<close>

named_theorems tcp_seat

definition keeps :: "nat \<Rightarrow> TcpModule \<Rightarrow> TcpModule \<Rightarrow> bool" where
  "keeps k m m' \<longleftrightarrow> alters k m m' \<and> tc_used (conn m' k) = tc_used (conn m k) \<and> tc_stamp (conn m' k) = tc_stamp (conn m k)"

lemma keeps_refl [tcp_seat]: "keeps k m m"
  by (simp add: keeps_def alters_refl)

lemma keeps_trans: "keeps k m m1 \<Longrightarrow> keeps k m1 m2 \<Longrightarrow> keeps k m m2"
  using alters_trans by (auto simp: keeps_def)

lemma touch_keeps: "touch k rx_view m m' \<Longrightarrow> keeps k m m'"
  using touch_alters touchD(3)[of k rx_view m m'] by (auto simp: keeps_def rx_view_def)

lemma keeps_upd [tcp_seat]:
  assumes "keeps k m x" "\<And>c. tc_used (f c) = tc_used c \<and> tc_stamp (f c) = tc_stamp c" shows "keeps k m (upd_conn k f x)"
proof (rule keeps_trans[OF assms(1)])
  show "keeps k x (upd_conn k f x)"
    by (cases "k < length (tm_connections x)")
      (simp_all add: keeps_def alters_upd conn_upd_conn assms(2), simp add: conn_def upd_conn_def list_update_beyond)
qed

lemma keeps_same: "tm_connections m' = tm_connections m \<Longrightarrow> keeps k m m'"
  by (simp add: keeps_def alters_def conn_def)

lemma keeps_calls [tcp_seat]:
  "keeps k m x \<Longrightarrow> keeps k m (upd_stats g x)"
  "keeps k m x \<Longrightarrow> keeps k m (x\<lparr>tm_timers := t\<rparr>)"
  "keeps k m x \<Longrightarrow> keeps k m (x\<lparr>tm_stats := s\<rparr>)"
  "keeps k m x \<Longrightarrow> keeps k m (TcpModule_transmit_segment c flags payload sequence x)"
  "keeps k m x \<Longrightarrow> keeps k m (TcpModule_disarm_rto_guard k x)"
  "keeps k m x \<Longrightarrow> keeps k m (tcp_queue_accepted k x)"
  "keeps k m x \<Longrightarrow> keeps k m y \<Longrightarrow> keeps k m (if b then x else y)"
  by (simp_all only: if_split simp_thms)
    (erule keeps_trans, (rule touch_keeps[OF st_rx[OF disarm_touch]] | rule keeps_same, simp))+

lemma begin_time_wait_keeps [tcp_seat]: "keeps k m x \<Longrightarrow> keeps k m (TcpModule_begin_time_wait k x)"
  unfolding TcpModule_begin_time_wait_def Let_def
  by (auto intro!: tcp_seat split: prod.split sum.split)

lemma store_keeps [tcp_seat]: "keeps k m x \<Longrightarrow> keeps k m (TcpModule_store_out_of_order k view payload x)"
  unfolding TcpModule_store_out_of_order_def Let_def tcp_drop_reorder_def
  by (auto intro!: tcp_seat split: option.split)

lemma harvest_fold_seat:
  "fold harvest_seat is (c, s, d) = (c', s', d') \<Longrightarrow> tc_used c' = tc_used c \<and> tc_stamp c' = tc_stamp c"
proof (induction "is" arbitrary: c s d)
  case (Cons i "is")
  obtain c1 s1 d1 where one: "harvest_seat i (c, s, d) = (c1, s1, d1)" by (metis prod_cases3)
  then have "tc_used c1 = tc_used c \<and> tc_stamp c1 = tc_stamp c" by (auto simp: harvest_seat_def Let_def split: if_splits)
  then show ?case using Cons.IH[of c1 s1 d1] Cons.prems one by simp
qed simp

lemma harvest_loop_seat:
  "harvest_loop (c, s, d) = (c', s', d') \<Longrightarrow> tc_used c' = tc_used c \<and> tc_stamp c' = tc_stamp c"
proof (induction "(c, s, d)" arbitrary: c s d rule: harvest_loop.induct)
  case (1 c s data)
  obtain c1 s1 d1 where pass: "harvest_pass (c, s) = (c1, s1, d1)" by (metis prod_cases3)
  then have g: "tc_used c1 = tc_used c \<and> tc_stamp c1 = tc_stamp c"
    using harvest_fold_seat[of "[0..<4]" c s False] by (simp add: harvest_pass_def)
  show ?case
  proof (cases "length (tc_reorder c) = 4")
    case True
    show ?thesis
    proof (cases d1)
      case True
      then show ?thesis using 1 \<open>length (tc_reorder c) = 4\<close> pass g by (simp add: harvest_loop.simps[of c])
    next
      case False
      then show ?thesis using 1(2) \<open>length (tc_reorder c) = 4\<close> pass g by (simp add: harvest_loop.simps[of c])
    qed
  next
    case False
    then show ?thesis using 1(2) by (simp add: harvest_loop.simps[of c])
  qed
qed

lemma harvest_keeps [tcp_seat]:
  assumes "keeps k m x" shows "keeps k m (snd (TcpModule_harvest_reorder k fire x))"
proof -
  obtain c' s' d' where loop: "harvest_loop (conn x k, tm_stats x, pf_data fire) = (c', s', d')" by (metis prod_cases3)
  have "keeps k x (upd_conn k (\<lambda>_. c') (x\<lparr>tm_stats := s'\<rparr>))"
    by (cases "k < length (tm_connections x)")
      (use harvest_loop_seat[OF loop] in \<open>auto simp: keeps_def alters_def conn_upd_conn\<close>,
       simp_all add: conn_def upd_conn_def list_update_beyond)
  then show ?thesis using keeps_trans[OF assms] by (simp add: TcpModule_harvest_reorder_def loop)
qed

lemma keeps_state_case [tcp_seat]:
  "keeps k m a0 \<Longrightarrow> keeps k m a1 \<Longrightarrow> keeps k m a2 \<Longrightarrow> keeps k m a3 \<Longrightarrow> keeps k m a4 \<Longrightarrow> keeps k m a5 \<Longrightarrow>
   keeps k m a6 \<Longrightarrow> keeps k m a7 \<Longrightarrow> keeps k m a8 \<Longrightarrow> keeps k m a9 \<Longrightarrow>
   keeps k m (case st of TcpState_kClosed \<Rightarrow> a0 | TcpState_kSynSent \<Rightarrow> a1 | TcpState_kSynReceived \<Rightarrow> a2
     | TcpState_kEstablished \<Rightarrow> a3 | TcpState_kFinWait1 \<Rightarrow> a4 | TcpState_kFinWait2 \<Rightarrow> a5 | TcpState_kCloseWait \<Rightarrow> a6
     | TcpState_kClosing \<Rightarrow> a7 | TcpState_kLastAck \<Rightarrow> a8 | TcpState_kTimeWait \<Rightarrow> a9)"
  by (simp split: TcpState.split)

lemma absorb_bytes_keeps [tcp_seat]: "keeps k m x \<Longrightarrow> keeps k m (snd (TcpModule_absorb_bytes k view payload n fire x))"
  unfolding TcpModule_absorb_bytes_def Let_def snd_conv by (intro tcp_seat) simp_all

lemma absorb_tail_seat:
  assumes "k < length (tm_connections m)"
  shows "keeps k m (snd (tcp_absorb_tail k view payload n fire m)) \<or> freed k m (snd (tcp_absorb_tail k view payload n fire m))"
proof -
  obtain stop fire1 m1 where run: "TcpModule_absorb_ack k view n fire m = (stop, fire1, m1)" by (metis prod_cases3)
  from absorb_ack_outcome[OF assms run] consider "keeps k m m1" | "stop" "freed k m m1" using touch_keeps released_freed by blast
  then show ?thesis
  proof cases
    case 1
    then have "keeps k m (snd (tcp_absorb_tail k view payload n fire m))" unfolding tcp_absorb_tail_def run
      by (cases stop) (auto simp: Let_def case_prod_beta intro!: tcp_seat)
    then show ?thesis ..
  next
    case 2
    then show ?thesis by (simp add: tcp_absorb_tail_def run)
  qed
qed

lemma keeps_freed: "keeps k m m1 \<Longrightarrow> freed k m1 m2 \<Longrightarrow> freed k m m2"
  by (simp add: keeps_def alters_def freed_def)

lemma freed_after: "freed k m m1 \<Longrightarrow> tm_connections m2 = tm_connections m1 \<Longrightarrow> freed k m m2"
  by (simp add: freed_def conn_def)

lemma absorb_segment_seat:
  assumes "k < length (tm_connections m)"
  shows "keeps k m (snd (TcpModule_absorb_segment k view payload n fire m)) \<or>
         freed k m (snd (TcpModule_absorb_segment k view payload n fire m))"
proof (cases "has_flag kTcpFlagRst view")
  case True
  let ?m = "upd_stats (\<lambda>s. s\<lparr>st_resets_received := st_resets_received s + 1\<rparr>) m"
  have "released k ?m (snd (TcpModule_absorb_segment k view payload n fire m))"
    using True release_released[of k ?m] assms by (simp add: TcpModule_absorb_segment_def Let_def)
  then show ?thesis using released_freed[OF touch_released[OF touch_upd_stats]] by blast
next
  case False
  let ?m' = "snd (TcpModule_absorb_segment k view payload n fire m)"
  have tail: "keeps k m ?m' \<or> freed k m ?m'" if "keeps k m x" "?m' = snd (tcp_absorb_tail k view payload n f x)" for f x
    using absorb_tail_seat[of k x view payload n f] that assms keeps_trans keeps_freed by (auto simp: keeps_def alters_def)
  note eq = TcpModule_absorb_segment_def[of k view payload n fire m, unfolded Let_def if_not_P[OF False]]
  show ?thesis
  proof (cases "tc_state (conn m k) = TcpState_kSynSent \<or> tc_state (conn m k) = TcpState_kTimeWait \<or> tc_state (conn m k) = TcpState_kClosed \<or>
      tc_state (conn m k) = TcpState_kSynReceived \<and> \<not> (has_flag kTcpFlagAck view \<and> tv_acknowledgement view = tc_snd_nxt (conn m k))")
    case True
    then have "keeps k m ?m'" unfolding eq by (elim disjE) (auto intro!: tcp_seat)
    then show ?thesis ..
  next
    case False
    show ?thesis
    proof (cases "tc_state (conn m k) = TcpState_kSynReceived")
      case True
      let ?x = "tcp_queue_accepted k (upd_stats (\<lambda>s. s\<lparr>st_accepted := st_accepted s + 1\<rparr>)
                   (upd_conn k (\<lambda>c. c\<lparr>tc_snd_una := tv_acknowledgement view, tc_state := TcpState_kEstablished\<rparr>) m))"
      have "keeps k m ?x" by (intro tcp_seat) simp_all
      then show ?thesis by (rule tail) (use eq True False in simp)
    next
      case neq: False
      show ?thesis by (rule tail[OF keeps_refl]) (use eq False neq in \<open>cases "tc_state (conn m k)"; simp\<close>)
    qed
  qed
qed

definition seat_moves :: "Connection \<Rightarrow> Connection \<Rightarrow> bool" where
  "seat_moves c c' \<longleftrightarrow> (\<exists>d\<le>2. tc_stamp c' = tc_stamp c + of_nat d \<and> (d = 0 \<longrightarrow> tc_used c' \<longrightarrow> tc_used c))"

definition seats_move :: "TcpModule \<Rightarrow> TcpModule \<Rightarrow> bool" where
  "seats_move m m' \<longleftrightarrow> length (tm_connections m') = length (tm_connections m) \<and>
     (\<forall>k<length (tm_connections m). seat_moves (conn m k) (conn m' k))"

lemma seat_moves_by: "d \<le> 2 \<Longrightarrow> tc_stamp c' = tc_stamp c + of_nat d \<Longrightarrow> (d = 0 \<Longrightarrow> tc_used c' \<Longrightarrow> tc_used c) \<Longrightarrow> seat_moves c c'"
  by (auto simp: seat_moves_def)

lemma seat_moves_refl: "seat_moves c c"
  by (rule seat_moves_by[of 0]) simp_all

lemma alters_moves: "alters k m m' \<Longrightarrow> seat_moves (conn m k) (conn m' k) \<Longrightarrow> seats_move m m'"
  unfolding seats_move_def alters_def using seat_moves_refl by metis

lemma same_moves: "tm_connections m' = tm_connections m \<Longrightarrow> seats_move m m'"
  by (simp add: seats_move_def conn_def seat_moves_refl)

lemma keeps_moves: "keeps k m m' \<Longrightarrow> seats_move m m'"
  by (rule alters_moves[of k]) (auto simp: keeps_def intro: seat_moves_by[of 0])

lemma freed_moves: "freed k m m' \<Longrightarrow> seats_move m m'"
  by (rule alters_moves[of k]) (auto simp: freed_def alters_def intro: seat_moves_by[of 1])

lemma renews_moves: "renews k m m' \<Longrightarrow> seats_move m m'"
  by (rule alters_moves[of k]) (auto simp: renews_def intro: seat_moves_by[of 1])

lemma seat_calm_moves: "seat_calm c c' \<Longrightarrow> seat_moves c c'"
  by (auto simp: seat_calm_def rx_view_def intro: seat_moves_by[of 0] seat_moves_by[of 1])

lemma calm_moves: "calm m m' \<Longrightarrow> seats_move m m'"
  unfolding calm_def seats_move_def using seat_calm_moves by blast

lemma moves_same: "seats_move m m1 \<Longrightarrow> tm_connections m2 = tm_connections m1 \<Longrightarrow> seats_move m m2"
  by (simp add: seats_move_def conn_def)

lemma freed_answer_moves:
  assumes len: "length (tm_connections m) = 8" and f: "freed k m m1"
  shows "seats_move m (TcpModule_answer_unclaimed header view n m1)"
proof -
  have len1: "length (tm_connections m1) = 8" using len f by (simp add: freed_def)
  let ?m' = "TcpModule_answer_unclaimed header view n m1"
  show ?thesis
  proof (cases rule: answer_unclaimed_cases[OF len1, of header view n])
    case 1
    then show ?thesis using moves_same[OF freed_moves[OF f]] by simp
  next
    case (2 j)
    have "seat_moves (conn m i) (conn ?m' i)" for i
    proof (cases "i = j")
      case True
      then show ?thesis using 2 f
        by (cases "j = k") (auto simp: renews_def freed_def intro: seat_moves_by[of 1] seat_moves_by[of 2])
    next
      case False
      then show ?thesis using altersD(2)[of j m1 ?m' i] 2 f
        by (cases "i = k") (auto simp: renews_def freed_def seat_moves_refl intro: seat_moves_by[of 1])
    qed
    then show ?thesis using answer_unclaimed_length[OF len1] len by (simp add: seats_move_def)
  qed
qed

lemma find_connection_bound: "TcpModule_find_connection a p l m = Some k \<Longrightarrow> k < 8"
  unfolding TcpModule_find_connection_def find_upt_Some_iff by simp

lemma handle_moves:
  assumes len: "length (tm_connections m) = 8" shows "seats_move m (TcpModule_handle bytes header m)"
proof (cases rule: handle_cases[of bytes header m])
  case (refused g)
  then show ?thesis by (simp add: same_moves)
next
  case (unclaimed view payload n)
  have "seats_move m (TcpModule_answer_unclaimed header view n m)"
    by (cases rule: answer_unclaimed_cases[OF len, of header view n]) (auto intro: same_moves renews_moves)
  then show ?thesis by (rule moves_same) (simp add: unclaimed)
next
  case (recycled view payload n k)
  let ?m1 = "snd (TcpModule_release_connection k PendingFire_none TcpFarewell_kGraceful m)"
  have f: "freed k m ?m1" using released_freed[OF release_released] find_connection_bound[OF recycled(2)] len by simp
  show ?thesis by (rule moves_same[OF freed_answer_moves[OF len f]]) (simp add: recycled(3))
next
  case (absorbed view payload n k fire m1)
  have k: "k < length (tm_connections m)" using find_connection_bound[OF absorbed(2)] len by simp
  let ?m2 = "if tc_used (conn m1 k)
      then TcpModule_after_ack_movement k (seq_before (tc_snd_una (conn m k)) (tc_snd_una (conn m1 k))) (tm_service_now_ns m1) m1 else m1"
  have t: "keeps k m1 ?m2" using touch_keeps[OF st_rx[OF after_ack_touch]] keeps_refl by auto
  have "keeps k m m1 \<or> freed k m m1" using absorb_segment_seat[OF k, of view payload n PendingFire_none] absorbed(3) by simp
  then have "seats_move m ?m2"
  proof
    assume "keeps k m m1"
    then show ?thesis by (rule keeps_moves[OF keeps_trans[OF _ t]])
  next
    assume f: "freed k m m1"
    then have "\<not> tc_used (conn m1 k)" by (simp add: freed_def Connection_empty_def)
    then show ?thesis using freed_moves[OF f] by simp
  qed
  then show ?thesis by (rule moves_same) (simp add: absorbed(4))
qed

lemma receive_keeps: "keeps (tt_slot ticket) m (snd (TcpModule_receive ticket cap m))"
proof (cases "TcpModule_live_connection ticket m")
  case (Some k)
  then have "k = tt_slot ticket" by (simp add: live_connection_Some)
  then show ?thesis using Some by (auto simp: TcpModule_receive_def Let_def intro!: tcp_seat split: prod.split)
qed (simp add: TcpModule_receive_def keeps_refl)

lemma exec_moves:
  assumes len: "length (tm_connections m) = 8" shows "seats_move m (tcp_exec op m)"
proof (cases op)
  case (Op_connect lp ra rp events now)
  then show ?thesis
    by (cases rule: connect_cases[OF len, of lp ra rp events now]) (auto intro: same_moves renews_moves)
next
  case (Op_receive ticket cap)
  then show ?thesis using keeps_moves[OF receive_keeps] by simp
next
  case (Op_close ticket)
  have "seats_move m (TcpModule_close ticket m)"
  proof (cases rule: close_cases[OF len, of ticket])
    case 1
    then show ?thesis by (rule calm_moves[OF touch_calm])
  next
    case 2
    then show ?thesis by (intro alters_moves[OF 2(2)] seat_moves_by[of 0]) simp_all
  qed
  then show ?thesis using Op_close by simp
next
  case (Op_abandon ticket)
  then show ?thesis
    by (cases rule: abandon_cases[OF len, of ticket]) (auto intro: same_moves freed_moves released_freed)
qed (auto intro: handle_moves[OF len] same_moves calm_moves service_calm touch_calm st_rx send_touch)

section \<open>The connection table keeps the ticket discipline\<close>

definition tcp_seats :: "TcpModule \<Rightarrow> (bool \<times> u64) list" where
  "tcp_seats m = map (\<lambda>c. (tc_used c, tc_stamp c)) (tm_connections m)"

definition tcp_step :: "TcpModule \<Rightarrow> TcpModule \<Rightarrow> bool" where
  "tcp_step m m' \<longleftrightarrow> length (tm_connections m) = 8 \<and> (\<exists>op. m' = tcp_exec op m)"

interpretation tcp_tickets: ticket_table tcp_seats tcp_step
proof
  fix m m' assume "tcp_step m m'"
  then have mv: "seats_move m m'" using exec_moves by (auto simp: tcp_step_def)
  then show "length (tcp_seats m') = length (tcp_seats m)" by (simp add: tcp_seats_def seats_move_def)
  fix i assume "i < length (tcp_seats m)"
  then show "\<exists>d\<le>2. snd (tcp_seats m' ! i) = snd (tcp_seats m ! i) + of_nat d \<and>
      (d = 0 \<longrightarrow> fst (tcp_seats m' ! i) \<longrightarrow> fst (tcp_seats m ! i))"
    using mv by (auto simp: tcp_seats_def seats_move_def seat_moves_def conn_def)
qed

section \<open>Runs\<close>

definition tcp_run :: "TcpOp list \<Rightarrow> TcpModule \<Rightarrow> TcpModule" where
  "tcp_run = fold tcp_exec"

lemma tcp_run_simps [simp]: "tcp_run [] m = m" "tcp_run (op # ops) m = tcp_run ops (tcp_exec op m)"
  "tcp_run (ops @ later) m = tcp_run later (tcp_run ops m)"
  by (simp_all add: tcp_run_def)

fun peer_run :: "(u32 \<Rightarrow> u8) \<Rightarrow> u32 \<Rightarrow> nat \<Rightarrow> TcpOp list \<Rightarrow> TcpModule \<Rightarrow> bool" where
  "peer_run S base k [] m = True"
| "peer_run S base k (op # ops) m = (peer_conforms S base k op m \<and> peer_run S base k ops (tcp_exec op m))"

fun reads_run :: "nat \<Rightarrow> TcpOp list \<Rightarrow> TcpModule \<Rightarrow> u8 list" where
  "reads_run k [] m = []"
| "reads_run k (op # ops) m = op_reads k op m @ reads_run k ops (tcp_exec op m)"

lemma exec_length: "length (tm_connections m) = 8 \<Longrightarrow> length (tm_connections (tcp_exec op m)) = 8"
  using exec_moves[of m op] by (simp add: seats_move_def)

lemma run_length: "length (tm_connections m) = 8 \<Longrightarrow> length (tm_connections (tcp_run ops m)) = 8"
  by (induction ops arbitrary: m) (simp_all add: exec_length)

lemma run_steps: "length (tm_connections m) = 8 \<Longrightarrow> (tcp_step ^^ length ops) m (tcp_run ops m)"
proof (induction ops arbitrary: m)
  case (Cons op ops)
  then have "tcp_step m (tcp_exec op m)" by (auto simp: tcp_step_def)
  then show ?case using Cons.IH[OF exec_length[OF Cons.prems]] relpowp_Suc_I2 by fastforce
qed simp

lemma alive_live:
  assumes "length (tm_connections m) = 8"
  shows "TcpModule_alive ticket m \<longleftrightarrow> tcp_tickets.live (tt_slot ticket) (tt_stamp ticket) m"
  using assms by (auto simp: TcpModule_alive_def TcpModule_live_connection_def tcp_tickets.live_def tcp_seats_def conn_def)

lemma gone_spent:
  assumes "gone c (conn m k)" "tc_stamp c = stamp" "unat stamp + 2 < 2 ^ 64" "k < length (tm_connections m)"
  shows "tcp_tickets.spent k stamp m \<and> unat (snd (tcp_seats m ! k)) \<le> unat stamp + 2"
proof -
  have "unat (stamp + 1) = unat stamp + 1" "unat (stamp + 2) = unat stamp + 2"
    using assms(3) by (simp_all add: unat_word_ariths)
  then show ?thesis using assms(1,2,4)
    by (auto simp: gone_def tcp_tickets.spent_def tcp_seats_def conn_def[symmetric])
qed

text \<open>A run either keeps the connection's stream or ends the connection, and then its ticket is spent.\<close>

lemma run_goes_on:
  assumes "length (tm_connections m) = 8" "k < 8" "tc_used (conn m k)" "tc_stamp (conn m k) = stamp"
    "stream_at S base H (conn m k)" "peer_run S base k ops m" "unat stamp + 2 * length ops < 2 ^ 64"
  shows "tcp_tickets.live k stamp (tcp_run ops m) \<longrightarrow> stream_at S base (H @ reads_run k ops m) (conn (tcp_run ops m) k)"
  using assms
proof (induction ops arbitrary: m H)
  case (Cons op ops)
  let ?m1 = "tcp_exec op m"
  have len1: "length (tm_connections ?m1) = 8" by (rule exec_length[OF Cons.prems(1)])
  have "goes_on S base H (op_reads k op m) (conn m k) (conn ?m1 k)"
    using exec_goes_on[OF Cons.prems(1-3,5)] Cons.prems(6) by simp
  then consider "tc_used (conn ?m1 k)" "tc_stamp (conn ?m1 k) = stamp" "stream_at S base (H @ op_reads k op m) (conn ?m1 k)"
    | "gone (conn m k) (conn ?m1 k)" using Cons.prems(4) by (auto simp: goes_on_def)
  then show ?case
  proof cases
    case 1
    then show ?thesis using Cons.IH[OF len1 Cons.prems(2) 1] Cons.prems(6,7) by simp
  next
    case 2
    have s: "tcp_tickets.spent k stamp ?m1" "unat (snd (tcp_seats ?m1 ! k)) \<le> unat stamp + 2"
      using gone_spent[OF 2 Cons.prems(4)] Cons.prems(2,7) len1 by simp_all
    have "tcp_tickets.spent k stamp (tcp_run ops ?m1)"
      using tcp_tickets.spent_run[OF run_steps[OF len1] s(1)] s(2) Cons.prems(2,7) len1 by (simp add: tcp_seats_def)
    then show ?thesis using tcp_tickets.spent_not_live by simp
  qed
qed simp

text \<open>A connection fresh out of its opening: nothing received yet.\<close>

definition tcp_opened :: "u32 \<Rightarrow> TcpTicket \<Rightarrow> TcpModule \<Rightarrow> bool" where
  "tcp_opened base ticket m \<longleftrightarrow> TcpModule_alive ticket m \<and>
     (let c = conn m (tt_slot ticket) in
      tc_inbox c = tc_inbox Connection_empty \<and> tc_reorder c = tc_reorder Connection_empty \<and>
      (tc_state c = TcpState_kSynSent \<or> tc_state c = TcpState_kSynReceived \<and> tc_rcv_nxt c = base))"

lemma opened_stream: "tcp_opened base ticket m \<Longrightarrow> stream_at S base [] (conn m (tt_slot ticket))"
proof -
  assume o: "tcp_opened base ticket m"
  let ?c = "conn m (tt_slot ticket)"
  have ok: "rx_ok S ?c" using o by (intro rx_ok_empty) (simp_all add: tcp_opened_def Let_def)
  have "RingQueue_content (tc_inbox ?c) = []"
    using o by (simp add: tcp_opened_def Let_def Connection_empty_def RingQueue_init_inv)
  then show ?thesis using o ok by (auto simp: stream_at_def tcp_opened_def Let_def rx_end_def past_fin_def intro: exI[of _ 0])
qed

text \<open>
  C3. Bytes are delivered once, in order and unchanged. Let a peer send a stream \<open>S\<close> whose first byte
  has sequence number \<open>base\<close>, in segments that may be lost, repeated, reordered and overlap in any
  way, and interleave them with any operations of the module, including those of other connections,
  timers and retransmissions. As long as the connection's ticket is alive, what was read through it
  followed by what waits in the inbox is the beginning of the stream; and once the peer's FIN has been
  taken, it reaches exactly up to the FIN.
\<close>

theorem tcp_stream_integrity:
  assumes "length (tm_connections m) = 8" "tcp_opened base ticket m" "peer_run S base (tt_slot ticket) ops m"
    and "TcpModule_alive ticket (tcp_run ops m)" "unat (tt_stamp ticket) + 2 * length ops < 2 ^ 64"
  shows "\<exists>n. reads_run (tt_slot ticket) ops m @ RingQueue_content (tc_inbox (conn (tcp_run ops m) (tt_slot ticket))) = piece S base n \<and>
    (TcpModule_concluded ticket (tcp_run ops m) \<longrightarrow> tc_rcv_nxt (conn (tcp_run ops m) (tt_slot ticket)) = base + of_nat n + 1)"
proof -
  let ?k = "tt_slot ticket" and ?m' = "tcp_run ops m"
  have k: "?k < 8" "tc_used (conn m ?k)" "tc_stamp (conn m ?k) = tt_stamp ticket"
    using assms(2) by (auto simp: tcp_opened_def TcpModule_alive_def live_connection_Some)
  have live: "tcp_tickets.live ?k (tt_stamp ticket) ?m'" using alive_live[OF run_length[OF assms(1)]] assms(4) by simp
  have at: "stream_at S base (reads_run ?k ops m) (conn ?m' ?k)"
    using run_goes_on[OF assms(1) k opened_stream[OF assms(2)] assms(3,5)] live by simp
  have conc: "TcpModule_concluded ticket ?m' \<longrightarrow> past_fin (tc_state (conn ?m' ?k))"
    by (auto simp: TcpModule_concluded_def live_connection_Some split: option.splits)
  show ?thesis
  proof (cases "tc_state (conn ?m' ?k) = TcpState_kSynSent")
    case True
    then show ?thesis using at rx_okD(7)[OF stream_at_ok[OF at] True] conc
      by (auto simp: stream_at_def past_fin_def intro: exI[of _ 0])
  next
    case False
    then obtain n where n: "reads_run ?k ops m @ RingQueue_content (tc_inbox (conn ?m' ?k)) = piece S base n"
        "rx_end (conn ?m' ?k) = base + of_nat n" using at by (auto simp: stream_at_def)
    then show ?thesis using conc by (auto simp: rx_end_def algebra_simps intro!: exI[of _ n])
  qed
qed

definition sample_ip :: Ipv4View where
  "sample_ip = \<lparr>i4_header_bytes = 20, i4_total_length = 40, i4_protocol = 6, i4_source = 0x0A000202, i4_destination = 0x0A00020F\<rparr>"
definition sample_tcp :: TcpModule where
  "sample_tcp = upd_conn 0 (\<lambda>_. Connection_empty\<lparr>tc_used := True, tc_stamp := 1, tc_state := TcpState_kSynReceived,
      tc_remote_address := 0x0A000202, tc_remote_port := 80, tc_local_port := 40000, tc_rcv_nxt := 5001,
      tc_snd_una := 0x9E3779B9, tc_snd_nxt := 0x9E3779BA\<rparr>) TcpModule_new"

definition sample_peer :: Connection where
  "sample_peer = Connection_empty\<lparr>tc_local_port := 80, tc_remote_port := 40000, tc_remote_address := 0x0A00020F, tc_rcv_nxt := 0x9E3779BA\<rparr>"

definition sample_bytes :: "u8 list" where
  "sample_bytes = tcp_wire 0x0A000202 sample_peer 0x18 [65] 5001"

lemma sample_segment:
  obtains v where "tcp_segment sample_bytes sample_ip = Some (tcp_view_of sample_peer 0x18 5001 v, [65], 1)"
proof (rule tcp_segment_wire[of "[65]" sample_ip "0x0A000202" sample_peer "0x18" 5001])
  show "i4_source sample_ip = SourceAddressFor 0x0A000202 (tc_remote_address sample_peer)"
    "i4_destination sample_ip = tc_remote_address sample_peer"
    by (simp_all add: sample_ip_def sample_peer_def SourceAddressFor_def)
qed (use that in \<open>auto simp: sample_bytes_def\<close>)

lemma sample_conn:
  "length (tm_connections sample_tcp) = 8" "conn sample_tcp 0 = Connection_empty\<lparr>tc_used := True, tc_stamp := 1, tc_state := TcpState_kSynReceived,
      tc_remote_address := 0x0A000202, tc_remote_port := 80, tc_local_port := 40000, tc_rcv_nxt := 5001,
      tc_snd_una := 0x9E3779B9, tc_snd_nxt := 0x9E3779BA\<rparr>"
  by (simp_all add: sample_tcp_def conn_upd_conn TcpModule_new_def)

lemma sample_handle: "keeps 0 sample_tcp (TcpModule_handle sample_bytes sample_ip sample_tcp)"
proof -
  obtain v where sg: "tcp_segment sample_bytes sample_ip = Some (tcp_view_of sample_peer 0x18 5001 v, [65], 1)" using sample_segment by blast
  let ?view = "tcp_view_of sample_peer 0x18 5001 v"
  have view: "tv_source_port ?view = 80" "tv_destination_port ?view = 40000" "tv_acknowledgement ?view = 0x9E3779BA" "tv_sequence ?view = 5001" "tv_flags ?view = 0x18"
    by (simp_all add: tcp_view_of_def sample_peer_def)
  have fl: "has_flag 4 ?view = False" "has_flag 16 ?view = True" "has_flag 2 ?view = False" by (simp_all add: has_flag_def view)
  have f: "TcpModule_find_connection (i4_source sample_ip) 80 40000 sample_tcp = Some 0"
    unfolding TcpModule_find_connection_def find_upt_Some_iff by (simp add: sample_conn sample_ip_def)
  define m1 where "m1 = tcp_queue_accepted 0 (upd_stats (\<lambda>s. s\<lparr>st_accepted := st_accepted s + 1\<rparr>)
     (upd_conn 0 (\<lambda>c. c\<lparr>tc_snd_una := 0x9E3779BA, tc_state := TcpState_kEstablished\<rparr>) sample_tcp))"
  have k1: "keeps 0 sample_tcp m1" unfolding m1_def by (intro tcp_seat) simp_all
  have c1: "conn m1 0 = (conn sample_tcp 0)\<lparr>tc_snd_una := 0x9E3779BA, tc_state := TcpState_kEstablished\<rparr>" 
    by (simp add: m1_def conn_upd_conn sample_conn(1))
  have l1: "length (tm_connections m1) = 8" by (simp add: m1_def sample_conn(1))
  have ack: "TcpModule_absorb_ack 0 ?view 1 fire m1 = (False, fire, upd_conn 0 (\<lambda>c. c\<lparr>tc_snd_window := ucast (tv_window ?view)\<rparr>) m1)" for fire
    unfolding TcpModule_absorb_ack_def tcp_slide_def Let_def fl view by (simp add: conn_upd_conn l1 c1 sample_conn(2) seq_before_def)
  have "keeps 0 sample_tcp (snd (tcp_absorb_tail 0 ?view [65] 1 fire m1))" for fire
    unfolding tcp_absorb_tail_def ack using k1
    by (auto simp: Let_def case_prod_beta intro!: tcp_seat)
  then have "keeps 0 sample_tcp (snd (TcpModule_absorb_segment 0 ?view [65] 1 PendingFire_none sample_tcp))"
    unfolding TcpModule_absorb_segment_def Let_def fl view by (simp add: sample_conn(2) m1_def)
  moreover have "keeps 0 m (if b then TcpModule_after_ack_movement 0 mv now m else m)" for b mv now m
    using touch_keeps[OF st_rx[OF after_ack_touch]] keeps_refl by auto
  ultimately have all: "keeps 0 sample_tcp (TcpModule_deliver_fire g (if b then TcpModule_after_ack_movement 0 mv now (snd (TcpModule_absorb_segment 0 ?view [65] 1 PendingFire_none sample_tcp))
      else (snd (TcpModule_absorb_segment 0 ?view [65] 1 PendingFire_none sample_tcp))))" for g b mv now
    using keeps_trans keeps_same[OF deliver_conn(2)] by blast
  have nt: "\<not> (tc_state (conn sample_tcp 0) = TcpState_kTimeWait \<and> has_flag 2 ?view \<and> \<not> has_flag 16 ?view)"
    by (simp add: sample_conn(2))
  show ?thesis unfolding handle_segment[OF sg] view f option.case if_not_P[OF nt] Let_def case_prod_beta by (rule all)
qed

theorem tcp_stream_integrity_witness:
  "let ticket = \<lparr>tt_slot = 0, tt_stamp = 1\<rparr>; ops = [Op_handle sample_bytes sample_ip, Op_receive ticket 10] in
   \<exists>n. reads_run 0 ops sample_tcp @ RingQueue_content (tc_inbox (conn (tcp_run ops sample_tcp) 0)) = piece (\<lambda>_. 65) 5001 n \<and>
    (TcpModule_concluded ticket (tcp_run ops sample_tcp) \<longrightarrow> tc_rcv_nxt (conn (tcp_run ops sample_tcp) 0) = 5001 + of_nat n + 1)"
proof -
  let ?t = "\<lparr>tt_slot = 0, tt_stamp = 1\<rparr> :: TcpTicket"
  let ?ops = "[Op_handle sample_bytes sample_ip, Op_receive ?t 10]"
  have alive: "TcpModule_alive ?t m" if "keeps 0 sample_tcp m" for m
    using that by (simp add: keeps_def TcpModule_alive_def TcpModule_live_connection_def sample_conn(2))
  have "tcp_opened 5001 ?t sample_tcp"
    unfolding tcp_opened_def Let_def using alive[OF keeps_refl] by (simp add: sample_conn(2))
  moreover have "peer_run (\<lambda>_. 65) 5001 0 ?ops sample_tcp"
  proof -
    obtain v where "tcp_segment sample_bytes sample_ip = Some (tcp_view_of sample_peer 0x18 5001 v, [65], 1)" using sample_segment by blast
    then show ?thesis by (simp add: peer_conforms_def conforms_def tcp_view_of_def has_flag_def sample_conn(2) past_fin_def piece_def)
  qed
  moreover have "TcpModule_alive ?t (tcp_run ?ops sample_tcp)"
    using alive[OF keeps_trans[OF sample_handle receive_keeps[of ?t, simplified]]] by simp
  ultimately show ?thesis using tcp_stream_integrity[OF sample_conn(1), of 5001 ?t "\<lambda>_. 65" ?ops] by (simp add: Let_def)
qed

text \<open>
  C24. A connection's ticket dies for good. Once a ticket that was alive stops being alive, then after
  any further operations (fewer than wrap the 64-bit stamp) it is still dead, and every operation given
  it is refused and leaves the module as it is, so no later tenant of the seat can be reached by it.
\<close>

theorem tcp_ticket_dies:
  assumes "length (tm_connections m) = 8" "TcpModule_alive ticket m" "\<not> TcpModule_alive ticket (tcp_run ops m)"
    and "unat (tt_stamp ticket) + 2 * (length ops + length later) < 2 ^ 64"
  shows "let m' = tcp_run (ops @ later) m in \<not> TcpModule_alive ticket m' \<and> TcpModule_send ticket payload now m' = (Inl kNotFound, m') \<and>
    TcpModule_receive ticket capacity m' = (Inl kNotFound, m') \<and> TcpModule_close ticket m' = m' \<and> TcpModule_abandon ticket m' = m'"
proof -
  let ?k = "tt_slot ticket" and ?s = "tt_stamp ticket" and ?m1 = "tcp_run ops m" and ?m' = "tcp_run (ops @ later) m"
  have len1: "length (tm_connections ?m1) = 8" by (rule run_length[OF assms(1)])
  have live: "tcp_tickets.live ?k ?s m" "\<not> tcp_tickets.live ?k ?s ?m1"
    using assms(2,3) alive_live[OF assms(1)] alive_live[OF len1] by simp_all
  then have s: "tcp_tickets.spent ?k ?s ?m1" "?k < length (tcp_seats ?m1)" "unat (snd (tcp_seats ?m1 ! ?k)) \<le> unat ?s + 2 * length ops"
    using tcp_tickets.live_run[OF run_steps[OF assms(1)] live(1), of ops] live(2) assms(4) by simp_all
  have "tcp_tickets.spent ?k ?s ?m'"
    using tcp_tickets.spent_run[OF run_steps[OF len1] s(1,2), of later] s(3) assms(4) by simp
  then have "\<not> TcpModule_alive ticket ?m'"
    using tcp_tickets.spent_not_live alive_live[OF run_length[OF assms(1), of "ops @ later"]] by blast
  moreover from this have "TcpModule_live_connection ticket ?m' = None" by (simp add: TcpModule_alive_def)
  ultimately show ?thesis
    by (simp add: Let_def TcpModule_send_def TcpModule_receive_def TcpModule_close_def TcpModule_abandon_def)
qed

theorem tcp_ticket_dies_witness:
  "let ticket = \<lparr>tt_slot = 0, tt_stamp = 1\<rparr>;
       m' = tcp_run ([Op_abandon ticket] @ [Op_connect 40000 0x0A000202 80 TcpEvents_none 5]) sample_tcp in
   \<not> TcpModule_alive ticket m' \<and> TcpModule_send ticket [1] 6 m' = (Inl kNotFound, m') \<and>
   TcpModule_receive ticket 4 m' = (Inl kNotFound, m') \<and> TcpModule_close ticket m' = m' \<and> TcpModule_abandon ticket m' = m'"
proof -
  let ?t = "\<lparr>tt_slot = 0, tt_stamp = 1\<rparr> :: TcpTicket"
  have live: "TcpModule_live_connection ?t sample_tcp = Some 0"
    by (simp add: TcpModule_live_connection_def sample_conn(2))
  have "released 0 sample_tcp (TcpModule_abandon ?t sample_tcp)"
    by (cases rule: abandon_cases[OF sample_conn(1), of ?t]) (use live in simp_all)
  then have "\<not> TcpModule_alive ?t (tcp_run [Op_abandon ?t] sample_tcp)"
    by (simp add: released_def TcpModule_alive_def TcpModule_live_connection_def Connection_empty_def)
  moreover have "TcpModule_alive ?t sample_tcp" using live by (simp add: TcpModule_alive_def)
  ultimately show ?thesis
    using tcp_ticket_dies[OF sample_conn(1), of ?t "[Op_abandon ?t]" "[Op_connect 40000 0x0A000202 80 TcpEvents_none 5]" "[1]" 6 4]
    unfolding Let_def by simp
qed

end
