(* ===== verification/Tcp_Types.thy ===== *)
theory Tcp_Types
  imports Tcp_Trace
begin

text \<open>
  The shape of the module's tables and the bounds of its numbers, kept by every operation from the
  constructed module on: every array has its declared length, every queue is a sound ring, every index
  and counter stays inside its array, and the retransmission state stays inside its limits.
\<close>

unbundle bit_operations_syntax

section \<open>Well-formed connections and modules\<close>

definition seat_wf :: "ReorderSeat \<Rightarrow> bool" where
  "seat_wf seat \<longleftrightarrow> length (rs_data seat) = 1460 \<and> rs_bytes seat \<le> 1460"

definition ring_wf :: "u8 RingQueue \<Rightarrow> bool" where
  "ring_wf q \<longleftrightarrow> RingQueue_inv q \<and> RingQueue_limit q = 4096"

text \<open>Bytes and control positions in flight agree with the outbox.\<close>

definition flight_ok :: "TcpState \<Rightarrow> u32 \<Rightarrow> nat \<Rightarrow> bool" where
  "flight_ok st flight queued \<longleftrightarrow>
     (case st of
        TcpState_kClosed \<Rightarrow> flight = 0 \<and> queued = 0
      | TcpState_kSynSent \<Rightarrow> flight = 1 \<and> queued = 0
      | TcpState_kSynReceived \<Rightarrow> flight = 1 \<and> queued = 0
      | TcpState_kEstablished \<Rightarrow> flight = of_nat queued
      | TcpState_kCloseWait \<Rightarrow> flight = of_nat queued
      | TcpState_kFinWait2 \<Rightarrow> flight = 0 \<and> queued = 0
      | TcpState_kTimeWait \<Rightarrow> flight = 0 \<and> queued = 0
      | _ \<Rightarrow> flight = of_nat queued + 1 \<or> flight = 2 \<and> queued = 0)"

definition conn_wf :: "Connection \<Rightarrow> bool" where
  "conn_wf c \<longleftrightarrow> ring_wf (tc_inbox c) \<and> ring_wf (tc_outbox c) \<and>
     length (tc_reorder c) = 4 \<and> (\<forall>seat\<in>set (tc_reorder c). seat_wf seat) \<and>
     tc_retransmit_count c \<le> 5 \<and> tc_rto_ns c \<le> 64000000000 \<and> tc_duplicate_acks c < 3 \<and>
     flight_ok (tc_state c) (tc_snd_nxt c - tc_snd_una c) (RingQueue_count (tc_outbox c))"

lemma ring_wf_empty: "ring_wf (RingQueue_init 0 4097)" "RingQueue_count (RingQueue_init 0 4097) = 0"
  by (simp_all add: ring_wf_def RingQueue_init_inv rq.count_content)

lemma seat_wf_empty: "seat_wf ReorderSeat_empty"
  by (simp add: seat_wf_def ReorderSeat_empty_def)

lemma conn_wf_empty: "conn_wf (Connection_empty\<lparr>tc_used := u, tc_stamp := st\<rparr>)"
  using ring_wf_empty by (simp add: conn_wf_def Connection_empty_def seat_wf_empty flight_ok_def)

lemma conn_wf_released: "conn_wf (Connection_empty\<lparr>tc_stamp := st\<rparr>)"
  using conn_wf_empty[of st False] by (simp add: Connection_empty_def)

lemma ring_count_le: "ring_wf q \<Longrightarrow> RingQueue_count q \<le> 4096"
  using rq.content_bound[of q] rq.count_content[of q] by (simp add: ring_wf_def)

lemma push_bytes_wf: "ring_wf q \<Longrightarrow> ring_wf (push_bytes bs q)"
proof (induction bs arbitrary: q)
  case (Cons b bs)
  obtain ok q' where "RingQueue_push b q = (ok, q')" by fastforce
  then show ?case using Cons rq.push_keeps_old[of q b ok q'] by (simp add: ring_wf_def)
qed simp

lemma push_bytes_count:
  assumes "ring_wf q" "RingQueue_count q + length bs \<le> 4096"
  shows "ring_wf (push_bytes bs q)" "RingQueue_count (push_bytes bs q) = RingQueue_count q + length bs"
  using push_bytes_content[of q bs] assms rq.count_content[of q] rq.count_content[of "push_bytes bs q"]
  by (simp_all add: ring_wf_def)

lemma release_bytes_count:
  "ring_wf q \<Longrightarrow> ring_wf (release_bytes n q) \<and> RingQueue_count (release_bytes n q) = RingQueue_count q - n"
proof (induction n arbitrary: q)
  case (Suc n)
  then have inv: "RingQueue_inv q" by (simp add: ring_wf_def)
  show ?case
  proof (cases rule: rq.pop_cases[OF inv, of 0])
    case (1 x q')
    then show ?thesis using Suc.IH[of q'] Suc.prems rq.count_content[OF inv] rq.count_content[of q'] by (auto simp: ring_wf_def)
  next
    case 2
    then show ?thesis using Suc.prems rq.count_content[OF inv] by simp
  qed
qed simp

text \<open>The parts of a connection its well-formedness depends on.\<close>

definition wf_view :: "Connection \<Rightarrow> (u8 RingQueue \<times> u8 RingQueue \<times> ReorderSeat list) \<times> (u64 \<times> u64 \<times> u64) \<times> TcpState \<times> u32 \<times> u32" where
  "wf_view c = ((tc_inbox c, tc_outbox c, tc_reorder c), (tc_retransmit_count c, tc_rto_ns c, tc_duplicate_acks c),
     tc_state c, tc_snd_nxt c, tc_snd_una c)"

lemma conn_wf_view: "wf_view c' = wf_view c \<Longrightarrow> conn_wf c \<Longrightarrow> conn_wf c'"
  by (simp add: wf_view_def conn_wf_def)

lemma touch_wf: "touch k wf_view m m' \<Longrightarrow> conn_wf (conn m k) \<Longrightarrow> conn_wf (conn m' k)"
  using conn_wf_view[OF touchD(3)] .

lemma disarm_wf: "touch k wf_view m (TcpModule_disarm_rto_guard k m)"
  unfolding TcpModule_disarm_rto_guard_def
  by (auto intro: touch_trans[OF touch_timers touch_upd_conn] simp: wf_view_def)

lemma arm_wf: "touch k wf_view m (TcpModule_arm_rto_guard k m)"
  unfolding TcpModule_arm_rto_guard_def Let_def
  by (auto intro: touch_trans[OF touch_timers touch_upd_conn] touch_timers simp: wf_view_def
      split: prod.split sum.split)

lemma resend_wf: "touch k wf_view m (TcpModule_resend_oldest k m)"
proof -
  have 1: "touch k wf_view m (upd_conn k (\<lambda>c. c\<lparr>tc_in_retransmission := True\<rparr>) m)"
    by (rule touch_upd_conn) (simp add: wf_view_def)
  show ?thesis unfolding TcpModule_resend_oldest_def Let_def using 1 touch_trans[OF 1 touch_transmit] by auto
qed

lemma upd_wf:
  "k < length (tm_connections m) \<Longrightarrow> conn_wf (f (conn m k)) \<Longrightarrow> conn_wf (conn (upd_conn k f m) k)"
  by (simp add: conn_upd_conn)

section \<open>Numbers\<close>

lemma take_rtt_sample_wf: "conn_wf c \<Longrightarrow> conn_wf (TcpModule_take_rtt_sample now c)"
proof -
  assume wf: "conn_wf c"
  have rto: "TcpModule_current_rto_of c1 \<le> 64000000000" for c1
    unfolding TcpModule_current_rto_of_def Let_def by auto
  show ?thesis using wf rto
    by (auto simp: TcpModule_take_rtt_sample_def Let_def conn_wf_def)
qed

lemma after_ack_wf:
  assumes "k < length (tm_connections m)" "conn_wf (conn m k)"
  shows "conn_wf (conn (TcpModule_after_ack_movement k moved now m) k)"
proof -
  let ?m1 = "upd_conn k (\<lambda>c. c\<lparr>tc_in_retransmission := False, tc_retransmit_count := 0\<rparr>) m"
  let ?m2 = "upd_conn k (TcpModule_take_rtt_sample now) ?m1"
  have 1: "conn_wf (conn ?m1 k)" by (rule upd_wf) (use assms in \<open>simp_all add: conn_wf_def\<close>)
  have 2: "conn_wf (conn ?m2 k)" by (rule upd_wf) (use assms 1 take_rtt_sample_wf in simp_all)
  have 3: "conn_wf (conn (TcpModule_disarm_rto_guard k ?m2) k)" by (rule touch_wf[OF disarm_wf 2])
  have l: "length (tm_connections (TcpModule_disarm_rto_guard k ?m2)) = length (tm_connections m)"
    using touchD(1)[OF disarm_wf, of k ?m2] by simp
  have "conn_wf (conn (upd_conn k (\<lambda>c. c\<lparr>tc_oldest_sent_ns := 0\<rparr>) (TcpModule_disarm_rto_guard k ?m2)) k)"
    by (rule upd_wf) (use assms l 3 in \<open>simp_all add: conn_wf_def\<close>)
  then show ?thesis using 1 assms by (simp add: TcpModule_after_ack_movement_def Let_def)
qed

section \<open>Sequence numbers in flight\<close>

lemma sint_neg: "sint (x :: u32) < 0 \<longleftrightarrow> 2 ^ 31 \<le> unat x"
proof -
  have "sint x < 0 \<longleftrightarrow> bit (uint x) 31" by (simp add: sint_uint signed_take_bit_negative_iff)
  also have "\<dots> \<longleftrightarrow> bit (unat x) 31" by (simp add: bit_unsigned_iff)
  also have "\<dots> \<longleftrightarrow> odd (unat x div 2 ^ 31)" by (rule bit_iff_odd)
  also have "\<dots> \<longleftrightarrow> 2 ^ 31 \<le> unat x"
  proof (cases "2 ^ 31 \<le> unat x")
    case True
    have "unat x < 2 ^ 31 * 2" using unsigned_less[of x, where 'a = nat] by simp
    then have "unat x div 2 ^ 31 < 2" by (rule less_mult_imp_div_less[OF order.strict_trans2[OF _ eq_refl]]) simp
    moreover have "0 < unat x div 2 ^ 31" using True by (simp only: div_greater_zero_iff) simp
    ultimately have "unat x div 2 ^ 31 = 1" by linarith
    then show ?thesis using True by (simp only: odd_one simp_thms)
  next
    case False
    then have "unat x div 2 ^ 31 = 0" by (intro div_less) simp
    then show ?thesis using False by (simp only: even_zero simp_thms)
  qed
  finally show ?thesis .
qed
lemma seq_span:
  assumes "seq_before una a" "\<not> seq_before nxt a" "unat (nxt - una) \<le> 5000"
  shows "unat (a - una) \<le> unat (nxt - una)" "0 < unat (a - una)"
proof -
  define d f where "d = a - una" and "f = nxt - una"
  have e: "una - a = 0 - d" "nxt - a = f - d" by (simp_all add: d_def f_def)
  have 1: "2 ^ 31 \<le> unat (0 - d)" and 2: "\<not> 2 ^ 31 \<le> unat (f - d)" and 3: "unat f \<le> 5000"
    using assms unfolding seq_before_def sint_neg e f_def by blast+
  have dl: "unat d < 2 ^ 32" using unsigned_less[of d, where 'a = nat] by simp
  have nz: "d \<noteq> 0" using 1 by auto
  then have neg: "unat (0 - d) = 2 ^ 32 - unat d" by (subst unat_sub_if_size) (simp add: word_size unat_gt_0)
  have "unat d \<le> unat f"
  proof (rule ccontr)
    assume "\<not> unat d \<le> unat f"
    then have "unat (f - d) = 2 ^ 32 + unat f - unat d"
      by (subst unat_sub_if_size) (simp add: word_size)
    then show False using 1 2 3 dl unfolding neg by simp
  qed
  then show "unat (a - una) \<le> unat (nxt - una)" "0 < unat (a - una)" using nz by (simp_all add: d_def f_def unat_gt_0)
qed
lemma flight_small:
  "flight_ok st f n \<Longrightarrow> n \<le> 4096 \<Longrightarrow> unat f \<le> n + 2"
proof -
  assume ok: "flight_ok st f n" and n: "n \<le> 4096"
  have "unat (of_nat n :: u32) = n" "unat (of_nat n + 1 :: u32) = n + 1"
    using n by (simp_all add: unat_of_nat unat_word_ariths take_bit_eq_mod)
  then show ?thesis using ok n by (cases st) (auto simp: flight_ok_def)
qed

text \<open>An acknowledgement inside the flight releases what it covers.\<close>

lemma flight_slides:
  assumes ok: "flight_ok st f n" and n: "n \<le> 4096" and d: "0 < unat d" "unat d \<le> unat f"
    and st: "st \<noteq> TcpState_kSynSent" "st \<noteq> TcpState_kSynReceived"
  shows "flight_ok st (f - d) (n - unat d) \<or>
    (st = TcpState_kFinWait1 \<or> st = TcpState_kClosing \<or> st = TcpState_kLastAck) \<and> f - d = 0 \<and> n - unat d = 0"
proof -
  have un: "unat (of_nat n :: u32) = n" "unat (of_nat n + 1 :: u32) = n + 1"
    using n by (simp_all add: unat_of_nat unat_word_ariths take_bit_eq_mod)
  have dn: "of_nat (unat d) = d" by simp
  have cut: "of_nat n - d = of_nat (n - unat d)" if "unat d \<le> n" using that dn by (simp add: of_nat_diff)
  consider (data) "st = TcpState_kEstablished \<or> st = TcpState_kCloseWait" "f = of_nat n"
    | (fin) "st = TcpState_kFinWait1 \<or> st = TcpState_kClosing \<or> st = TcpState_kLastAck" "f = of_nat n + 1"
    | (two) "st = TcpState_kFinWait1 \<or> st = TcpState_kClosing \<or> st = TcpState_kLastAck" "f = 2" "n = 0"
    using ok d st by (cases st) (auto simp: flight_ok_def)
  then show ?thesis
  proof cases
    case data
    then show ?thesis using cut d un by (auto simp: flight_ok_def)
  next
    case fin
    show ?thesis
    proof (cases "unat d \<le> n")
      case True
      have "f - d = of_nat (n - unat d) + 1" using cut[OF True] fin(2) by (simp add: algebra_simps)
      then show ?thesis using fin(1) by (auto simp: flight_ok_def)
    next
      case False
      then have "unat d = n + 1" using d fin(2) un by simp
      then have "d = f" using un fin(2) by (simp add: word_unat_eq_iff)
      then show ?thesis using fin(1) False by auto
    qed
  next
    case two
    then have "unat d = 1 \<or> unat d = 2" using d by auto
    then have "d = 1 \<or> d = 2" by (auto simp: word_unat_eq_iff)
    then show ?thesis using two by (auto simp: flight_ok_def)
  qed
qed

section \<open>Operations on one connection\<close>

abbreviation (input) synced_state :: "TcpState \<Rightarrow> bool" where
  "synced_state st \<equiv> st \<noteq> TcpState_kSynSent \<and> st \<noteq> TcpState_kSynReceived"

text \<open>All of well-formedness but the flight, for the moment between sliding and the change of state.\<close>

definition conn_wf' :: "Connection \<Rightarrow> bool" where
  "conn_wf' c \<longleftrightarrow> conn_wf (c\<lparr>tc_state := TcpState_kEstablished, tc_snd_nxt := tc_snd_una c + of_nat (RingQueue_count (tc_outbox c))\<rparr>)"

lemma conn_wf_alt: "conn_wf c \<longleftrightarrow> conn_wf' c \<and> flight_ok (tc_state c) (tc_snd_nxt c - tc_snd_una c) (RingQueue_count (tc_outbox c))"
  by (auto simp: conn_wf_def conn_wf'_def flight_ok_def)

lemma slide_cases:
  assumes k: "k < length (tm_connections m)" and c1: "c1 = conn (tcp_slide k view n m) k"
  obtains (slid) a where "seq_before (tc_snd_una (conn m k)) a" "has_flag 0x10 view" "a = tv_acknowledgement view"
      "c1 = (conn m k)\<lparr>tc_snd_una := a, tc_outbox := release_bytes (unat (a - tc_snd_una (conn m k))) (tc_outbox (conn m k)),
               tc_duplicate_acks := 0\<rparr>"
  | (still) d where "wf_view c1 = wf_view ((conn m k)\<lparr>tc_duplicate_acks := d\<rparr>)" "d < 3 \<or> d = tc_duplicate_acks (conn m k)"
proof -
  let ?c = "conn m k"
  let ?dup = "has_flag 0x10 view \<and> tv_acknowledgement view = tc_snd_una ?c \<and> n = 0 \<and> tc_snd_una ?c \<noteq> tc_snd_nxt ?c"
  let ?m' = "upd_conn k (\<lambda>c. c\<lparr>tc_duplicate_acks := tc_duplicate_acks c + 1\<rparr>) m"
  let ?m2 = "upd_stats (\<lambda>s. s\<lparr>st_fast_retransmits := st_fast_retransmits s + 1\<rparr>) (upd_conn k (\<lambda>c. c\<lparr>tc_duplicate_acks := 0\<rparr>) ?m')"
  note eq = c1[unfolded tcp_slide_def Let_def]
  consider (slid) "has_flag 0x10 view \<and> seq_before (tc_snd_una ?c) (tv_acknowledgement view)"
    | (third) "\<not> (has_flag 0x10 view \<and> seq_before (tc_snd_una ?c) (tv_acknowledgement view))" "?dup" "3 \<le> tc_duplicate_acks (conn ?m' k)"
    | (early) "\<not> (has_flag 0x10 view \<and> seq_before (tc_snd_una ?c) (tv_acknowledgement view))" "?dup" "\<not> 3 \<le> tc_duplicate_acks (conn ?m' k)"
    | (none) "\<not> (has_flag 0x10 view \<and> seq_before (tc_snd_una ?c) (tv_acknowledgement view))" "\<not> ?dup" by blast
  then show thesis
  proof cases
    case slid
    then show thesis using that(1)[of "tv_acknowledgement view"] eq k by (simp add: conn_upd_conn)
  next
    case third
    have "wf_view (conn (TcpModule_resend_oldest k ?m2) k) = wf_view (conn ?m2 k)" by (rule touchD(3)[OF resend_wf])
    also have "\<dots> = wf_view (?c\<lparr>tc_duplicate_acks := 0\<rparr>)" using k by (simp add: conn_upd_conn)
    finally show thesis by (intro that(2)[of 0]) (use eq third in simp_all)
  next
    case early
    have "c1 = conn ?m' k" using eq[unfolded if_not_P[OF early(1)] if_P[OF early(2)] if_not_P[OF early(3)]] .
    then show thesis by (intro that(2)[of "tc_duplicate_acks ?c + 1"]) (use early k in \<open>simp_all add: conn_upd_conn not_le\<close>)
  next
    case none
    then have "c1 = ?c" using eq by (simp only: if_False)
    then show thesis using that(2)[of "tc_duplicate_acks ?c"] by simp
  qed
qed

lemma slide_wf:
  assumes k: "k < length (tm_connections m)" and wf: "conn_wf (conn m k)" and st: "synced_state (tc_state (conn m k))"
    and inside: "\<not> (has_flag 0x10 view \<and> seq_before (tc_snd_una (conn m k)) (tv_acknowledgement view) \<and>
         seq_before (tc_snd_nxt (conn m k)) (tv_acknowledgement view))"
    and c1: "c1 = conn (tcp_slide k view n m) k"
  shows "conn_wf' c1 \<and> (flight_ok (tc_state c1) (tc_snd_nxt c1 - tc_snd_una c1) (RingQueue_count (tc_outbox c1)) \<or>
     (tc_state c1 = TcpState_kFinWait1 \<or> tc_state c1 = TcpState_kClosing \<or> tc_state c1 = TcpState_kLastAck) \<and>
       tc_snd_nxt c1 = tc_snd_una c1 \<and> RingQueue_count (tc_outbox c1) = 0)"
  using k c1
proof (cases rule: slide_cases)
  case (slid a)
  let ?c = "conn m k" and ?d = "a - tc_snd_una (conn m k)"
  have fl: "flight_ok (tc_state ?c) (tc_snd_nxt ?c - tc_snd_una ?c) (RingQueue_count (tc_outbox ?c))" and ring: "ring_wf (tc_outbox ?c)"
    using wf by (simp_all add: conn_wf_def)
  have "unat (tc_snd_nxt ?c - tc_snd_una ?c) \<le> 5000" using flight_small[OF fl ring_count_le[OF ring]] ring_count_le[OF ring] by simp
  note span = seq_span[OF slid(1) _ this]
  have d: "0 < unat ?d" "unat ?d \<le> unat (tc_snd_nxt ?c - tc_snd_una ?c)" using span inside slid(1-3) by blast+
  have rel: "ring_wf (tc_outbox c1)" "RingQueue_count (tc_outbox c1) = RingQueue_count (tc_outbox ?c) - unat ?d"
    using release_bytes_count[OF ring, of "unat ?d"] by (simp_all add: slid(4))
  have "conn_wf' c1" using wf rel(1) by (simp add: conn_wf'_def conn_wf_def flight_ok_def slid(4))
  moreover have "tc_snd_nxt c1 - tc_snd_una c1 = tc_snd_nxt ?c - tc_snd_una ?c - ?d" by (simp add: slid(4))
  ultimately show ?thesis using flight_slides[OF fl ring_count_le[OF ring] d] st rel(2) slid(4)
    by (auto simp: slid(4))
next
  case (still d)
  have "conn_wf ((conn m k)\<lparr>tc_duplicate_acks := d\<rparr>)" using wf still(2) by (auto simp: conn_wf_def)
  then have "conn_wf c1" by (rule conn_wf_view[OF still(1)])
  then show ?thesis by (simp add: conn_wf_alt)
qed

lemma begin_time_wait_wf:
  assumes k: "k < length (tm_connections m)" and wf: "conn_wf' (conn m k)"
    and "tc_snd_nxt (conn m k) = tc_snd_una (conn m k)" "RingQueue_count (tc_outbox (conn m k)) = 0"
  shows "conn_wf (conn (TcpModule_begin_time_wait k m) k)" "tc_state (conn (TcpModule_begin_time_wait k m) k) = TcpState_kTimeWait"
proof -
  let ?m = "TcpModule_disarm_rto_guard k (upd_conn k (\<lambda>c. c\<lparr>tc_state := TcpState_kTimeWait\<rparr>) m)"
  have "touch k wf_view ?m (upd_conn k (\<lambda>c. c\<lparr>tc_time_wait_seat := seat, tc_time_wait_armed := True\<rparr>) (?m\<lparr>tm_timers := t\<rparr>))" for seat t
    by (rule touch_trans[OF touch_timers touch_upd_conn]) (simp add: wf_view_def)
  then have "touch k wf_view ?m (TcpModule_begin_time_wait k m)" unfolding TcpModule_begin_time_wait_def Let_def
    using touch_refl touch_timers by (auto split: prod.split sum.split)
  then have "touch k wf_view (upd_conn k (\<lambda>c. c\<lparr>tc_state := TcpState_kTimeWait\<rparr>) m) (TcpModule_begin_time_wait k m)"
    by (rule touch_trans[OF disarm_wf])
  then have v: "wf_view (conn (TcpModule_begin_time_wait k m) k) = wf_view ((conn m k)\<lparr>tc_state := TcpState_kTimeWait\<rparr>)"
    using touchD(3)[of k wf_view] k by (simp add: conn_upd_conn)
  have "conn_wf ((conn m k)\<lparr>tc_state := TcpState_kTimeWait\<rparr>)"
    using wf assms(3,4) by (simp add: conn_wf_def conn_wf'_def flight_ok_def)
  then show "conn_wf (conn (TcpModule_begin_time_wait k m) k)" by (rule conn_wf_view[OF v])
  show "tc_state (conn (TcpModule_begin_time_wait k m) k) = TcpState_kTimeWait" using v by (simp add: wf_view_def)
qed

lemma released_wf: "released k m m' \<Longrightarrow> conn_wf (conn m' k) \<and> synced_state (tc_state (conn m' k))"
  using conn_wf_released by (simp add: released_def Connection_empty_def)

lemma window_wf: "touch k wf_view m (upd_conn k (\<lambda>c. c\<lparr>tc_snd_window := w\<rparr>) m)"
  by (rule touch_upd_conn) (simp add: wf_view_def)

lemma flight_fin_pending:
  assumes "n \<le> 4096" "st = TcpState_kFinWait1 \<or> st = TcpState_kClosing" shows "\<not> flight_ok st 0 n"
proof -
  have "unat (of_nat n + 1 :: u32) = n + 1" using assms(1) by (simp add: unat_of_nat unat_word_ariths take_bit_eq_mod)
  then have "of_nat n + 1 \<noteq> (0 :: u32)" by (simp add: word_unat_eq_iff)
  then show ?thesis using assms(2) by (auto simp: flight_ok_def)
qed

lemma absorb_ack_wf:
  assumes k: "k < length (tm_connections m)" and wf: "conn_wf (conn m k)" and st: "synced_state (tc_state (conn m k))"
    and run: "TcpModule_absorb_ack k view n fire m = (stop, fire', m')"
  shows "conn_wf (conn m' k) \<and> synced_state (tc_state (conn m' k))"
  using run
proof (cases rule: absorb_ack_cases)
  case (1 m0)
  have "touch k wf_view m m0" unfolding 1(1) by (simp add: touch_refl window_wf)
  then have t: "touch k wf_view m m'" unfolding 1(3) by (rule touch_trans[OF _ touch_upd_stats])
  then show ?thesis using touch_wf[OF t wf] touchD(3)[OF t] st by (simp add: wf_view_def)
next
  case (2 m0 m1)
  have t: "touch k wf_view m m0" unfolding 2(1) by (simp add: touch_refl window_wf)
  have k0: "k < length (tm_connections m0)" and v: "tc_state (conn m0 k) = tc_state (conn m k)"
    using touchD(1,3)[OF t] k by (simp_all add: wf_view_def)
  have st0: "synced_state (tc_state (conn m0 k))" using st v by simp
  note s = slide_wf[OF k0 touch_wf[OF t wf] st0 2(3) refl, of n, folded 2(2)]
  note s = conjunct1[OF s] conjunct2[OF s]
  have k1: "k < length (tm_connections m1)" "tc_state (conn m1 k) = tc_state (conn m0 k)"
    using touchD(1)[OF slide_touch] st_viewD(1)[OF touchD(3)[OF slide_touch]] k0 by (simp_all add: 2(2))
  have settled: "RingQueue_count (tc_outbox (conn m1 k)) = 0"
    if "tc_snd_una (conn m1 k) = tc_snd_nxt (conn m1 k)" "tc_state (conn m1 k) = TcpState_kFinWait1 \<or> tc_state (conn m1 k) = TcpState_kClosing"
  proof -
    have "RingQueue_count (tc_outbox (conn m1 k)) \<le> 4096" using s(1) by (intro ring_count_le) (simp add: conn_wf'_def conn_wf_def)
    then show ?thesis using s(2) flight_fin_pending[OF _ that(2)] that(1) by simp
  qed
  from 2(4) show ?thesis
  proof (elim disjE conjE)
    assume "tc_snd_una (conn m1 k) = tc_snd_nxt (conn m1 k)" "tc_state (conn m1 k) = TcpState_kClosing" "m' = TcpModule_begin_time_wait k m1"
    then show ?thesis using begin_time_wait_wf[OF k1(1) s(1)] settled by simp
  next
    assume "m' = snd (TcpModule_release_connection k fire TcpFarewell_kGraceful m1)"
    then show ?thesis using released_wf[OF release_released[OF k1(1)]] by simp
  next
    assume f: "tc_snd_una (conn m1 k) = tc_snd_nxt (conn m1 k)" "tc_state (conn m1 k) = TcpState_kFinWait1" "m' = upd_conn k (\<lambda>c. c\<lparr>tc_state := TcpState_kFinWait2\<rparr>) m1"
    then show ?thesis using k1(1) settled s(1) by (simp add: conn_upd_conn conn_wf_def conn_wf'_def flight_ok_def)
  next
    assume f: "\<not> (tc_snd_una (conn m1 k) = tc_snd_nxt (conn m1 k) \<and>
         (tc_state (conn m1 k) = TcpState_kClosing \<or> tc_state (conn m1 k) = TcpState_kLastAck \<or> tc_state (conn m1 k) = TcpState_kFinWait1))" "m' = m1"
    then show ?thesis using s k1(2) st0 by (auto simp: conn_wf_alt)
  qed
qed

lemma seats_wf_update: "(\<forall>seat\<in>set seats. seat_wf seat) \<Longrightarrow> seat_wf s \<Longrightarrow> \<forall>seat\<in>set (seats[i := s]). seat_wf seat"
  using set_update_subset_insert[of seats i s] by blast

lemma harvest_seat_wf:
  assumes wf: "conn_wf c" and step: "harvest_seat i (c, s, d) = (c', s', d')"
  shows "conn_wf c' \<and> tc_state c' = tc_state c"
proof -
  let ?seat = "tc_reorder c ! i"
  let ?c = "c\<lparr>tc_inbox := push_bytes (take (rs_bytes ?seat) (rs_data ?seat)) (tc_inbox c),
             tc_rcv_nxt := tc_rcv_nxt c + of_nat (rs_bytes ?seat), tc_reorder := (tc_reorder c)[i := ReorderSeat_empty]\<rparr>"
  have seats: "\<forall>seat\<in>set ((tc_reorder c)[i := ReorderSeat_empty]). seat_wf seat"
    by (rule seats_wf_update[OF _ seat_wf_empty]) (use wf in \<open>simp add: conn_wf_def\<close>)
  have "ring_wf (push_bytes bs (tc_inbox c))" for bs using push_bytes_wf wf by (simp add: conn_wf_def)
  then have "conn_wf ?c" using wf seats by (simp add: conn_wf_def)
  moreover have "c' = c \<or> c' = ?c" using step by (auto simp: harvest_seat_def Let_def split: if_splits)
  ultimately show ?thesis using wf by auto
qed

lemma harvest_fold_wf:
  "conn_wf c \<Longrightarrow> fold harvest_seat is (c, s, d) = (c', s', d') \<Longrightarrow> conn_wf c' \<and> tc_state c' = tc_state c"
proof (induction "is" arbitrary: c s d)
  case (Cons i "is")
  obtain c1 s1 d1 where one: "harvest_seat i (c, s, d) = (c1, s1, d1)" by (metis prod_cases3)
  then show ?case using Cons.IH[of c1 s1 d1] Cons.prems harvest_seat_wf[OF Cons.prems(1) one] by simp
qed simp

lemma harvest_loop_wf:
  "conn_wf c \<Longrightarrow> harvest_loop (c, s, d) = (c', s', d') \<Longrightarrow> conn_wf c' \<and> tc_state c' = tc_state c"
proof (induction "(c, s, d)" arbitrary: c s d rule: harvest_loop.induct)
  case (1 c s data)
  have len: "length (tc_reorder c) = 4" using 1(2) by (simp add: conn_wf_def)
  obtain c1 s1 d1 where pass: "harvest_pass (c, s) = (c1, s1, d1)" by (metis prod_cases3)
  then have g: "conn_wf c1" "tc_state c1 = tc_state c"
    using harvest_fold_wf[OF 1(2), of "[0..<4]" s False] by (simp_all add: harvest_pass_def)
  show ?case
  proof (cases d1)
    case True
    then show ?thesis using 1 len pass g by (simp add: harvest_loop.simps[of c])
  next
    case False
    then show ?thesis using 1(3) len pass g by (simp add: harvest_loop.simps[of c])
  qed
qed

lemma harvest_wf:
  assumes "k < length (tm_connections m)" "conn_wf (conn m k)"
  shows "conn_wf (conn (snd (TcpModule_harvest_reorder k fire m)) k)"
proof -
  obtain c' s' d' where loop: "harvest_loop (conn m k, tm_stats m, pf_data fire) = (c', s', d')" by (metis prod_cases3)
  then show ?thesis using assms harvest_loop_wf[OF assms(2) loop]
    by (simp add: TcpModule_harvest_reorder_def conn_upd_conn)
qed

lemma store_wf:
  assumes k: "k < length (tm_connections m)" and wf: "conn_wf (conn m k)"
  shows "conn_wf (conn (TcpModule_store_out_of_order k view payload m) k)"
proof -
  let ?c = "conn m k"
  let ?seat = "\<lambda>i. \<lparr>rs_used = True, rs_start = tv_sequence view, rs_bytes = length payload,
                  rs_data = copy_into (rs_data (tc_reorder ?c ! i)) 0 payload\<rparr>"
  have seats: "length (tc_reorder ?c) = 4" "\<forall>seat\<in>set (tc_reorder ?c). seat_wf seat" using wf by (simp_all add: conn_wf_def)
  have stored: "conn_wf (?c\<lparr>tc_reorder := (tc_reorder ?c)[i := ?seat i]\<rparr>)" if "i < 4" "length payload \<le> 1460" for i
  proof -
    have "seat_wf (?seat i)" using seats that by (simp add: seat_wf_def copy_into_length)
    then show ?thesis using wf seats_wf_update[OF seats(2)] by (simp add: conn_wf_def)
  qed
  consider (drop) "TcpModule_store_out_of_order k view payload m = tcp_drop_reorder m"
    | (store) i where "i < 4" "length payload \<le> 1460" "conn (TcpModule_store_out_of_order k view payload m) k = ?c\<lparr>tc_reorder := (tc_reorder ?c)[i := ?seat i]\<rparr>"
  proof (cases "has_flag kTcpFlagFin view \<or> length payload = 0 \<or> length payload > 1460 \<or>
      \<not> seq_before (tv_sequence view) (tc_rcv_nxt ?c + of_nat 4096) \<or>
      (\<exists>seat\<in>set (tc_reorder ?c). rs_used seat \<and> seq_before (tv_sequence view) (rs_start seat + of_nat (rs_bytes seat)) \<and>
         seq_before (rs_start seat) (tv_sequence view + of_nat (length payload))) \<or>
      find (\<lambda>i. \<not> rs_used (tc_reorder ?c ! i)) [0..<4] = None")
    case True
    then have "TcpModule_store_out_of_order k view payload m = tcp_drop_reorder m"
      unfolding TcpModule_store_out_of_order_def Let_def by (elim disjE) simp_all
    then show thesis by (rule drop)
  next
    case False
    then obtain i where i: "find (\<lambda>i. \<not> rs_used (tc_reorder ?c ! i)) [0..<4] = Some i" by blast
    have n: "\<not> (has_flag kTcpFlagFin view \<or> length payload = 0 \<or> length payload > 1460)"
        "\<not> \<not> seq_before (tv_sequence view) (tc_rcv_nxt ?c + of_nat 4096)"
        "\<not> (\<exists>seat\<in>set (tc_reorder ?c). rs_used seat \<and> seq_before (tv_sequence view) (rs_start seat + of_nat (rs_bytes seat)) \<and>
         seq_before (rs_start seat) (tv_sequence view + of_nat (length payload)))"
      using False by blast+
    have "i < 4" "length payload \<le> 1460" using i n(1) unfolding find_upt_Some_iff by simp_all
    moreover have "conn (TcpModule_store_out_of_order k view payload m) k = ?c\<lparr>tc_reorder := (tc_reorder ?c)[i := ?seat i]\<rparr>"
      unfolding TcpModule_store_out_of_order_def Let_def if_not_P[OF n(1)] if_not_P[OF n(2)] if_not_P[OF n(3)] i option.case
      using k by (simp add: conn_upd_conn)
    ultimately show thesis by (rule store)
  qed
  then show ?thesis
  proof cases
    case drop
    then show ?thesis using wf by (simp add: tcp_drop_reorder_def)
  next
    case (store i)
    then show ?thesis using stored[of i] by simp
  qed
qed

lemma absorb_bytes_wf:
  assumes k: "k < length (tm_connections m)" and wf: "conn_wf (conn m k)" and st: "tc_state (conn m k) \<noteq> TcpState_kSynReceived"
  shows "conn_wf (conn (snd (TcpModule_absorb_bytes k view payload segment_length fire m)) k)"
proof -
  define c where "c = conn m k"
  define skip :: u64 where "skip = ucast (tc_rcv_nxt c - tv_sequence view) - (if has_flag kTcpFlagSyn view then 1 else 0)"
  define taken where "taken = (if unat skip < length payload
      then min (length payload - unat skip) (4096 - RingQueue_count (tc_inbox c)) else 0)"
  define m1 where "m1 = (if unat skip < length payload
      then upd_stats (\<lambda>s. s\<lparr>st_bytes_delivered := st_bytes_delivered s + of_nat taken\<rparr>)
             (upd_conn k (\<lambda>c. c\<lparr>tc_inbox := push_bytes (take taken (drop (unat skip) payload)) (tc_inbox c),
                                tc_rcv_nxt := tc_rcv_nxt c + of_nat taken\<rparr>) m) else m)"
  define kEnd where "kEnd = tv_sequence view + of_nat segment_length"
  define fin where "fin = (has_flag kTcpFlagFin view \<and> tc_rcv_nxt (conn m1 k) + 1 = kEnd)"
  let ?m' = "upd_conn k (\<lambda>c. c\<lparr>tc_rcv_nxt := kEnd\<rparr>) m1"
  define m2 where "m2 = (if fin then case tc_state (conn ?m' k) of
                    TcpState_kEstablished \<Rightarrow> upd_conn k (\<lambda>c. c\<lparr>tc_state := TcpState_kCloseWait\<rparr>) ?m'
                  | TcpState_kSynReceived \<Rightarrow> upd_conn k (\<lambda>c. c\<lparr>tc_state := TcpState_kCloseWait\<rparr>) ?m'
                  | TcpState_kFinWait1 \<Rightarrow> upd_conn k (\<lambda>c. c\<lparr>tc_state := TcpState_kClosing\<rparr>) ?m'
                  | TcpState_kFinWait2 \<Rightarrow>
                      TcpModule_begin_time_wait k (upd_conn k (\<lambda>c. c\<lparr>tc_state := TcpState_kTimeWait\<rparr>) ?m')
                  | _ \<Rightarrow> ?m' else m1)"
  have k1: "k < length (tm_connections m1)" "tc_state (conn m1 k) = tc_state (conn m k)"
    using k by (simp_all add: m1_def conn_upd_conn)
  have "ring_wf (push_bytes bs (tc_inbox (conn m k)))" for bs using push_bytes_wf wf by (simp add: conn_wf_def)
  then have wf1: "conn_wf (conn m1 k)" using wf k by (simp add: m1_def conn_upd_conn conn_wf_def)
  then have wf': "conn_wf (conn ?m' k)" using k1 by (simp add: conn_upd_conn conn_wf_def)
  have st': "tc_state (conn ?m' k) = tc_state (conn m k)" using k1 by (simp add: conn_upd_conn)
  have "conn_wf (conn m2 k)"
  proof (cases fin)
    case True
    show ?thesis
    proof (cases "tc_state (conn m k)")
      case TcpState_kEstablished
      then show ?thesis using True st' wf' k1 by (simp add: m2_def conn_upd_conn conn_wf_def flight_ok_def)
    next
      case TcpState_kFinWait1
      then show ?thesis using True st' wf' k1 by (simp add: m2_def conn_upd_conn conn_wf_def flight_ok_def)
    next
      case TcpState_kFinWait2
      let ?m3 = "upd_conn k (\<lambda>c. c\<lparr>tc_state := TcpState_kTimeWait\<rparr>) ?m'"
      have "conn_wf (conn (TcpModule_begin_time_wait k ?m3) k)"
        by (rule begin_time_wait_wf)
          (use TcpState_kFinWait2 st' wf' k1 in \<open>simp_all add: conn_upd_conn conn_wf_def conn_wf'_def flight_ok_def\<close>)
      then show ?thesis using TcpState_kFinWait2 True st' by (simp add: m2_def)
    qed (use True st' wf' st in \<open>simp_all add: m2_def\<close>)
  qed (simp add: m2_def wf1)
  moreover have "snd (TcpModule_absorb_bytes k view payload segment_length fire m) =
      (if taken \<noteq> 0 \<or> fin then TcpModule_transmit_segment (conn m2 k) kTcpFlagAck [] (tc_snd_nxt (conn m2 k)) m2 else m2)"
    unfolding TcpModule_absorb_bytes_def Let_def snd_conv
    unfolding c_def[symmetric] skip_def[symmetric] taken_def[symmetric] m1_def[symmetric] kEnd_def[symmetric]
      fin_def[symmetric] m2_def[symmetric] ..
  ultimately show ?thesis by simp
qed

lemma absorb_tail_wf:
  assumes k: "k < length (tm_connections m)" and wf: "conn_wf (conn m k)" and st: "synced_state (tc_state (conn m k))"
  shows "conn_wf (conn (snd (tcp_absorb_tail k view payload n fire m)) k)"
proof -
  obtain stop fire1 m1 where run: "TcpModule_absorb_ack k view n fire m = (stop, fire1, m1)" by (metis prod_cases3)
  have 1: "conn_wf (conn m1 k)" "tc_state (conn m1 k) \<noteq> TcpState_kSynReceived" using absorb_ack_wf[OF k wf st run] by simp_all
  have k1: "k < length (tm_connections m1)" using absorb_ack_alters[OF alters_refl, of k m view n fire] run k by (simp add: alters_def)
  let ?m2 = "TcpModule_store_out_of_order k view payload m1"
  obtain fire2 m3 where b: "TcpModule_absorb_bytes k view payload n fire1 m1 = (fire2, m3)" by fastforce
  have 2: "conn_wf (conn (snd (TcpModule_harvest_reorder k fire1 ?m2)) k)"
    by (rule harvest_wf[OF _ store_wf[OF k1 1(1)]]) (use store_alters[OF alters_refl, of k m1 view payload] k1 in \<open>simp add: alters_def\<close>)
  have "k < length (tm_connections m3)" using absorb_bytes_alters[OF alters_refl, of k m1 view payload n fire1] b k1 by (simp add: alters_def)
  then have 3: "conn_wf (conn (snd (TcpModule_harvest_reorder k fire2 m3)) k)"
    using harvest_wf absorb_bytes_wf[OF k1 1, of view payload n fire1] b by simp
  show ?thesis using 1 2 3 by (cases stop) (simp_all add: tcp_absorb_tail_def run Let_def b case_prod_beta)
qed

lemma absorb_segment_wf:
  assumes k: "k < length (tm_connections m)" and wf: "conn_wf (conn m k)"
  shows "conn_wf (conn (snd (TcpModule_absorb_segment k view payload n fire m)) k)"
proof (cases "has_flag kTcpFlagRst view")
  case True
  let ?m = "upd_stats (\<lambda>s. s\<lparr>st_resets_received := st_resets_received s + 1\<rparr>) m"
  have "released k ?m (snd (TcpModule_absorb_segment k view payload n fire m))"
    using True release_released[of k ?m] k by (simp add: TcpModule_absorb_segment_def Let_def)
  then show ?thesis using released_wf by blast
next
  case False
  note eq = TcpModule_absorb_segment_def[of k view payload n fire m, unfolded Let_def if_not_P[OF False]]
  show ?thesis
  proof (cases "tc_state (conn m k)")
    case TcpState_kSynSent
    then have "tc_snd_nxt (conn m k) - tc_snd_una (conn m k) = 1" "RingQueue_count (tc_outbox (conn m k)) = 0"
      using wf by (simp_all add: conn_wf_def flight_ok_def)
    then show ?thesis using eq TcpState_kSynSent wf k
      by (auto simp: conn_upd_conn conn_wf_def flight_ok_def)
  next
    case TcpState_kSynReceived
    show ?thesis
    proof (cases "has_flag kTcpFlagAck view \<and> tv_acknowledgement view = tc_snd_nxt (conn m k)")
      case True
      let ?m1 = "upd_stats (\<lambda>s. s\<lparr>st_accepted := st_accepted s + 1\<rparr>)
                   (upd_conn k (\<lambda>c. c\<lparr>tc_snd_una := tv_acknowledgement view, tc_state := TcpState_kEstablished\<rparr>) m)"
      obtain f where m': "snd (TcpModule_absorb_segment k view payload n fire m) = snd (tcp_absorb_tail k view payload n f (tcp_queue_accepted k ?m1))"
        using eq TcpState_kSynReceived True by simp
      show ?thesis unfolding m'
        by (rule absorb_tail_wf) (use k wf True TcpState_kSynReceived in \<open>simp_all add: conn_upd_conn conn_wf_def flight_ok_def\<close>)
    next
      case False
      then show ?thesis using eq TcpState_kSynReceived wf by auto
    qed
  qed (use eq wf absorb_tail_wf[OF k wf] in simp_all)
qed

end
