(* ===== verification/Tcp_Bounds.thy ===== *)
theory Tcp_Bounds
  imports Tcp_Types
begin

text \<open>
  The tables beside the connections (listeners, timers, pending farewells), the well-formed module as
  a whole, and the theorem that every run of the module from its construction stays well-formed and
  inside its bounds.
\<close>

unbundle bit_operations_syntax

section \<open>Tables\<close>

named_theorems tcp_tables

definition listen_wf :: "ListenSeat \<Rightarrow> bool" where
  "listen_wf seat \<longleftrightarrow> length (ls_accepted seat) = 2 \<and> ls_accepted_count seat \<le> 2"

definition ports_distinct :: "ListenSeat list \<Rightarrow> bool" where
  "ports_distinct seats \<longleftrightarrow> (\<forall>i<length seats. \<forall>j<length seats.
     ls_used (seats ! i) \<longrightarrow> ls_used (seats ! j) \<longrightarrow> ls_port (seats ! i) = ls_port (seats ! j) \<longrightarrow> i = j)"

definition tables_wf :: "TcpModule \<Rightarrow> bool" where
  "tables_wf m \<longleftrightarrow> length (tm_listens m) = 4 \<and> (\<forall>seat\<in>set (tm_listens m). listen_wf seat) \<and> ports_distinct (tm_listens m) \<and>
     length (tm_timers m) = 16 \<and> length (tm_service_fires m) = 8 \<and> tm_service_fire_count m \<le> 8"

lemma arm_length: "length (snd (TimerTable_arm ctx call deadline t)) = length t"
  by (simp add: TimerTable_arm_def Let_def split: option.split)

lemma cancel_length: "length (snd (TimerTable_cancel ticket t)) = length t"
  by (simp add: TimerTable_cancel_def Let_def)

lemma tables_fields [tcp_tables]:
  "tables_wf m \<Longrightarrow> tables_wf (upd_conn k f m)" "tables_wf m \<Longrightarrow> tables_wf (upd_stats g m)"
  "tables_wf m \<Longrightarrow> tables_wf (m\<lparr>tm_stats := s\<rparr>)" "tables_wf m \<Longrightarrow> tables_wf (m\<lparr>tm_isn_cursor := i\<rparr>)"
  "tables_wf m \<Longrightarrow> tables_wf (m\<lparr>tm_ephemeral_cursor := e\<rparr>)" "tables_wf m \<Longrightarrow> tables_wf (m\<lparr>tm_service_now_ns := n\<rparr>)"
  "tables_wf m \<Longrightarrow> length t = 16 \<Longrightarrow> tables_wf (m\<lparr>tm_timers := t\<rparr>)"
  "tables_wf m \<Longrightarrow> tables_wf (TcpModule_transmit_segment c flags payload sequence m)"
  "tables_wf m \<Longrightarrow> tables_wf (TcpModule_transmit_rst a p l sq an w m)"
  "tables_wf m \<Longrightarrow> tables_wf (TcpModule_deliver_fire fire m)"
  "tables_wf m \<Longrightarrow> tables_wf (tcp_note_fire fire m)"
  "tables_wf x \<Longrightarrow> tables_wf y \<Longrightarrow> tables_wf (if b then x else y)"
  by (simp_all add: tables_wf_def upd_conn_def upd_stats_def TcpModule_transmit_segment_def TcpModule_transmit_rst_def Let_def
      TcpModule_deliver_fire_def tcp_note_fire_def)

lemma tables_timers: "tables_wf m \<Longrightarrow> length (tm_timers m) = 16"
  by (simp add: tables_wf_def)

lemma disarm_tables [tcp_tables]: "tables_wf m \<Longrightarrow> tables_wf (TcpModule_disarm_rto_guard k m)"
  unfolding TcpModule_disarm_rto_guard_def by (intro tcp_tables) (simp_all add: cancel_length tables_timers)

lemma arm_case_tables [tcp_tables]:
  assumes "tables_wf m" "\<And>seat x. tables_wf x \<Longrightarrow> tables_wf (f seat x)"
  shows "tables_wf (case TimerTable_arm ctx call deadline (tm_timers m) of (Inr seat, t) \<Rightarrow> f seat (m\<lparr>tm_timers := t\<rparr>) | (Inl e, t) \<Rightarrow> m\<lparr>tm_timers := t\<rparr>)"
proof -
  obtain r t where a: "TimerTable_arm ctx call deadline (tm_timers m) = (r, t)" by fastforce
  have "length t = 16" using arm_length[of ctx call deadline "tm_timers m"] a tables_timers[OF assms(1)] by simp
  then have "tables_wf (m\<lparr>tm_timers := t\<rparr>)" by (rule tables_fields(7)[OF assms(1)])
  then show ?thesis using assms(2) a by (cases r) auto
qed

lemma arm_guard_tables [tcp_tables]: "tables_wf m \<Longrightarrow> tables_wf (TcpModule_arm_rto_guard k m)"
  unfolding TcpModule_arm_rto_guard_def Let_def by (intro tcp_tables) simp_all

lemma begin_time_wait_tables [tcp_tables]: "tables_wf m \<Longrightarrow> tables_wf (TcpModule_begin_time_wait k m)"
  unfolding TcpModule_begin_time_wait_def Let_def by (intro tcp_tables) simp_all

lemma release_tables [tcp_tables]: "tables_wf m \<Longrightarrow> tables_wf (snd (TcpModule_release_connection k fire farewell m))"
  unfolding TcpModule_release_connection_def Let_def snd_conv
  by (intro tcp_tables) (simp_all add: cancel_length tables_timers disarm_tables)

lemma after_ack_tables [tcp_tables]: "tables_wf m \<Longrightarrow> tables_wf (TcpModule_after_ack_movement k moved now m)"
  unfolding TcpModule_after_ack_movement_def Let_def by (intro tcp_tables)

lemma resend_tables [tcp_tables]: "tables_wf m \<Longrightarrow> tables_wf (TcpModule_resend_oldest k m)"
  unfolding TcpModule_resend_oldest_def Let_def by (intro tcp_tables)

lemma tables_cases [tcp_tables]:
  "tables_wf a0 \<Longrightarrow> tables_wf a1 \<Longrightarrow> tables_wf a2 \<Longrightarrow> tables_wf a3 \<Longrightarrow> tables_wf a4 \<Longrightarrow> tables_wf a5 \<Longrightarrow>
   tables_wf a6 \<Longrightarrow> tables_wf a7 \<Longrightarrow> tables_wf a8 \<Longrightarrow> tables_wf a9 \<Longrightarrow>
   tables_wf (case st of TcpState_kClosed \<Rightarrow> a0 | TcpState_kSynSent \<Rightarrow> a1 | TcpState_kSynReceived \<Rightarrow> a2
     | TcpState_kEstablished \<Rightarrow> a3 | TcpState_kFinWait1 \<Rightarrow> a4 | TcpState_kFinWait2 \<Rightarrow> a5 | TcpState_kCloseWait \<Rightarrow> a6
     | TcpState_kClosing \<Rightarrow> a7 | TcpState_kLastAck \<Rightarrow> a8 | TcpState_kTimeWait \<Rightarrow> a9)"
  "tables_wf z \<Longrightarrow> (\<And>i. tables_wf (g i)) \<Longrightarrow> tables_wf (case opt of None \<Rightarrow> z | Some i \<Rightarrow> g i)"
  by (simp_all split: TcpState.split option.split)

lemma store_tables [tcp_tables]: "tables_wf m \<Longrightarrow> tables_wf (TcpModule_store_out_of_order k view payload m)"
  unfolding TcpModule_store_out_of_order_def Let_def tcp_drop_reorder_def by (intro tcp_tables)

lemma harvest_tables [tcp_tables]: "tables_wf m \<Longrightarrow> tables_wf (snd (TcpModule_harvest_reorder k fire m))"
  unfolding TcpModule_harvest_reorder_def case_prod_beta snd_conv by (intro tcp_tables)

lemma absorb_bytes_tables [tcp_tables]: "tables_wf m \<Longrightarrow> tables_wf (snd (TcpModule_absorb_bytes k view payload n fire m))"
  unfolding TcpModule_absorb_bytes_def Let_def snd_conv by (intro tcp_tables)

lemma slide_tables [tcp_tables]: "tables_wf m \<Longrightarrow> tables_wf (tcp_slide k view n m)"
  unfolding tcp_slide_def Let_def by (intro tcp_tables)

lemma absorb_ack_tables [tcp_tables]: "tables_wf m \<Longrightarrow> tables_wf (snd (snd (TcpModule_absorb_ack k view n fire m)))"
  unfolding TcpModule_absorb_ack_def Let_def case_prod_beta if_distrib[of snd] snd_conv by (intro tcp_tables)

lemma absorb_tail_tables [tcp_tables]: "tables_wf m \<Longrightarrow> tables_wf (snd (tcp_absorb_tail k view payload n fire m))"
proof -
  assume a: "tables_wf m"
  obtain stop fire1 m2 where r: "TcpModule_absorb_ack k view n fire m = (stop, fire1, m2)" by (metis prod_cases3)
  then have "tables_wf m2" using absorb_ack_tables[OF a, of k view n fire] by simp
  then show ?thesis unfolding tcp_absorb_tail_def r
    by (cases stop) (auto intro!: tcp_tables simp: Let_def case_prod_beta)
qed

text \<open>A listener replaced by a well-formed one that keeps its port or is not in use.\<close>

lemma listens_update:
  assumes "tables_wf m" "listen_wf seat"
    and "ls_used seat \<Longrightarrow> \<forall>j<4. j \<noteq> i \<longrightarrow> ls_used (tm_listens m ! j) \<longrightarrow> ls_port (tm_listens m ! j) \<noteq> ls_port seat"
  shows "tables_wf (m\<lparr>tm_listens := (tm_listens m)[i := seat]\<rparr>)"
proof -
  have "\<forall>s\<in>set ((tm_listens m)[i := seat]). listen_wf s"
    using assms(1,2) set_update_subset_insert[of "tm_listens m" i seat] by (auto simp: tables_wf_def)
  moreover have "ports_distinct ((tm_listens m)[i := seat])"
    unfolding ports_distinct_def length_list_update
  proof (intro allI impI)
    fix a b
    assume ab: "a < length (tm_listens m)" "b < length (tm_listens m)" "ls_used ((tm_listens m)[i := seat] ! a)"
      "ls_used ((tm_listens m)[i := seat] ! b)" "ls_port ((tm_listens m)[i := seat] ! a) = ls_port ((tm_listens m)[i := seat] ! b)"
    have len: "length (tm_listens m) = 4" and old: "ports_distinct (tm_listens m)" using assms(1) by (simp_all add: tables_wf_def)
    show "a = b"
    proof (cases "a = i \<or> b = i")
      case True
      then show ?thesis using assms(3) ab len by (cases "a = b") auto
    next
      case False
      then show ?thesis using old ab unfolding ports_distinct_def by auto
    qed
  qed
  ultimately show ?thesis using assms(1) by (simp add: tables_wf_def)
qed

lemma listens_keep:
  assumes "tables_wf m" "i < 4" "listen_wf seat" "ls_used seat \<Longrightarrow> ls_used (tm_listens m ! i) \<and> ls_port seat = ls_port (tm_listens m ! i)"
  shows "tables_wf (m\<lparr>tm_listens := (tm_listens m)[i := seat]\<rparr>)"
proof (rule listens_update[OF assms(1,3)])
  assume "ls_used seat"
  then show "\<forall>j<4. j \<noteq> i \<longrightarrow> ls_used (tm_listens m ! j) \<longrightarrow> ls_port (tm_listens m ! j) \<noteq> ls_port seat"
    using assms unfolding tables_wf_def ports_distinct_def by metis
qed

lemma listen_wf_nth: "tables_wf m \<Longrightarrow> i < 4 \<Longrightarrow> listen_wf (tm_listens m ! i)"
  by (simp add: tables_wf_def)

lemma queue_accepted_tables [tcp_tables]:
  assumes "tables_wf m" shows "tables_wf (tcp_queue_accepted k m)"
proof (cases "TcpModule_find_listen (tc_local_port (conn m k)) m")
  case (Some i)
  then have i: "i < 4" unfolding TcpModule_find_listen_def find_upt_Some_iff by simp
  let ?seat = "(tm_listens m ! i)\<lparr>ls_accepted := (ls_accepted (tm_listens m ! i))[ls_accepted_count (tm_listens m ! i) :=
                    \<lparr>tt_slot = k, tt_stamp = tc_stamp (conn m k)\<rparr>], ls_accepted_count := ls_accepted_count (tm_listens m ! i) + 1\<rparr>"
  have "tables_wf (m\<lparr>tm_listens := (tm_listens m)[i := ?seat]\<rparr>)" if "ls_accepted_count (tm_listens m ! i) < 2"
    by (rule listens_keep[OF assms i]) (use listen_wf_nth[OF assms i] that in \<open>simp_all add: listen_wf_def\<close>)
  then show ?thesis using assms Some by (simp add: tcp_queue_accepted_def)
qed (simp add: tcp_queue_accepted_def assms)

lemma absorb_segment_tables [tcp_tables]:
  "tables_wf m \<Longrightarrow> tables_wf (snd (TcpModule_absorb_segment k view payload n fire m))"
  unfolding TcpModule_absorb_segment_def Let_def TcpState.case_distrib[of snd] if_distrib[of snd] snd_conv
  by (intro tcp_tables)

lemma claim_tables [tcp_tables]: "tables_wf m \<Longrightarrow> tables_wf (snd (TcpModule_claim_free_connection m))"
  unfolding TcpModule_claim_free_connection_def option.case_distrib[of snd] snd_conv by (intro tcp_tables)

lemma pick_tables [tcp_tables]: "tables_wf m \<Longrightarrow> tables_wf (snd (TcpModule_pick_local_port m))"
  unfolding TcpModule_pick_local_port_def Let_def option.case_distrib[of snd] snd_conv by (intro tcp_tables)

lemma answer_unclaimed_tables [tcp_tables]:
  assumes "tables_wf m" shows "tables_wf (TcpModule_answer_unclaimed header view n m)"
proof -
  obtain got m1 where c: "TcpModule_claim_free_connection m = (got, m1)" by fastforce
  then have "tables_wf m1" using claim_tables[OF assms] by simp
  then show ?thesis using assms c unfolding TcpModule_answer_unclaimed_def Let_def
    by (auto intro!: tcp_tables split: option.split)
qed

lemma handle_tables: "tables_wf m \<Longrightarrow> tables_wf (TcpModule_handle bytes header m)"
proof -
  assume wf: "tables_wf m"
  show ?thesis
  proof (cases rule: handle_cases[of bytes header m])
    case (absorbed view payload n k fire m1)
    have "tables_wf m1" using absorb_segment_tables[OF wf, of k view payload n PendingFire_none] absorbed(3) by simp
    then show ?thesis unfolding absorbed(4) by (intro tcp_tables)
  qed (simp_all, (intro tcp_tables wf)+)
qed

lemma listen_tables: "tables_wf m \<Longrightarrow> tables_wf (snd (TcpModule_listen port events m))"
proof -
  assume wf: "tables_wf m"
  show ?thesis
  proof (cases "\<exists>i<4. ls_used (tm_listens m ! i) \<and> ls_port (tm_listens m ! i) = port")
    case True
    then show ?thesis using wf by (simp add: TcpModule_listen_def)
  next
    case False
    have "listen_wf (ListenSeat_empty\<lparr>ls_used := True, ls_stamp := st, ls_port := port, ls_events := events\<rparr>)" for st
      by (simp add: listen_wf_def ListenSeat_empty_def)
    then have "tables_wf (m\<lparr>tm_listens := (tm_listens m)[i := ListenSeat_empty\<lparr>ls_used := True, ls_stamp := st, ls_port := port, ls_events := events\<rparr>]\<rparr>)" for i st
      by (rule listens_update[OF wf]) (use False in auto)
    then show ?thesis using wf False by (simp add: TcpModule_listen_def Let_def split: option.split)
  qed
qed

lemma unlisten_tables: "tables_wf m \<Longrightarrow> tables_wf (snd (TcpModule_unlisten ticket m))"
proof -
  assume wf: "tables_wf m"
  have "tables_wf (m\<lparr>tm_listens := (tm_listens m)[i := ListenSeat_empty\<lparr>ls_stamp := st\<rparr>]\<rparr>)" for i st
    by (rule listens_update[OF wf]) (simp_all add: listen_wf_def ListenSeat_empty_def)
  then show ?thesis using wf by (simp add: TcpModule_unlisten_def Let_def)
qed

lemma take_accepted_tables: "tables_wf m \<Longrightarrow> tables_wf (snd (TcpModule_take_accepted ticket m))"
proof -
  assume wf: "tables_wf m"
  let ?i = "tl_slot ticket" and ?seat = "tm_listens m ! tl_slot ticket"
  show ?thesis
  proof (cases "tcp_listen_live ticket m \<and> ls_accepted_count ?seat \<noteq> 0")
    case True
    then have i: "?i < 4" by (simp add: tcp_listen_live_def)
    have "tables_wf (m\<lparr>tm_listens := (tm_listens m)[?i := ?seat\<lparr>
        ls_accepted := tl (take (ls_accepted_count ?seat) (ls_accepted ?seat)) @ drop (ls_accepted_count ?seat - 1) (ls_accepted ?seat),
        ls_accepted_count := ls_accepted_count ?seat - 1\<rparr>]\<rparr>)"
      by (rule listens_keep[OF wf i]) (use listen_wf_nth[OF wf i] True in \<open>auto simp: listen_wf_def min_def\<close>)
    then show ?thesis using True by (simp add: TcpModule_take_accepted_def Let_def)
  qed (auto simp: TcpModule_take_accepted_def Let_def wf)
qed

lemma connect_tables: "tables_wf m \<Longrightarrow> tables_wf (snd (TcpModule_connect lp ra rp events now m))"
proof -
  assume wf: "tables_wf m"
  obtain got m1 where c: "TcpModule_claim_free_connection m = (got, m1)" by fastforce
  then have 1: "tables_wf m1" using claim_tables[OF wf] by simp
  obtain kLocal m2 where pick: "(if lp \<noteq> 0 then (lp, m1) else TcpModule_pick_local_port m1) = (kLocal, m2)" by fastforce
  then have "tables_wf m2" using 1 pick_tables[OF 1] by (auto split: if_splits)
  then show ?thesis using wf 1 c pick unfolding TcpModule_connect_def
    by (auto intro!: tcp_tables simp: Let_def split: option.split)
qed

lemma send_chunks_tables [tcp_tables]: "tables_wf m \<Longrightarrow> tables_wf (send_chunks k bytes m)"
proof (induction k bytes m rule: send_chunks.induct)
  case (1 k bytes m)
  show ?case
  proof (cases "bytes = []")
    case True
    then show ?thesis using 1(2) by (subst send_chunks.simps) simp
  next
    case False
    have "tables_wf (send_chunks k (drop 1460 bytes) (upd_conn k (\<lambda>c. c\<lparr>tc_outbox := push_bytes (take 1460 bytes) (tc_outbox c),
                 tc_snd_nxt := tc_snd_nxt c + of_nat (length (take 1460 bytes))\<rparr>)
         (TcpModule_transmit_segment (conn m k) (kTcpFlagAck OR kTcpFlagPsh) (take 1460 bytes) (tc_snd_nxt (conn m k)) m)))"
      by (rule 1(1)[OF False refl refl]) (intro tcp_tables 1(2))
    then show ?thesis using False by (subst send_chunks.simps) (simp add: Let_def)
  qed
qed

lemma send_tables: "tables_wf m \<Longrightarrow> tables_wf (snd (TcpModule_send ticket payload now m))"
  unfolding TcpModule_send_def Let_def option.case_distrib[of snd] if_distrib[of snd] snd_conv by (intro tcp_tables)

lemma receive_tables: "tables_wf m \<Longrightarrow> tables_wf (snd (TcpModule_receive ticket cap m))"
  unfolding TcpModule_receive_def Let_def option.case_distrib[of snd] case_prod_beta if_distrib[of snd] snd_conv by (intro tcp_tables)

lemma close_tables: "tables_wf m \<Longrightarrow> tables_wf (TcpModule_close ticket m)"
  unfolding TcpModule_close_def tcp_send_fin_def Let_def by (intro tcp_tables)

lemma abandon_tables: "tables_wf m \<Longrightarrow> tables_wf (TcpModule_abandon ticket m)"
  unfolding TcpModule_abandon_def Let_def case_prod_beta by (intro tcp_tables)

lemma expire_tables [tcp_tables]: "tables_wf m \<Longrightarrow> tables_wf (TcpModule_expire_time_wait k m)"
  unfolding TcpModule_expire_time_wait_def Let_def case_prod_beta by (intro tcp_tables)

lemma release_case_tables [tcp_tables]:
  assumes "tables_wf m" "\<And>f x. tables_wf x \<Longrightarrow> tables_wf (g f x)"
  shows "tables_wf (case TcpModule_release_connection k fire farewell m of (f, x) \<Rightarrow> g f x)"
  unfolding case_prod_beta by (rule assms(2)[OF release_tables[OF assms(1)]])

lemma retransmit_due_tables [tcp_tables]: "tables_wf m \<Longrightarrow> tables_wf (TcpModule_retransmit_due k m)"
  unfolding TcpModule_retransmit_due_def Let_def by (intro tcp_tables)

lemma timer_call_tables: "tables_wf m \<Longrightarrow> tables_wf (tcp_timer_call call ctx m)"
  unfolding tcp_timer_call_def
  by (auto intro: expire_tables retransmit_due_tables split: option.split TcpTimerCall.split)

lemma tables_fold: "(\<And>x m. tables_wf m \<Longrightarrow> tables_wf (f x m)) \<Longrightarrow> tables_wf m \<Longrightarrow> tables_wf (fold f xs m)"
  by (induction xs arbitrary: m) auto

lemma service_tables: "tables_wf m \<Longrightarrow> tables_wf (TcpModule_service now m)"
proof -
  assume wf: "tables_wf m"
  let ?m1 = "TimerTable_advance tm_timers (\<lambda>t m. m\<lparr>tm_timers := t\<rparr>) tcp_timer_call now (m\<lparr>tm_service_now_ns := now\<rparr>)"
  have step: "tables_wf (TimerTable_advance_seat tm_timers (\<lambda>t m. m\<lparr>tm_timers := t\<rparr>) tcp_timer_call now i x)" if "tables_wf x" for i x
    unfolding TimerTable_advance_seat_def Let_def
    using that timer_call_tables[OF tables_fields(7)[OF that]] tables_timers[OF that] by simp
  have 1: "tables_wf ?m1" unfolding TimerTable_advance_def
    by (rule tables_fold[OF step tables_fields(6)[OF wf]])
  have 2: "tables_wf (fold (\<lambda>k m. if tc_used (conn m k) \<and> tc_oldest_sent_ns (conn m k) \<noteq> 0 \<and> tc_snd_una (conn m k) \<noteq> tc_snd_nxt (conn m k)
                          then TcpModule_arm_rto_guard k m else m) [0..<8] ?m1)"
    by (rule tables_fold[OF _ 1]) (intro tcp_tables)
  have 3: "tables_wf (fold TcpModule_deliver_fire fires (x\<lparr>tm_service_fire_count := 0\<rparr>))" if "tables_wf x" for x fires
    by (rule tables_fold[OF tables_fields(10)]) (use that in \<open>simp_all add: tables_wf_def\<close>)
  show ?thesis unfolding TcpModule_service_def Let_def by (rule 3[OF 2])
qed

lemma exec_tables: "tables_wf m \<Longrightarrow> tables_wf (tcp_exec op m)"
  by (cases op)
    (simp_all add: handle_tables listen_tables unlisten_tables take_accepted_tables connect_tables send_tables receive_tables
      close_tables abandon_tables service_tables, simp add: TcpModule_aim_def tables_wf_def)

section \<open>Connections\<close>

definition module_wf :: "TcpModule \<Rightarrow> bool" where
  "module_wf m \<longleftrightarrow> length (tm_connections m) = 8 \<and> (\<forall>k<8. conn_wf (conn m k)) \<and> tables_wf m"

definition conns_wf :: "TcpModule \<Rightarrow> bool" where
  "conns_wf m \<longleftrightarrow> length (tm_connections m) = 8 \<and> (\<forall>k<8. conn_wf (conn m k))"

lemma conns_alters: "conns_wf m \<Longrightarrow> alters k m m' \<Longrightarrow> (k < 8 \<Longrightarrow> conn_wf (conn m' k)) \<Longrightarrow> conns_wf m'"
  unfolding conns_wf_def alters_def by metis

lemma conns_same: "conns_wf m \<Longrightarrow> tm_connections m' = tm_connections m \<Longrightarrow> conns_wf m'"
  by (simp add: conns_wf_def conn_def)

lemma conns_touch: "conns_wf m \<Longrightarrow> touch k wf_view m m' \<Longrightarrow> conns_wf m'"
  by (rule conns_alters[OF _ touch_alters]) (auto simp: conns_wf_def intro: touch_wf)

lemma conns_released: "conns_wf m \<Longrightarrow> k < 8 \<Longrightarrow> released k m m' \<Longrightarrow> conns_wf m'"
  by (rule conns_alters[OF _ released_alters]) (auto dest: released_wf)

lemma conns_slot: "conns_wf m \<Longrightarrow> k < 8 \<Longrightarrow> k < length (tm_connections m) \<and> conn_wf (conn m k)"
  by (simp add: conns_wf_def)

lemma conn_wf_opening:
  "wf_view c = wf_view (Connection_empty\<lparr>tc_state := st, tc_snd_una := i, tc_snd_nxt := i + 1\<rparr>) \<Longrightarrow>
   st = TcpState_kSynSent \<or> st = TcpState_kSynReceived \<Longrightarrow> conn_wf c"
proof (rule conn_wf_view)
  assume "st = TcpState_kSynSent \<or> st = TcpState_kSynReceived"
  then show "conn_wf (Connection_empty\<lparr>tc_state := st, tc_snd_una := i, tc_snd_nxt := i + 1\<rparr>)"
    using ring_wf_empty by (auto simp: conn_wf_def Connection_empty_def seat_wf_empty flight_ok_def)
qed

lemma answer_unclaimed_conns:
  assumes wf: "conns_wf m" shows "conns_wf (TcpModule_answer_unclaimed header view n m)"
proof -
  let ?m' = "TcpModule_answer_unclaimed header view n m"
  have len: "length (tm_connections m) = 8" using wf by (simp add: conns_wf_def)
  obtain got m1 where claim: "TcpModule_claim_free_connection m = (got, m1)" by fastforce
  have rst: "conn (TcpModule_transmit_rst a p l s q w x) k = conn x k" for a p l s q w x k
    by (simp add: TcpModule_transmit_rst_def Let_def)
  show ?thesis
  proof (cases rule: answer_unclaimed_cases[OF len, of header view n])
    case 1
    then show ?thesis using conns_same[OF wf] by simp
  next
    case (2 j)
    then have a: "alters j m ?m'" and fresh: "tc_stamp (conn ?m' j) \<noteq> tc_stamp (conn m j)" by (simp_all add: renews_def)
    have syn: "has_flag kTcpFlagSyn view \<and> \<not> has_flag kTcpFlagAck view"
      using fresh by (auto simp: TcpModule_answer_unclaimed_def Let_def rst split: if_splits)
    have "got = Some j"
    proof (cases got)
      case None
      then show ?thesis using fresh syn claim claim_none[of m m1]
        by (auto simp: TcpModule_answer_unclaimed_def Let_def rst split: option.splits)
    next
      case (Some i)
      have "conn ?m' j = conn m j" if "j \<noteq> i"
        using that Some claim syn altersD(2)[of i m m1 j] claim_renews(1)[OF claim[unfolded Some] len]
        by (auto simp: TcpModule_answer_unclaimed_def Let_def rst renews_def conn_upd_conn alters_def len split: option.splits)
      then show ?thesis using fresh Some by (cases "j = i") auto
    qed
    note c = claim_renews(2-)[OF claim[unfolded this] len]
    have l1: "length (tm_connections m1) = 8" using claim_renews(1)[OF claim[unfolded \<open>got = Some j\<close>] len] len by (simp add: renews_def alters_def)
    have "conn_wf (conn ?m' j)"
    proof (cases "TcpModule_find_listen (tv_destination_port view) m")
      case None
      have "conn ?m' j = Connection_empty\<lparr>tc_used := False, tc_stamp := tc_stamp (conn m j) + 1\<rparr>"
        using None syn claim \<open>got = Some j\<close> c l1 by (simp add: TcpModule_answer_unclaimed_def Let_def rst conn_upd_conn)
      then show ?thesis by (simp add: conn_wf_empty)
    next
      case (Some i)
      show ?thesis
        by (rule conn_wf_opening[where st = TcpState_kSynReceived and i = "tm_isn_cursor m1 + kIsnStep"])
          (use Some syn claim \<open>got = Some j\<close> c l1 in \<open>simp_all add: TcpModule_answer_unclaimed_def Let_def conn_upd_conn wf_view_def\<close>)
    qed
    then show ?thesis by (rule conns_alters[OF wf a])
  qed
qed

lemma connect_conns:
  assumes wf: "conns_wf m" shows "conns_wf (snd (TcpModule_connect lp ra rp events now m))"
proof (cases "ra = 0 \<or> rp = 0")
  case True
  then show ?thesis using wf by (auto simp: TcpModule_connect_def)
next
  case False
  have len: "length (tm_connections m) = 8" using wf by (simp add: conns_wf_def)
  obtain got m1 where claim: "TcpModule_claim_free_connection m = (got, m1)" by fastforce
  show ?thesis
  proof (cases got)
    case None
    then show ?thesis using False claim claim_none[of m m1] wf by (simp add: TcpModule_connect_def)
  next
    case (Some j)
    note c = claim_renews[OF claim[unfolded Some] len]
    obtain kLocal m2 where pick: "(if lp \<noteq> 0 then (lp, m1) else TcpModule_pick_local_port m1) = (kLocal, m2)" by fastforce
    have "m2 = (if lp \<noteq> 0 then m1 else snd (TcpModule_pick_local_port m1))" using pick by (auto split: if_splits)
    then have m2: "tm_connections m2 = tm_connections m1" by simp
    have l: "length (tm_connections m2) = 8" using c(1) m2 len by (simp add: renews_def alters_def)
    have cj: "conn m2 j = Connection_empty\<lparr>tc_used := True, tc_stamp := tc_stamp (conn m j) + 1\<rparr>" using c(3) conn_cong[OF m2] by simp
    let ?m' = "snd (TcpModule_connect lp ra rp events now m)"
    have "alters j m m2" using c(1) m2 by (simp add: renews_def alters_def conn_def)
    then have a: "alters j m ?m'" using False claim Some pick unfolding TcpModule_connect_def
      by (auto intro!: tcp_frame simp: Let_def)
    have "conn_wf (conn ?m' j)"
    proof (cases "kLocal = 0")
      case True
      have "conn ?m' j = Connection_empty\<lparr>tc_used := False, tc_stamp := tc_stamp (conn m j) + 1\<rparr>"
        using False True claim Some pick cj l c(2) by (simp add: TcpModule_connect_def conn_upd_conn)
      then show ?thesis by (simp add: conn_wf_empty)
    next
      case kl: False
      show ?thesis
        by (rule conn_wf_opening[where st = TcpState_kSynSent and i = "tm_isn_cursor m2 + kIsnStep"])
          (use False kl claim Some pick cj l c(2) in \<open>simp_all add: TcpModule_connect_def Let_def conn_upd_conn wf_view_def\<close>)
    qed
    then show ?thesis by (rule conns_alters[OF wf a])
  qed
qed

lemma handle_conns:
  assumes wf: "conns_wf m" shows "conns_wf (TcpModule_handle bytes header m)"
proof (cases rule: handle_cases[of bytes header m])
  case (refused g)
  then show ?thesis using conns_same[OF wf] by simp
next
  case (unclaimed view payload n)
  then show ?thesis using conns_same[OF answer_unclaimed_conns[OF wf] deliver_conn(2)] by simp
next
  case (recycled view payload n k)
  let ?m1 = "snd (TcpModule_release_connection k PendingFire_none TcpFarewell_kGraceful m)"
  note k = find_connection_bound[OF recycled(2)]
  have "conns_wf ?m1" by (rule conns_released[OF wf k release_released]) (use conns_slot[OF wf k] in simp)
  then show ?thesis using conns_same[OF answer_unclaimed_conns deliver_conn(2)] recycled(3) by simp
next
  case (absorbed view payload n k fire m1)
  note k = find_connection_bound[OF absorbed(2)]
  have a: "alters k m m1" using absorb_segment_alters[OF alters_refl, of k m view payload n PendingFire_none] absorbed(3) by simp
  have 1: "conn_wf (conn m1 k)" using absorb_segment_wf[of k m view payload n PendingFire_none] conns_slot[OF wf k] absorbed(3) by simp
  have "k < length (tm_connections m1)" using a conns_slot[OF wf k] by (simp add: alters_def)
  then have "conn_wf (conn (TcpModule_after_ack_movement k moved now m1) k)" for moved now by (rule after_ack_wf[OF _ 1])
  then have "conns_wf (if b then TcpModule_after_ack_movement k moved now m1 else m1)" for b moved now
    using conns_alters[OF wf alters_calls(7)[OF a]] conns_alters[OF wf a] 1 by auto
  then show ?thesis using conns_same[OF _ deliver_conn(2)] absorbed(4) by simp
qed

lemma receive_conns:
  assumes wf: "conns_wf m" shows "conns_wf (snd (TcpModule_receive ticket cap m))"
proof (rule conns_alters[OF wf receive_alters])
  let ?k = "tt_slot ticket"
  assume k: "?k < 8"
  note c = conns_slot[OF wf k]
  have inv: "RingQueue_inv (tc_inbox (conn m ?k))" "RingQueue_limit (tc_inbox (conn m ?k)) = 4096"
    using c by (simp_all add: conn_wf_def ring_wf_def)
  obtain taken inbox where d: "drain_upto (RingQueue_pop 0) cap (tc_inbox (conn m ?k)) = (taken, inbox)" by fastforce
  have "ring_wf inbox" using rq.drain_upto_spec[OF inv(1), of 0 cap] d inv(2) by (simp add: ring_wf_def)
  then have "conn_wf (conn (upd_conn ?k (\<lambda>c. c\<lparr>tc_inbox := inbox\<rparr>) m) ?k)" using c by (simp add: conn_upd_conn conn_wf_def)
  then show "conn_wf (conn (snd (TcpModule_receive ticket cap m)) ?k)"
    using c d by (auto simp: TcpModule_receive_def Let_def TcpModule_live_connection_def)
qed

abbreviation (input) sends :: "TcpState \<Rightarrow> bool" where
  "sends st \<equiv> st = TcpState_kEstablished \<or> st = TcpState_kCloseWait"

lemma send_chunks_wf:
  "k < length (tm_connections m) \<Longrightarrow> conn_wf (conn m k) \<Longrightarrow> sends (tc_state (conn m k)) \<Longrightarrow>
   RingQueue_count (tc_outbox (conn m k)) + length bytes \<le> 4096 \<Longrightarrow> conn_wf (conn (send_chunks k bytes m) k)"
proof (induction k bytes m rule: send_chunks.induct)
  case (1 k bytes m)
  show ?case
  proof (cases "bytes = []")
    case True
    then show ?thesis using 1(3) by (subst send_chunks.simps) simp
  next
    case False
    let ?c = "conn m k" and ?chunk = "take 1460 bytes"
    let ?m1 = "TcpModule_transmit_segment ?c (kTcpFlagAck OR kTcpFlagPsh) ?chunk (tc_snd_nxt ?c) m"
    let ?m2 = "upd_conn k (\<lambda>c. c\<lparr>tc_outbox := push_bytes ?chunk (tc_outbox c), tc_snd_nxt := tc_snd_nxt c + of_nat (length ?chunk)\<rparr>) ?m1"
    have ring: "ring_wf (tc_outbox ?c)" using 1(3) by (simp add: conn_wf_def)
    note q = push_bytes_count[OF ring, of ?chunk]
    have c2: "conn ?m2 k = ?c\<lparr>tc_outbox := push_bytes ?chunk (tc_outbox ?c), tc_snd_nxt := tc_snd_nxt ?c + of_nat (length ?chunk)\<rparr>"
      using 1(2) by (simp add: conn_upd_conn)
    have fits: "RingQueue_count (tc_outbox ?c) + length ?chunk \<le> 4096" using 1(5) by simp
    have fl: "tc_snd_nxt ?c - tc_snd_una ?c = of_nat (RingQueue_count (tc_outbox ?c))"
      using 1(3,4) by (auto simp: conn_wf_def flight_ok_def)
    have "tc_snd_nxt (conn ?m2 k) - tc_snd_una (conn ?m2 k) = of_nat (RingQueue_count (tc_outbox (conn ?m2 k)))"
      using fl q(2)[OF fits] unfolding c2 by (simp add: algebra_simps)
    then have "flight_ok (tc_state (conn ?m2 k)) (tc_snd_nxt (conn ?m2 k) - tc_snd_una (conn ?m2 k)) (RingQueue_count (tc_outbox (conn ?m2 k)))"
      using 1(4) c2 by (auto simp: flight_ok_def)
    then have "conn_wf (conn ?m2 k)" using 1(3) q(1)[OF fits] unfolding conn_wf_def c2 by simp
    then have "conn_wf (conn (send_chunks k (drop 1460 bytes) ?m2) k)"
      by (intro 1(1)[OF False refl refl]) (use 1(2,4,5) c2 q(2)[OF fits] in simp_all)
    then show ?thesis using False by (subst send_chunks.simps) (simp add: Let_def)
  qed
qed

lemma send_conns:
  assumes wf: "conns_wf m" shows "conns_wf (snd (TcpModule_send ticket payload now m))"
proof (rule conns_alters[OF wf touch_alters[OF send_touch]])
  let ?k = "tt_slot ticket" let ?c = "conn m ?k"
  let ?ceil = "min (of_nat 4096) (tc_snd_window ?c)" and ?fly = "tc_snd_nxt ?c - tc_snd_una ?c"
  assume k: "?k < 8"
  note c = conns_slot[OF wf k]
  have keep: "conn_wf (conn (if b then upd_conn ?k (\<lambda>c. c\<lparr>tc_oldest_sent_ns := now\<rparr>) x else x) ?k)"
    if "conn_wf (conn x ?k)" "?k < length (tm_connections x)" for b x
    using that by (simp add: conn_upd_conn conn_wf_def)
  have sent: "conn_wf (conn (send_chunks ?k (take n payload) m) ?k)"
    if "sends (tc_state ?c)" "\<not> ?fly \<ge> ?ceil" "n = min (length payload) (unat (?ceil - ?fly))" for n
  proof (rule send_chunks_wf)
    have fl: "?fly = of_nat (RingQueue_count (tc_outbox ?c))" using c that(1) by (auto simp: conn_wf_def flight_ok_def)
    have "RingQueue_count (tc_outbox ?c) \<le> 4096" using c by (intro ring_count_le) (simp add: conn_wf_def)
    then have "unat ?fly = RingQueue_count (tc_outbox ?c)" unfolding fl by (simp add: unat_of_nat take_bit_eq_mod)
    moreover have "unat ?ceil \<le> 4096" using min.cobounded1[of "of_nat 4096 :: u32" "tc_snd_window ?c"] by (simp add: word_le_nat_alt)
    moreover have "unat (?ceil - ?fly) = unat ?ceil - unat ?fly" using that(2) by (intro unat_sub) (simp add: not_le less_imp_le)
    moreover have "unat ?fly < unat ?ceil" using that(2) by (simp add: not_le word_less_nat_alt)
    moreover have "length (take n payload) \<le> unat (?ceil - ?fly)" using that(3) by simp
    ultimately show "RingQueue_count (tc_outbox ?c) + length (take n payload) \<le> 4096" by linarith
  qed (use c that(1) in simp_all)
  have len: "?k < length (tm_connections (send_chunks ?k bs m))" for bs using touchD(1)[OF send_chunks_touch] c by simp
  show "conn_wf (conn (snd (TcpModule_send ticket payload now m)) ?k)"
    using c sent keep[OF sent len] by (auto simp: TcpModule_send_def Let_def TcpModule_live_connection_def)
qed

lemma send_fin_wf:
  assumes "k < length (tm_connections m)" "conn_wf (conn m k)"
    and "st = TcpState_kFinWait1 \<and> (tc_state (conn m k) = TcpState_kEstablished \<or> tc_state (conn m k) = TcpState_kSynReceived) \<or>
         st = TcpState_kLastAck \<and> tc_state (conn m k) = TcpState_kCloseWait"
  shows "conn_wf (conn (tcp_send_fin k st m) k)"
proof -
  let ?c = "(conn m k)\<lparr>tc_snd_nxt := tc_snd_nxt (conn m k) + 1, tc_state := st\<rparr>"
  have "tc_snd_nxt (conn m k) + 1 - tc_snd_una (conn m k) = (tc_snd_nxt (conn m k) - tc_snd_una (conn m k)) + 1" by simp
  then have "conn_wf ?c" using assms(2,3) unfolding conn_wf_def flight_ok_def by auto
  then show ?thesis using assms(1) by (simp add: tcp_send_fin_def Let_def conn_upd_conn conn_wf_def)
qed

lemma close_conns:
  assumes wf: "conns_wf m" shows "conns_wf (TcpModule_close ticket m)"
proof -
  have a: "alters (tt_slot ticket) m (TcpModule_close ticket m)"
    by (cases rule: close_cases[of m ticket]) (use wf in \<open>auto simp: conns_wf_def intro: touch_alters\<close>)
  show ?thesis
  proof (rule conns_alters[OF wf a])
    let ?k = "tt_slot ticket"
    assume "?k < 8"
    note c = conns_slot[OF wf this]
    have "conn_wf (conn (upd_conn ?k (\<lambda>c. c\<lparr>tc_used := False\<rparr>) m) ?k)" using c by (simp add: conn_upd_conn conn_wf_def)
    then show "conn_wf (conn (TcpModule_close ticket m) ?k)"
      using c send_fin_wf[of ?k m] by (cases "tc_state (conn m ?k)") (simp_all add: TcpModule_close_def TcpModule_live_connection_def)
  qed
qed

lemma conns_note: "conns_wf m \<Longrightarrow> conns_wf (tcp_note_fire fire m)"
  by (erule conns_same) (simp add: tcp_note_fire_def)

lemma conns_upd:
  assumes "conns_wf m" "\<And>c. conn_wf c \<Longrightarrow> conn_wf (f c)" shows "conns_wf (upd_conn k f m)"
  by (rule conns_alters[OF assms(1) alters_upd]) (use conns_slot[OF assms(1)] assms(2) in \<open>simp add: conn_upd_conn\<close>)

lemma expire_conns: "conns_wf m \<Longrightarrow> conns_wf (TcpModule_expire_time_wait k m)"
proof -
  assume wf: "conns_wf m"
  let ?m1 = "upd_conn k (\<lambda>c. c\<lparr>tc_time_wait_armed := False\<rparr>) m"
  have 1: "conns_wf ?m1" by (rule conns_upd[OF wf]) (simp add: conn_wf_def)
  have "conns_wf (snd (TcpModule_release_connection k fire farewell ?m1))" for fire farewell
    by (rule conns_alters[OF 1 release_alters[OF alters_refl]])
      (use conns_slot[OF 1] released_wf[OF release_released] in blast)
  then show ?thesis using 1 by (simp add: TcpModule_expire_time_wait_def Let_def case_prod_beta conns_note)
qed

lemma retransmit_due_conns: "conns_wf m \<Longrightarrow> conns_wf (TcpModule_retransmit_due k m)"
proof -
  assume wf: "conns_wf m"
  let ?m1 = "upd_conn k (\<lambda>c. c\<lparr>tc_rto_armed := False\<rparr>) m"
  let ?m2 = "upd_stats (\<lambda>s. s\<lparr>st_rto_timeouts := st_rto_timeouts s + 1\<rparr>) ?m1"
  let ?m3 = "upd_stats (\<lambda>s. s\<lparr>st_retransmits_sent := st_retransmits_sent s + 1\<rparr>)
               (upd_conn k (\<lambda>c. c\<lparr>tc_retransmit_count := tc_retransmit_count c + 1\<rparr>) ?m2)"
  have 1: "conns_wf ?m1" by (rule conns_upd[OF wf]) (simp add: conn_wf_def)
  have 2: "conns_wf (upd_stats g ?m1)" for g by (rule conns_same[OF 1]) simp
  have give: "conns_wf (snd (TcpModule_release_connection k fire farewell (upd_stats g ?m2)))" for fire farewell g
  proof -
    have w: "conns_wf (upd_stats g ?m2)" by (rule conns_same[OF 1]) simp
    show ?thesis by (rule conns_alters[OF w release_alters[OF alters_refl]])
        (use conns_slot[OF w] released_wf[OF release_released] in blast)
  qed
  have 3: "conns_wf ?m3" if "\<not> 5 \<le> tc_retransmit_count (conn ?m2 k)"
  proof -
    have "conns_wf (upd_conn k (\<lambda>c. c\<lparr>tc_retransmit_count := tc_retransmit_count c + 1\<rparr>) ?m2)"
    proof (rule conns_alters[OF 2 alters_upd])
      assume k: "k < 8"
      have "tc_retransmit_count (conn ?m2 k) + 1 \<le> 5" using that by (simp add: not_le inc_le)
      then show "conn_wf (conn (upd_conn k (\<lambda>c. c\<lparr>tc_retransmit_count := tc_retransmit_count c + 1\<rparr>) ?m2) k)"
        using conns_slot[OF wf k] by (simp add: conn_upd_conn conn_wf_def)
    qed
    then show ?thesis by (rule conns_same) simp
  qed
  have 5: "conns_wf (upd_conn k (\<lambda>c. c\<lparr>tc_rto_ns := w\<rparr>) (TcpModule_resend_oldest k ?m3))"
    if "\<not> 5 \<le> tc_retransmit_count (conn ?m2 k)" "w \<le> 64000000000" for w
    by (rule conns_upd[OF conns_touch[OF 3[OF that(1)] resend_wf]]) (use that(2) in \<open>simp add: conn_wf_def\<close>)
  have armed: "conns_wf (case TimerTable_arm ctx call dl (tm_timers x) of
      (Inr seat, t) \<Rightarrow> upd_conn k (\<lambda>c. c\<lparr>tc_rto_seat := seat, tc_rto_armed := True\<rparr>) (x\<lparr>tm_timers := t\<rparr>) | (Inl e, t) \<Rightarrow> x\<lparr>tm_timers := t\<rparr>)"
    if "conns_wf x" for x ctx call dl
  proof -
    have "conns_wf (x\<lparr>tm_timers := t\<rparr>)" for t by (rule conns_same[OF that]) simp
    then show ?thesis by (auto intro!: conns_upd simp: conn_wf_def split: prod.split sum.split)
  qed
  consider "\<not> tc_used (conn ?m1 k)" | "tc_used (conn ?m1 k)" "5 \<le> tc_retransmit_count (conn ?m2 k)"
    | "tc_used (conn ?m1 k)" "\<not> 5 \<le> tc_retransmit_count (conn ?m2 k)" by blast
  then show ?thesis
  proof cases
    case 3
    show ?thesis unfolding TcpModule_retransmit_due_def Let_def using 3
      by (simp only: not_True_eq_False not_False_eq_True if_True if_False)
        (rule armed[OF 5[OF 3(2)]], simp)
  qed (use 1 give in \<open>simp_all add: TcpModule_retransmit_due_def Let_def case_prod_beta conns_note\<close>)
qed

lemma conns_fold: "(\<And>x m. conns_wf m \<Longrightarrow> conns_wf (f x m)) \<Longrightarrow> conns_wf m \<Longrightarrow> conns_wf (fold f xs m)"
  by (induction xs arbitrary: m) auto

lemma service_conns: "conns_wf m \<Longrightarrow> conns_wf (TcpModule_service now m)"
proof -
  assume wf: "conns_wf m"
  let ?m1 = "TimerTable_advance tm_timers (\<lambda>t m. m\<lparr>tm_timers := t\<rparr>) tcp_timer_call now (m\<lparr>tm_service_now_ns := now\<rparr>)"
  have call: "conns_wf (tcp_timer_call f ctx (x\<lparr>tm_timers := t\<rparr>))" if "conns_wf x" for f ctx x t
    using expire_conns[OF conns_same[OF that]] retransmit_due_conns[OF conns_same[OF that]] conns_same[OF that]
    by (auto simp: tcp_timer_call_def split: option.split TcpTimerCall.split)
  have 1: "conns_wf ?m1" unfolding TimerTable_advance_def
    by (rule conns_fold) (simp_all add: TimerTable_advance_seat_def Let_def call conns_same[OF wf])
  have 2: "conns_wf (fold (\<lambda>k m. if tc_used (conn m k) \<and> tc_oldest_sent_ns (conn m k) \<noteq> 0 \<and> tc_snd_una (conn m k) \<noteq> tc_snd_nxt (conn m k)
                          then TcpModule_arm_rto_guard k m else m) [0..<8] ?m1)"
    by (rule conns_fold[OF _ 1]) (simp add: conns_touch[OF _ arm_wf])
  have 3: "conns_wf (fold TcpModule_deliver_fire fires (x\<lparr>tm_service_fire_count := 0\<rparr>))" if "conns_wf x" for x fires
    by (rule conns_fold[OF conns_same]) (use conns_same[OF that] in simp_all)
  show ?thesis unfolding TcpModule_service_def Let_def by (rule 3[OF 2])
qed

lemma exec_conns: "conns_wf m \<Longrightarrow> conns_wf (tcp_exec op m)"
proof (cases op)
  case (Op_abandon ticket)
  assume wf: "conns_wf m"
  then have len: "length (tm_connections m) = 8" by (simp add: conns_wf_def)
  show ?thesis unfolding Op_abandon tcp_exec.simps
  proof (cases rule: abandon_cases[OF len, of ticket])
    case 2
    show "conns_wf (TcpModule_abandon ticket m)" by (rule conns_alters[OF wf released_alters[OF 2(2)]]) (use released_wf[OF 2(2)] in simp)
  qed (simp add: wf)
qed (simp_all add: handle_conns connect_conns send_conns receive_conns close_conns service_conns conns_same)

section \<open>Every run\<close>

lemma new_wf: "conns_wf (TcpModule_init sink own TcpModule_new)" "tables_wf (TcpModule_init sink own TcpModule_new)"
proof -
  have "conn_wf Connection_empty" using conn_wf_released[of 0] by (simp add: Connection_empty_def)
  then show "conns_wf (TcpModule_init sink own TcpModule_new)"
    by (simp add: conns_wf_def TcpModule_init_def TcpModule_new_def conn_def)
  show "tables_wf (TcpModule_init sink own TcpModule_new)"
    by (simp add: tables_wf_def TcpModule_init_def TcpModule_new_def TimerTable_new_def ports_distinct_def ListenSeat_empty_def listen_wf_def)
qed

lemma run_wf: "conns_wf (tcp_run ops (TcpModule_init sink own TcpModule_new))" "tables_wf (tcp_run ops (TcpModule_init sink own TcpModule_new))"
proof -
  have "conns_wf (tcp_run ops m) \<and> tables_wf (tcp_run ops m)" if "conns_wf m" "tables_wf m" for m
    using that by (induction ops arbitrary: m) (simp_all add: exec_conns exec_tables)
  then show "conns_wf (tcp_run ops (TcpModule_init sink own TcpModule_new))" "tables_wf (tcp_run ops (TcpModule_init sink own TcpModule_new))"
    using new_wf by simp_all
qed

text \<open>
  C8. The module's data keeps its types. In every module reached from construction by any sequence of
  operations, with any bytes handled and any arguments: all tables have their declared number of seats,
  every inbox and outbox is a sound ring of 4096 bytes, every repair seat holds at most its buffer,
  every accept queue its two tickets, the pending farewells fit their array, and no two listeners in
  use share a port. So no index the code forms leaves its array.
\<close>

theorem tcp_module_well_formed:
  "module_wf (tcp_run ops (TcpModule_init sink own TcpModule_new))"
  using run_wf[of ops sink own] by (simp add: module_wf_def conns_wf_def)

text \<open>
  C9. The numbers that drive transmission stay in bounds. In every reachable module each connection
  has made at most five retransmissions in a row, waits at most 64 seconds, has at most 4096 bytes and
  two control positions in flight, all its unacknowledged bytes still in the outbox while it is open,
  and announces as its window exactly the room its inbox has, so nothing it invites is dropped for
  want of space and no sequence comparison is made across half the number space.
\<close>

theorem tcp_numbers_bounded:
  assumes "k < 8"
  shows "let c = conn (tcp_run ops (TcpModule_init sink own TcpModule_new)) k in
    tc_retransmit_count c \<le> 5 \<and> tc_rto_ns c \<le> 64000000000 \<and> tc_duplicate_acks c < 3 \<and>
    unat (tc_snd_nxt c - tc_snd_una c) \<le> RingQueue_count (tc_outbox c) + 2 \<and> RingQueue_count (tc_outbox c) \<le> 4096 \<and>
    (tc_state c = TcpState_kEstablished \<or> tc_state c = TcpState_kCloseWait \<longrightarrow>
       unat (tc_snd_nxt c - tc_snd_una c) = RingQueue_count (tc_outbox c)) \<and>
    unat (TcpModule_receive_window_of c) = 4096 - RingQueue_count (tc_inbox c)"
proof -
  let ?c = "conn (tcp_run ops (TcpModule_init sink own TcpModule_new)) k"
  have wf: "conn_wf ?c" using conns_slot[OF run_wf(1) assms] by simp
  have n: "RingQueue_count (tc_outbox ?c) \<le> 4096" "RingQueue_count (tc_inbox ?c) \<le> 4096"
    using wf by (auto intro: ring_count_le simp: conn_wf_def)
  have fl: "flight_ok (tc_state ?c) (tc_snd_nxt ?c - tc_snd_una ?c) (RingQueue_count (tc_outbox ?c))" using wf by (simp add: conn_wf_def)
  have "unat (of_nat x :: u16) = x" if "x \<le> 4096" for x using that by (simp add: unat_of_nat take_bit_eq_mod)
  then have "unat (TcpModule_receive_window_of ?c) = 4096 - RingQueue_count (tc_inbox ?c)"
    unfolding TcpModule_receive_window_of_def by (simp del: of_nat_diff)
  moreover have "unat (of_nat (RingQueue_count (tc_outbox ?c)) :: u32) = RingQueue_count (tc_outbox ?c)"
    using n(1) by (simp add: unat_of_nat take_bit_eq_mod)
  ultimately show ?thesis using wf n flight_small[OF fl n(1)] fl
    by (auto simp: Let_def conn_wf_def flight_ok_def)
qed

theorem tcp_numbers_bounded_witness:
  "let c = conn (tcp_run [Op_connect 40000 0x0A000202 80 TcpEvents_none 5, Op_service 7000000000]
             (TcpModule_init \<lparr>ds_context = Some 1, ds_send = Some 2\<rparr> 0x0A00020F TcpModule_new)) 0 in
    tc_retransmit_count c \<le> 5 \<and> tc_rto_ns c \<le> 64000000000 \<and> tc_duplicate_acks c < 3 \<and>
    unat (tc_snd_nxt c - tc_snd_una c) \<le> RingQueue_count (tc_outbox c) + 2 \<and> RingQueue_count (tc_outbox c) \<le> 4096 \<and>
    (tc_state c = TcpState_kEstablished \<or> tc_state c = TcpState_kCloseWait \<longrightarrow>
       unat (tc_snd_nxt c - tc_snd_una c) = RingQueue_count (tc_outbox c)) \<and>
    unat (TcpModule_receive_window_of c) = 4096 - RingQueue_count (tc_inbox c)"
  by (rule tcp_numbers_bounded) simp

end
