(* ===== verification/SchedClass.thy ===== *)
theory SchedClass
  imports Prelude
begin

text \<open>
  The scheduling classes of \<^verbatim>\<open>kernel/proc/sched_class.cpp\<close>: the row of waiting tasks
  (an array of 64 task pointers and a count), the FIFO class and the priority class over it.
  Tasks are named by their address, a natural number. What the scheduler relies on is the
  contract \<open>ready_row\<close>, which both classes satisfy.
\<close>

section \<open>The row\<close>

definition kReadyQueueCapacity :: nat where
  "kReadyQueueCapacity = 64"

definition kTimeSliceTicks :: u32 where
  "kTimeSliceTicks = 2"

record ClassQueue =
  cq_slots :: "nat list"
  cq_count :: nat

definition ClassQueue_init :: ClassQueue where
  "ClassQueue_init = \<lparr>cq_slots = replicate kReadyQueueCapacity 0, cq_count = 0\<rparr>"

definition ClassQueue_push :: "nat \<Rightarrow> ClassQueue \<Rightarrow> bool \<times> ClassQueue" where
  "ClassQueue_push task q =
     (if cq_count q = kReadyQueueCapacity then (False, q)
      else (True, q\<lparr>cq_slots := (cq_slots q)[cq_count q := task], cq_count := cq_count q + 1\<rparr>))"

text \<open>The loop shifts the later entries down by one; the vacated last cell keeps its bytes.\<close>

definition ClassQueue_take_at :: "nat \<Rightarrow> ClassQueue \<Rightarrow> nat \<times> ClassQueue" where
  "ClassQueue_take_at slot q =
     (cq_slots q ! slot,
      q\<lparr>cq_slots := fold (\<lambda>i xs. xs[i := xs ! (i + 1)]) [slot..<cq_count q - 1] (cq_slots q),
        cq_count := cq_count q - 1\<rparr>)"

definition ClassQueue_take_front :: "(nat \<Rightarrow> bool) \<Rightarrow> ClassQueue \<Rightarrow> nat option \<times> ClassQueue" where
  "ClassQueue_take_front available q =
     (case find (\<lambda>slot. available (cq_slots q ! slot)) [0..<cq_count q] of
        Some slot \<Rightarrow> (let (chosen, q') = ClassQueue_take_at slot q in (Some chosen, q'))
      | None \<Rightarrow> (None, q))"

definition ClassQueue_remove :: "nat \<Rightarrow> ClassQueue \<Rightarrow> bool \<times> ClassQueue" where
  "ClassQueue_remove task q =
     (case find (\<lambda>i. cq_slots q ! i = task) [0..<cq_count q] of
        Some i \<Rightarrow> (True, snd (ClassQueue_take_at i q))
      | None \<Rightarrow> (False, q))"

text \<open>One turn of the loop over the row: \<open>best = count\<close> stands for none yet.\<close>

definition best_step :: "(nat \<Rightarrow> u8) \<Rightarrow> (nat \<Rightarrow> bool) \<Rightarrow> ClassQueue \<Rightarrow> nat \<Rightarrow> nat \<Rightarrow> nat" where
  "best_step priority available q i best =
     (if available (cq_slots q ! i) \<and>
         (best = cq_count q \<or> priority (cq_slots q ! i) < priority (cq_slots q ! best))
      then i else best)"

definition ClassQueue_take_best_priority ::
  "(nat \<Rightarrow> u8) \<Rightarrow> (nat \<Rightarrow> bool) \<Rightarrow> ClassQueue \<Rightarrow> nat option \<times> ClassQueue" where
  "ClassQueue_take_best_priority priority available q =
     (let best = fold (best_step priority available q) [0..<cq_count q] (cq_count q) in
      if best = cq_count q then (None, q)
      else let (chosen, q') = ClassQueue_take_at best q in (Some chosen, q'))"

section \<open>The two classes\<close>

text \<open>\<^verbatim>\<open>DefaultFifoClass()\<close> and \<^verbatim>\<open>PriorityClass()\<close> are the only instances of
  \<^verbatim>\<open>SchedulingClass\<close>; a virtual call dispatches on which of them it is.\<close>

datatype SchedulingClass = FifoClass | PriorityClass

definition SchedulingClass_enqueue :: "SchedulingClass \<Rightarrow> nat \<Rightarrow> ClassQueue \<Rightarrow> bool \<times> ClassQueue" where
  "SchedulingClass_enqueue cls task row =
     (case cls of FifoClass \<Rightarrow> ClassQueue_push task row | PriorityClass \<Rightarrow> ClassQueue_push task row)"

definition SchedulingClass_pick ::
  "SchedulingClass \<Rightarrow> (nat \<Rightarrow> u8) \<Rightarrow> (nat \<Rightarrow> bool) \<Rightarrow> ClassQueue \<Rightarrow> nat option \<times> ClassQueue" where
  "SchedulingClass_pick cls priority available row =
     (case cls of
        FifoClass \<Rightarrow> ClassQueue_take_front available row
      | PriorityClass \<Rightarrow> ClassQueue_take_best_priority priority available row)"

definition SchedulingClass_remove :: "SchedulingClass \<Rightarrow> nat \<Rightarrow> ClassQueue \<Rightarrow> bool \<times> ClassQueue" where
  "SchedulingClass_remove cls task row =
     (case cls of FifoClass \<Rightarrow> ClassQueue_remove task row | PriorityClass \<Rightarrow> ClassQueue_remove task row)"

definition SchedulingClass_wants_rotate :: "SchedulingClass \<Rightarrow> u32 \<Rightarrow> bool" where
  "SchedulingClass_wants_rotate cls slice_ticks =
     (case cls of FifoClass \<Rightarrow> slice_ticks \<ge> kTimeSliceTicks | PriorityClass \<Rightarrow> slice_ticks \<ge> kTimeSliceTicks)"

section \<open>The contract of a class\<close>

text \<open>
  A row is a bounded list of tasks. A pick hands over a task the caller may take, out of
  the list, or none when no task of the list may be taken.
\<close>

locale ready_row =
  fixes content :: "'q \<Rightarrow> nat list"
    and invar :: "'q \<Rightarrow> bool"
    and limit :: nat
    and enqueue :: "nat \<Rightarrow> 'q \<Rightarrow> bool \<times> 'q"
    and pick :: "(nat \<Rightarrow> bool) \<Rightarrow> 'q \<Rightarrow> nat option \<times> 'q"
    and takeoff :: "nat \<Rightarrow> 'q \<Rightarrow> bool \<times> 'q"
  assumes seats: "invar q \<Longrightarrow> length (content q) < limit \<Longrightarrow>
      \<exists>q'. enqueue t q = (True, q') \<and> invar q' \<and> content q' = content q @ [t]"
    and refuses: "invar q \<Longrightarrow> \<not> length (content q) < limit \<Longrightarrow> enqueue t q = (False, q)"
    and picks: "invar q \<Longrightarrow> (\<exists>t\<in>set (content q). may t) \<Longrightarrow>
      \<exists>t q' xs ys. pick may q = (Some t, q') \<and> invar q' \<and> may t \<and>
        content q = xs @ t # ys \<and> content q' = xs @ ys"
    and idles: "invar q \<Longrightarrow> \<not> (\<exists>t\<in>set (content q). may t) \<Longrightarrow> pick may q = (None, q)"
    and takes: "invar q \<Longrightarrow> t \<in> set (content q) \<Longrightarrow>
      \<exists>q'. takeoff t q = (True, q') \<and> invar q' \<and> content q' = remove1 t (content q)"
    and lacks: "invar q \<Longrightarrow> t \<notin> set (content q) \<Longrightarrow> takeoff t q = (False, q)"
begin

lemma enqueue_cases:
  assumes "invar q"
  obtains (seated) q' where "enqueue t q = (True, q')" "invar q'" "content q' = content q @ [t]"
      "length (content q) < limit"
    | (refused) "enqueue t q = (False, q)" "\<not> length (content q) < limit"
  using seats[OF assms] refuses[OF assms] that by blast

lemma pick_cases:
  assumes "invar q"
  obtains (picked) t q' xs ys where "pick may q = (Some t, q')" "invar q'" "may t"
      "content q = xs @ t # ys" "content q' = xs @ ys"
    | (idle) "pick may q = (None, q)" "\<forall>t\<in>set (content q). \<not> may t"
  using picks[OF assms, of may] idles[OF assms, of may] that by blast

lemma takeoff_cases:
  assumes "invar q"
  obtains (taken) q' where "takeoff t q = (True, q')" "invar q'" "content q' = remove1 t (content q)"
      "t \<in> set (content q)"
    | (absent) "takeoff t q = (False, q)" "t \<notin> set (content q)"
  using takes[OF assms] lacks[OF assms] that by blast

text \<open>A task seated in a row is found by the next pick that may take it and nothing else.\<close>

lemma seated_then_picked:
  assumes "invar q" "enqueue t q = (True, q')" "may t" "\<forall>u\<in>set (content q). \<not> may u"
  shows "fst (pick may q') = Some t"
proof -
  from assms(1,2) have q': "invar q'" "content q' = content q @ [t]"
    by (auto elim: enqueue_cases[of q t])
  from q'(1) show ?thesis
  proof (cases rule: pick_cases[of q' may])
    case (picked u q'' xs ys)
    then have "u \<in> set (content q')" by simp
    with q'(2) picked(3) assms(4) have "u = t" by auto
    with picked(1) show ?thesis by simp
  next
    case idle
    with q'(2) assms(3) show ?thesis by simp
  qed
qed

end

section \<open>The row refines a list\<close>

definition ClassQueue_content :: "ClassQueue \<Rightarrow> nat list" where
  "ClassQueue_content q = take (cq_count q) (cq_slots q)"

definition ClassQueue_inv :: "ClassQueue \<Rightarrow> bool" where
  "ClassQueue_inv q \<longleftrightarrow> length (cq_slots q) = kReadyQueueCapacity \<and> cq_count q \<le> kReadyQueueCapacity"

lemma ClassQueue_init_inv: "ClassQueue_inv ClassQueue_init" "ClassQueue_content ClassQueue_init = []"
  by (simp_all add: ClassQueue_inv_def ClassQueue_init_def ClassQueue_content_def)

lemma ClassQueue_length: "ClassQueue_inv q \<Longrightarrow> length (ClassQueue_content q) = cq_count q"
  by (simp add: ClassQueue_inv_def ClassQueue_content_def)

lemma ClassQueue_nth: "i < cq_count q \<Longrightarrow> ClassQueue_content q ! i = cq_slots q ! i"
  by (simp add: ClassQueue_content_def)

lemma shift_down:
  assumes "slot \<le> n" "n < length xs"
  shows "length (fold (\<lambda>i xs. xs[i := xs ! (i + 1)]) [slot..<n] xs) = length xs \<and>
    take n (fold (\<lambda>i xs. xs[i := xs ! (i + 1)]) [slot..<n] xs) = take slot xs @ take (n - slot) (drop (slot + 1) xs) \<and>
    drop n (fold (\<lambda>i xs. xs[i := xs ! (i + 1)]) [slot..<n] xs) = drop n xs"
  using assms
proof (induction n)
  case 0
  then show ?case by simp
next
  case (Suc n)
  show ?case
  proof (cases "slot = Suc n")
    case True
    then show ?thesis by simp
  next
    case False
    with Suc.prems have le: "slot \<le> n" "n < length xs" by simp_all
    define ys where "ys = fold (\<lambda>i xs. xs[i := xs ! (i + 1)]) [slot..<n] xs"
    have IH: "length ys = length xs" "drop n ys = drop n xs"
        "take n ys = take slot xs @ take (n - slot) (drop (slot + 1) xs)"
      using Suc.IH[OF le] unfolding ys_def by simp_all
    have step: "fold (\<lambda>i xs. xs[i := xs ! (i + 1)]) [slot..<Suc n] xs = ys[n := ys ! (n + 1)]"
      using le unfolding ys_def by simp
    have at: "ys ! (n + 1) = xs ! (n + 1)"
      using arg_cong[OF IH(2), of "\<lambda>zs. zs ! 1"] IH(1) Suc.prems by simp
    have "take (Suc n) (ys[n := ys ! (n + 1)]) = take n ys @ [xs ! (n + 1)]"
      using le IH(1) at by (simp add: take_Suc_conv_app_nth)
    also have "\<dots> = take slot xs @ take (Suc n - slot) (drop (slot + 1) xs)"
      using IH(3) le Suc.prems by (simp add: Suc_diff_le take_Suc_conv_app_nth)
    moreover have "drop (Suc n) (ys[n := ys ! (n + 1)]) = drop (Suc n) xs"
      using arg_cong[OF IH(2), of "drop 1"] by simp
    ultimately show ?thesis using step IH(1) by simp
  qed
qed

lemma ClassQueue_take_at_spec:
  assumes "ClassQueue_inv q" "slot < cq_count q"
  shows "ClassQueue_inv (snd (ClassQueue_take_at slot q))"
    and "fst (ClassQueue_take_at slot q) = ClassQueue_content q ! slot"
    and "ClassQueue_content (snd (ClassQueue_take_at slot q)) =
      take slot (ClassQueue_content q) @ drop (Suc slot) (ClassQueue_content q)"
proof -
  have fit: "slot \<le> cq_count q - 1" "cq_count q - 1 < length (cq_slots q)"
    using assms by (auto simp: ClassQueue_inv_def)
  note sh = shift_down[OF fit]
  show "ClassQueue_inv (snd (ClassQueue_take_at slot q))"
    using sh assms by (auto simp: ClassQueue_inv_def ClassQueue_take_at_def)
  show "fst (ClassQueue_take_at slot q) = ClassQueue_content q ! slot"
    using assms by (simp add: ClassQueue_take_at_def ClassQueue_nth)
  show "ClassQueue_content (snd (ClassQueue_take_at slot q)) =
      take slot (ClassQueue_content q) @ drop (Suc slot) (ClassQueue_content q)"
    using sh assms by (simp add: ClassQueue_content_def ClassQueue_take_at_def take_drop min_def)
qed

lemma split_at: "i < length xs \<Longrightarrow> xs = take i xs @ xs ! i # drop (Suc i) xs"
  by (rule id_take_nth_drop)

lemma ClassQueue_take_at_split:
  assumes "ClassQueue_inv q" "slot < cq_count q"
  obtains t q' xs ys where "ClassQueue_take_at slot q = (t, q')" "ClassQueue_inv q'"
    "ClassQueue_content q = xs @ t # ys" "ClassQueue_content q' = xs @ ys" "length xs = slot"
    "t = cq_slots q ! slot"
proof -
  obtain t q' where e: "ClassQueue_take_at slot q = (t, q')" by (cases "ClassQueue_take_at slot q")
  have len: "slot < length (ClassQueue_content q)" using assms ClassQueue_length by simp
  show thesis
    using that[OF e] ClassQueue_take_at_spec[OF assms] e split_at[OF len] len ClassQueue_nth[OF assms(2)]
    by (simp add: min_def)
qed

definition best_upto :: "(nat \<Rightarrow> bool) \<Rightarrow> (nat \<Rightarrow> u8) \<Rightarrow> nat \<Rightarrow> nat \<Rightarrow> nat \<Rightarrow> bool" where
  "best_upto may prio none n b \<longleftrightarrow>
     (b = none \<and> (\<forall>i<n. \<not> may i)) \<or>
     (b < n \<and> may b \<and> (\<forall>i<n. may i \<longrightarrow> prio b \<le> prio i) \<and> (\<forall>i<b. may i \<longrightarrow> prio b < prio i))"

lemma best_upto_step:
  assumes "best_upto may prio none n b" "n < none"
  shows "best_upto may prio none (Suc n) (if may n \<and> (b = none \<or> prio n < prio b) then n else b)"
proof (cases "b = none")
  case True
  with assms show ?thesis by (auto simp: best_upto_def less_Suc_eq)
next
  case False
  with assms have b: "b < n" "may b" "\<forall>i<n. may i \<longrightarrow> prio b \<le> prio i" "\<forall>i<b. may i \<longrightarrow> prio b < prio i"
    by (simp_all add: best_upto_def)
  show ?thesis
  proof (cases "may n \<and> prio n < prio b")
    case True
    then have "\<forall>i<n. may i \<longrightarrow> prio n < prio i" using b(3) order.strict_trans2 by blast
    with True False show ?thesis by (simp add: best_upto_def less_Suc_eq order.strict_implies_order)
  next
    case False
    then have "may n \<longrightarrow> prio b \<le> prio n" by (simp add: not_less)
    with False \<open>b \<noteq> none\<close> b show ?thesis by (auto simp: best_upto_def less_Suc_eq)
  qed
qed

lemma best_fold:
  "n \<le> cq_count q \<Longrightarrow> best_upto (\<lambda>i. available (cq_slots q ! i)) (\<lambda>i. priority (cq_slots q ! i)) (cq_count q) n
     (fold (best_step priority available q) [0..<n] (cq_count q))"
proof (induction n)
  case 0
  then show ?case by (simp add: best_upto_def)
next
  case (Suc n)
  then have "n \<le> cq_count q" "n < cq_count q" by simp_all
  from best_upto_step[OF Suc.IH[OF this(1)] this(2)] show ?case
    by (simp add: best_step_def[of priority available q n])
qed

lemma class_pick_cases:
  assumes "ClassQueue_inv q"
  obtains (picked) t q' xs ys where "SchedulingClass_pick cls priority may q = (Some t, q')"
      "ClassQueue_inv q'" "may t" "ClassQueue_content q = xs @ t # ys" "ClassQueue_content q' = xs @ ys"
      "cls = FifoClass \<longrightarrow> (\<forall>u\<in>set xs. \<not> may u)"
      "cls = PriorityClass \<longrightarrow> (\<forall>u\<in>set xs. may u \<longrightarrow> priority t < priority u) \<and>
         (\<forall>u\<in>set ys. may u \<longrightarrow> priority t \<le> priority u)"
    | (idle) "SchedulingClass_pick cls priority may q = (None, q)" "\<forall>t\<in>set (ClassQueue_content q). \<not> may t"
proof (cases cls)
  case FifoClass
  show thesis
  proof (cases "find (\<lambda>slot. may (cq_slots q ! slot)) [0..<cq_count q]")
    case None
    then have "\<forall>t\<in>set (ClassQueue_content q). \<not> may t"
      using assms by (auto simp: find_None_iff in_set_conv_nth ClassQueue_length ClassQueue_nth)
    then show thesis
      using None FifoClass by (intro idle) (simp_all add: SchedulingClass_pick_def ClassQueue_take_front_def)
  next
    case (Some slot)
    then have slot: "slot < cq_count q" "may (cq_slots q ! slot)" "\<forall>i < slot. \<not> may (cq_slots q ! i)"
      by (auto simp: index_simps)
    obtain t q' xs ys where t: "ClassQueue_take_at slot q = (t, q')" "ClassQueue_inv q'"
        "ClassQueue_content q = xs @ t # ys" "ClassQueue_content q' = xs @ ys" "length xs = slot"
        "t = cq_slots q ! slot"
      by (rule ClassQueue_take_at_split[OF assms slot(1)])
    have "\<forall>u\<in>set xs. \<not> may u"
    proof
      fix u assume "u \<in> set xs"
      then obtain i where i: "i < slot" "xs ! i = u" using t(5) by (auto simp: in_set_conv_nth)
      then have "u = cq_slots q ! i"
        using t(3,5) slot(1) ClassQueue_nth[of i q] by (simp add: nth_append)
      with slot(3) i(1) show "\<not> may u" by simp
    qed
    with t slot Some FifoClass show thesis
      by (intro picked[of t q' xs ys]) (simp_all add: SchedulingClass_pick_def ClassQueue_take_front_def)
  qed
next
  case PriorityClass
  define b where "b = fold (best_step priority may q) [0..<cq_count q] (cq_count q)"
  have B: "b = cq_count q \<longrightarrow> (\<forall>i<cq_count q. \<not> may (cq_slots q ! i))"
      "b \<noteq> cq_count q \<longrightarrow> b < cq_count q \<and> may (cq_slots q ! b) \<and>
        (\<forall>i<cq_count q. may (cq_slots q ! i) \<longrightarrow> priority (cq_slots q ! b) \<le> priority (cq_slots q ! i)) \<and>
        (\<forall>i<b. may (cq_slots q ! i) \<longrightarrow> priority (cq_slots q ! b) < priority (cq_slots q ! i))"
    using best_fold[of "cq_count q" q may priority] unfolding b_def best_upto_def by auto
  show thesis
  proof (cases "b = cq_count q")
    case True
    with B(1) assms have "\<forall>t\<in>set (ClassQueue_content q). \<not> may t"
      by (auto simp: in_set_conv_nth ClassQueue_length ClassQueue_nth)
    then show thesis
      using True PriorityClass b_def
      by (intro idle) (simp_all add: SchedulingClass_pick_def ClassQueue_take_best_priority_def)
  next
    case False
    with B(2) have b: "b < cq_count q" "may (cq_slots q ! b)"
        "\<forall>i<cq_count q. may (cq_slots q ! i) \<longrightarrow> priority (cq_slots q ! b) \<le> priority (cq_slots q ! i)"
        "\<forall>i<b. may (cq_slots q ! i) \<longrightarrow> priority (cq_slots q ! b) < priority (cq_slots q ! i)"
      by simp_all
    obtain t q' xs ys where t: "ClassQueue_take_at b q = (t, q')" "ClassQueue_inv q'"
        "ClassQueue_content q = xs @ t # ys" "ClassQueue_content q' = xs @ ys" "length xs = b"
        "t = cq_slots q ! b"
      by (rule ClassQueue_take_at_split[OF assms b(1)])
    have slots: "cq_slots q ! i = (xs @ t # ys) ! i" if "i < cq_count q" for i
      using ClassQueue_nth[OF that] t(3) by simp
    have row_len: "length (xs @ t # ys) = cq_count q" using ClassQueue_length[OF assms] t(3) by simp
    have 1: "\<forall>u\<in>set xs. may u \<longrightarrow> priority t < priority u"
    proof (intro ballI impI)
      fix u assume "u \<in> set xs" "may u"
      then obtain i where "i < b" "xs ! i = u" using t(5) by (auto simp: in_set_conv_nth)
      then show "priority t < priority u"
        using b(1,4) slots[of i] t(5,6) \<open>may u\<close> by (auto simp: nth_append)
    qed
    have 2: "\<forall>u\<in>set ys. may u \<longrightarrow> priority t \<le> priority u"
    proof (intro ballI impI)
      fix u assume "u \<in> set ys" "may u"
      then obtain i where "i < length ys" "ys ! i = u" by (auto simp: in_set_conv_nth)
      then show "priority t \<le> priority u"
        using spec[OF b(3), of "Suc (length xs + i)"] slots[of "Suc (length xs + i)"] row_len t(6) \<open>may u\<close>
        by (auto simp: nth_append)
    qed
    show thesis
      using t b 1 2 False PriorityClass b_def
      by (intro picked[of t q' xs ys]) (simp_all add: SchedulingClass_pick_def ClassQueue_take_best_priority_def)
  qed
qed

lemma class_enqueue_cases:
  assumes "ClassQueue_inv q"
  obtains (seated) q' where "SchedulingClass_enqueue cls t q = (True, q')" "ClassQueue_inv q'"
      "ClassQueue_content q' = ClassQueue_content q @ [t]" "cq_count q < kReadyQueueCapacity"
    | (refused) "SchedulingClass_enqueue cls t q = (False, q)" "cq_count q = kReadyQueueCapacity"
proof (cases "cq_count q = kReadyQueueCapacity")
  case True
  then show thesis
    by (intro refused) (cases cls; simp add: SchedulingClass_enqueue_def ClassQueue_push_def)+
next
  case False
  with assms have lt: "cq_count q < length (cq_slots q)" "cq_count q < kReadyQueueCapacity"
    by (simp_all add: ClassQueue_inv_def)
  show thesis
    using assms False lt
    by (intro seated[of "q\<lparr>cq_slots := (cq_slots q)[cq_count q := t], cq_count := cq_count q + 1\<rparr>"])
      (cases cls; simp add: SchedulingClass_enqueue_def ClassQueue_push_def ClassQueue_inv_def
         ClassQueue_content_def take_Suc_conv_app_nth)+
qed

lemma class_remove_cases:
  assumes "ClassQueue_inv q"
  obtains (taken) q' where "SchedulingClass_remove cls t q = (True, q')" "ClassQueue_inv q'"
      "ClassQueue_content q' = remove1 t (ClassQueue_content q)" "t \<in> set (ClassQueue_content q)"
    | (absent) "SchedulingClass_remove cls t q = (False, q)" "t \<notin> set (ClassQueue_content q)"
proof (cases "find (\<lambda>i. cq_slots q ! i = t) [0..<cq_count q]")
  case None
  then have "t \<notin> set (ClassQueue_content q)"
    using assms by (auto simp: find_None_iff in_set_conv_nth ClassQueue_length ClassQueue_nth)
  with None show thesis
    by (intro absent) (cases cls; simp add: SchedulingClass_remove_def ClassQueue_remove_def)+
next
  case (Some i)
  then have i: "i < cq_count q" "cq_slots q ! i = t" "\<forall>j<i. cq_slots q ! j \<noteq> t"
    by (auto simp: index_simps)
  obtain u q' xs ys where u: "ClassQueue_take_at i q = (u, q')" "ClassQueue_inv q'"
      "ClassQueue_content q = xs @ u # ys" "ClassQueue_content q' = xs @ ys" "length xs = i"
      "u = cq_slots q ! i"
    by (rule ClassQueue_take_at_split[OF assms i(1)])
  have "t \<notin> set xs"
  proof
    assume "t \<in> set xs"
    then obtain j where "j < i" "xs ! j = t" using u(5) by (auto simp: in_set_conv_nth)
    then show False using i(1,3) u(3,5) ClassQueue_nth[of j q] by (auto simp: nth_append)
  qed
  with u i Some show thesis
    by (intro taken[of q']) (cases cls; simp add: SchedulingClass_remove_def ClassQueue_remove_def remove1_append)+
qed

lemma class_ready_row: "ready_row ClassQueue_content ClassQueue_inv kReadyQueueCapacity
    (SchedulingClass_enqueue cls) (SchedulingClass_pick cls priority) (SchedulingClass_remove cls)"
proof (unfold_locales, goal_cases)
  case (1 q t)
  then show ?case
    using ClassQueue_length[OF 1(1)] by (cases rule: class_enqueue_cases[of q cls t]) simp_all
next
  case (2 q t)
  then show ?case
    using ClassQueue_length[OF 2(1)] by (cases rule: class_enqueue_cases[of q cls t]) simp_all
next
  case (3 q may)
  from 3(1) show ?case
  proof (cases rule: class_pick_cases[of q cls priority may])
    case (picked t q' xs ys)
    then show ?thesis by blast
  next
    case idle
    with 3(2) show ?thesis by blast
  qed
next
  case (4 q may)
  from 4(1) show ?case
  proof (cases rule: class_pick_cases[of q cls priority may])
    case (picked t q' xs ys)
    then have "t \<in> set (ClassQueue_content q)" by simp
    with 4(2) picked(3) show ?thesis by blast
  next
    case idle
    then show ?thesis by blast
  qed
next
  case (5 q t)
  then show ?case by (cases rule: class_remove_cases[of q cls t]) simp_all
next
  case (6 q t)
  then show ?case by (cases rule: class_remove_cases[of q cls t]) simp_all
qed

interpretation class_row: ready_row ClassQueue_content ClassQueue_inv kReadyQueueCapacity
  "SchedulingClass_enqueue cls" "SchedulingClass_pick cls priority" "SchedulingClass_remove cls"
  for cls priority
  by (rule class_ready_row)

end
