(* ===== verification/Tasks.thy ===== *)
theory Tasks
  imports SchedClass Vma
begin

text \<open>
  The task block of \<^verbatim>\<open>kernel/proc/task.hpp\<close> (the fields the scheduler, the signal code and the
  futex table use) and the part of \<^verbatim>\<open>kernel/proc/signals.cpp\<close> that works on one task's signal
  state. Register images, file tables and names are left out.
\<close>

section \<open>Signal state\<close>

record SigAction =
  sx_handler :: u64
  sx_flags :: u64
  sx_restorer :: u64
  sx_mask :: u64

definition SigAction_blank :: SigAction where
  "SigAction_blank = \<lparr>sx_handler = 0, sx_flags = 0, sx_restorer = 0, sx_mask = 0\<rparr>"

record SignalState =
  sg_actions :: "SigAction list"
  sg_blocked :: u64
  sg_pending :: u64
  sg_wait_restore :: u64
  sg_wait_restore_pending :: bool

abbreviation kSigKill :: int where "kSigKill \<equiv> 9"
abbreviation kSigUsr1 :: int where "kSigUsr1 \<equiv> 10"
abbreviation kSigSegv :: int where "kSigSegv \<equiv> 11"
abbreviation kSigUsr2 :: int where "kSigUsr2 \<equiv> 12"
abbreviation kSigAlrm :: int where "kSigAlrm \<equiv> 14"
abbreviation kSigChld :: int where "kSigChld \<equiv> 17"
abbreviation kSigCont :: int where "kSigCont \<equiv> 18"
abbreviation kSigStop :: int where "kSigStop \<equiv> 19"
abbreviation kSigTstp :: int where "kSigTstp \<equiv> 20"
abbreviation kSigTtin :: int where "kSigTtin \<equiv> 21"
abbreviation kSigTtou :: int where "kSigTtou \<equiv> 22"
abbreviation kSigWinch :: int where "kSigWinch \<equiv> 28"
abbreviation kSignalCount :: int where "kSignalCount \<equiv> 64"
abbreviation kSignalDefault :: u64 where "kSignalDefault \<equiv> 0"
abbreviation kSignalIgnore :: u64 where "kSignalIgnore \<equiv> 1"
abbreviation kSaRestorer :: u64 where "kSaRestorer \<equiv> 0x04000000"
abbreviation kSaNodefer :: u64 where "kSaNodefer \<equiv> 0x40000000"
abbreviation kSaResethand :: u64 where "kSaResethand \<equiv> 0x80000000"

definition SignalState_init :: SignalState where
  "SignalState_init = \<lparr>sg_actions = replicate (nat kSignalCount) SigAction_blank, sg_blocked = 0,
     sg_pending = 0, sg_wait_restore = 0, sg_wait_restore_pending = False\<rparr>"

definition bit_for :: "int \<Rightarrow> u64" where
  "bit_for number = push_bit (nat (number - 1)) 1"

definition MaskableSignals :: "u64 \<Rightarrow> u64" where
  "MaskableSignals signals = signals AND NOT (push_bit (nat (kSigKill - 1)) 1) AND NOT (push_bit (nat (kSigStop - 1)) 1)"

definition apply_handler_mask :: "SigAction \<Rightarrow> int \<Rightarrow> SignalState \<Rightarrow> SignalState" where
  "apply_handler_mask action number g =
     (let g1 = g\<lparr>sg_blocked := MaskableSignals (sg_blocked g OR sx_mask action)\<rparr> in
      if sx_flags action AND kSaNodefer = 0 then g1\<lparr>sg_blocked := sg_blocked g1 OR bit_for number\<rparr> else g1)"

definition lowest_runnable :: "SignalState \<Rightarrow> int" where
  "lowest_runnable g =
     (let want = sg_pending g AND NOT (sg_blocked g) in
      case List.find (\<lambda>number. want AND bit_for number \<noteq> 0) [1..kSignalCount] of
        Some number \<Rightarrow> number
      | None \<Rightarrow> 0)"

definition stop_class_mask :: u64 where
  "stop_class_mask = bit_for kSigStop OR bit_for kSigTstp OR bit_for kSigTtin OR bit_for kSigTtou"

definition SignalCatchable :: "int \<Rightarrow> bool" where
  "SignalCatchable number \<longleftrightarrow> number \<ge> 1 \<and> number \<le> kSignalCount \<and> number \<noteq> kSigKill \<and> number \<noteq> kSigStop"

definition SignalBlockable :: "int \<Rightarrow> bool" where
  "SignalBlockable number \<longleftrightarrow> number \<ge> 1 \<and> number \<le> kSignalCount \<and> number \<noteq> kSigKill \<and> number \<noteq> kSigStop"

datatype SignalDisposition =
  Disposition_kTerminate | Disposition_kIgnore | Disposition_kContinue | Disposition_kStop

definition DefaultDisposition :: "int \<Rightarrow> SignalDisposition" where
  "DefaultDisposition number =
     (if number = kSigChld \<or> number = kSigUsr1 \<or> number = kSigUsr2 \<or> number = kSigWinch then Disposition_kIgnore
      else if number = kSigCont then Disposition_kContinue
      else if number = kSigStop \<or> number = kSigTstp \<or> number = kSigTtin \<or> number = kSigTtou then Disposition_kStop
      else Disposition_kTerminate)"

definition SignalState_reset :: "SignalState \<Rightarrow> SignalState" where
  "SignalState_reset g =
     g\<lparr>sg_actions := map (\<lambda>_. SigAction_blank) (sg_actions g), sg_blocked := 0, sg_pending := 0,
       sg_wait_restore := 0, sg_wait_restore_pending := False\<rparr>"

section \<open>The task block\<close>

datatype TaskState = kReady | kRunning | kBlocked | kStopped | kZombie | kDead

text \<open>\<open>tk_vmas\<close> is the register of the task's world where it holds one; \<open>tk_space\<close> says that
  \<^verbatim>\<open>space.holds()\<close>; \<open>tk_vfork_done\<close> names a completion.\<close>

record Task =
  tk_on_cpu :: int
  tk_vfork_done :: "nat option"
  tk_state :: TaskState
  tk_pid :: u64
  tk_tgid :: u64
  tk_pgid :: u64
  tk_sid :: u64
  tk_parent :: "nat option"
  tk_exit_code :: int
  tk_space :: bool
  tk_vmas :: "VmaStore option"
  tk_priority :: u8
  tk_class :: "SchedulingClass option"
  tk_signals :: SignalState
  tk_real_deadline_ns :: u64
  tk_real_interval_ns :: u64
  tk_clear_child_tid :: u64
  tk_futex_uaddr :: u64

definition HasPendingSignal :: "Task \<Rightarrow> bool" where
  "HasPendingSignal task \<longleftrightarrow> sg_pending (tk_signals task) AND NOT (sg_blocked (tk_signals task)) \<noteq> 0"

definition FinishSignalWait :: "u64 \<Rightarrow> Task \<Rightarrow> Task" where
  "FinishSignalWait restore task =
     (if HasPendingSignal task
      then task\<lparr>tk_signals := (tk_signals task)\<lparr>sg_wait_restore := restore, sg_wait_restore_pending := True\<rparr>\<rparr>
      else task\<lparr>tk_signals := (tk_signals task)\<lparr>sg_blocked := restore\<rparr>\<rparr>)"

definition state_letter :: "TaskState \<Rightarrow> char" where
  "state_letter state =
     (case state of kRunning \<Rightarrow> CHR ''R'' | kReady \<Rightarrow> CHR ''R'' | kBlocked \<Rightarrow> CHR ''S''
                  | kStopped \<Rightarrow> CHR ''T'' | kZombie \<Rightarrow> CHR ''Z'' | kDead \<Rightarrow> CHR ''Z'')"

section \<open>Picking a signal\<close>

lemma bit_for_bit: "1 \<le> number \<Longrightarrow> number \<le> kSignalCount \<Longrightarrow> w AND bit_for number \<noteq> 0 \<longleftrightarrow> bit w (nat (number - 1))"
proof -
  assume n: "1 \<le> number" "number \<le> kSignalCount"
  then have lt: "nat (number - 1) < 64" by simp
  have "w AND bit_for number = (if bit w (nat (number - 1)) then bit_for number else 0)"
    by (rule bit_word_eqI) (auto simp: bit_for_def bit_simps)
  moreover have "bit_for number \<noteq> 0"
    using lt by (auto simp: bit_for_def bit_eq_iff bit_simps intro!: exI[of _ "nat (number - 1)"])
  ultimately show ?thesis by simp
qed

text \<open>\<open>lowest_runnable\<close> answers the least number whose signal is pending and not held back.\<close>

lemma lowest_runnable_cases:
  obtains (none) "lowest_runnable g = 0" "sg_pending g AND NOT (sg_blocked g) = 0"
    | (some) n where "lowest_runnable g = n" "1 \<le> n" "n \<le> kSignalCount" "bit (sg_pending g) (nat (n - 1))"
        "\<not> bit (sg_blocked g) (nat (n - 1))"
        "\<forall>i. 1 \<le> i \<and> i < n \<longrightarrow> \<not> (bit (sg_pending g) (nat (i - 1)) \<and> \<not> bit (sg_blocked g) (nat (i - 1)))"
proof (cases "List.find (\<lambda>number. (sg_pending g AND NOT (sg_blocked g)) AND bit_for number \<noteq> 0) [1..kSignalCount]")
  case None
  have "\<not> bit (sg_pending g AND NOT (sg_blocked g)) k" if "k < 64" for k
    using None bit_for_bit[of "int k + 1" "sg_pending g AND NOT (sg_blocked g)"] that
    by (auto simp: find_None_iff)
  then have "sg_pending g AND NOT (sg_blocked g) = 0" by (intro bit_word_eqI) auto
  with None show thesis by (intro none) (simp_all add: lowest_runnable_def)
next
  case (Some n)
  then obtain i where i: "i < length [1..kSignalCount]" "n = [1..kSignalCount] ! i"
      "(sg_pending g AND NOT (sg_blocked g)) AND bit_for n \<noteq> 0"
      "\<forall>j<i. \<not> (sg_pending g AND NOT (sg_blocked g)) AND bit_for ([1..kSignalCount] ! j) \<noteq> 0"
    by (auto simp: find_Some_iff)
  then have n: "n = int i + 1" "i < 64" by (simp_all add: nth_upto del: upto_rec_numeral)
  have least: "\<not> bit (sg_pending g AND NOT (sg_blocked g)) j" if "j < i" for j
    using i(4) that n(2) bit_for_bit[of "1 + int j" "sg_pending g AND NOT (sg_blocked g)"]
    by (auto simp: nth_upto simp del: upto_rec_numeral)
  have low: "\<not> (bit (sg_pending g) (nat (j - 1)) \<and> \<not> bit (sg_blocked g) (nat (j - 1)))"
    if "1 \<le> j" "j < n" for j
  proof -
    have "nat (j - 1) < i" using that n(1) by linarith
    from least[OF this] show ?thesis using that n by (auto simp: bit_simps)
  qed
  have at: "bit (sg_pending g AND NOT (sg_blocked g)) i"
    using i(3) n bit_for_bit[of n "sg_pending g AND NOT (sg_blocked g)"] by simp
  show thesis
  proof (rule some[of n])
    show "lowest_runnable g = n" using Some by (simp add: lowest_runnable_def)
    show "1 \<le> n" "n \<le> kSignalCount" using n by simp_all
    show "bit (sg_pending g) (nat (n - 1))" "\<not> bit (sg_blocked g) (nat (n - 1))"
      using at n by (simp_all add: bit_simps)
  qed (use low in blast)
qed

lemma bit_single: "bit (push_bit n 1 :: u64) i \<longleftrightarrow> i = n \<and> i < 64"
  by (auto simp: bit_simps)

lemma MaskableSignals_bits:
  "bit (MaskableSignals w) i \<longleftrightarrow> bit w i \<and> i \<noteq> 8 \<and> i \<noteq> 18"
  unfolding MaskableSignals_def bit_and_iff bit_not_iff bit_single
  by (auto dest: bit_imp_le_length)

end
