(* ===== verification/Sched.thy ===== *)
theory Sched
  imports Tasks Containers "HOL-Library.Monad_Syntax"
begin

text \<open>
  The scheduler of \<^verbatim>\<open>kernel/proc/scheduler.cpp\<close> with what it calls and what calls back into it: the
  context-switch sink of \<^verbatim>\<open>kernel/proc/task_runtime.cpp\<close>, \<^verbatim>\<open>Completion::finish\<close> of
  \<^verbatim>\<open>kernel/proc/sync.cpp\<close>, the futex table of \<^verbatim>\<open>kernel/proc/futex.cpp\<close> and the signal delivery of
  \<^verbatim>\<open>kernel/proc/signals.cpp\<close>. One record holds the whole process world; an operation takes the
  processor \<open>c\<close> that executes it. \<open>None\<close> is a failed \<^verbatim>\<open>Check\<close>, a null dereference or a wait that
  does not end. What follows a context switch in the source runs when the task is switched to
  again, so an operation ends at its switch.
\<close>

section \<open>State\<close>

record PerCpu =
  pc_current :: "nat option"
  pc_stack :: "nat option"
  pc_pending_reap :: "nat option"
  pc_slice_ticks :: u32
  pc_preempt_depth :: u32
  pc_no_reschedule_depth :: u32
  pc_queue_depth :: u32
  pc_rotate_due :: bool
  pc_notify_pending :: bool

text \<open>\<open>pc_stack\<close> is the stack register: the task whose stack the processor executes on, \<open>None\<close>
  for the main context.\<close>

datatype CompletionState = Completion_kPending | Completion_kSuccess | Completion_kFailed

record Completion =
  cm_state :: CompletionState
  cm_waiters :: "nat list"

definition Completion_init :: Completion where
  "Completion_init = \<lparr>cm_state = Completion_kPending, cm_waiters = []\<rparr>"

text \<open>What leaves the scheduler: interprocessor notices, reclaimed tasks, dropped file tables,
  and copies of a word to a user address, whose answer the caller ignores.\<close>

datatype SchedEvent =
    NotifyRunnable nat
  | Reclaimed nat
  | FilesReset nat
  | UserWord nat u64 u32

record Scheduler =
  sc_task :: "nat \<Rightarrow> Task"
  sc_cpu :: "nat \<Rightarrow> PerCpu"
  sc_row :: "SchedulingClass \<Rightarrow> ClassQueue"
  sc_classes :: "SchedulingClass StaticStack"
  sc_offspring :: "nat list"
  sc_tasks :: "nat list"
  sc_retired :: "nat list"
  sc_waiters :: "nat list"
  sc_next_pid :: u64
  sc_ready_refusals :: u64
  sc_preemption :: bool
  sc_next_real_deadline_ns :: u64
  sc_sink :: bool
  sc_completion :: "nat \<Rightarrow> Completion"
  sc_buckets :: "nat \<Rightarrow> nat list"
  sc_events :: "SchedEvent list"

definition kMaxSchedulingClasses :: nat where
  "kMaxSchedulingClasses = 4"

definition on_task :: "nat \<Rightarrow> (Task \<Rightarrow> Task) \<Rightarrow> Scheduler \<Rightarrow> Scheduler" where
  "on_task t f s = s\<lparr>sc_task := (sc_task s)(t := f (sc_task s t))\<rparr>"

definition on_cpu :: "nat \<Rightarrow> (PerCpu \<Rightarrow> PerCpu) \<Rightarrow> Scheduler \<Rightarrow> Scheduler" where
  "on_cpu c f s = s\<lparr>sc_cpu := (sc_cpu s)(c := f (sc_cpu s c))\<rparr>"

definition emit :: "SchedEvent \<Rightarrow> Scheduler \<Rightarrow> Scheduler" where
  "emit e s = s\<lparr>sc_events := sc_events s @ [e]\<rparr>"

abbreviation set_state :: "nat \<Rightarrow> TaskState \<Rightarrow> Scheduler \<Rightarrow> Scheduler" where
  "set_state t v \<equiv> on_task t (tk_state_update (\<lambda>_. v))"

abbreviation refuse :: "Scheduler \<Rightarrow> Scheduler" where
  "refuse s \<equiv> s\<lparr>sc_ready_refusals := sc_ready_refusals s + 1\<rparr>"

abbreviation notify_later :: "nat \<Rightarrow> Scheduler \<Rightarrow> Scheduler" where
  "notify_later c \<equiv> on_cpu c (pc_notify_pending_update (\<lambda>_. True))"

abbreviation cur :: "nat \<Rightarrow> Scheduler \<Rightarrow> nat option" where
  "cur c s \<equiv> pc_current (sc_cpu s c)"

section \<open>The queue guard\<close>

definition Queue_enter :: "nat \<Rightarrow> Scheduler \<Rightarrow> Scheduler" where
  "Queue_enter c s = on_cpu c (pc_queue_depth_update (\<lambda>d. d + 1)) s"

definition Queue_exit :: "nat \<Rightarrow> Scheduler \<Rightarrow> Scheduler" where
  "Queue_exit c s =
     (let s1 = on_cpu c (pc_queue_depth_update (\<lambda>d. d - 1)) s in
      if pc_queue_depth (sc_cpu s1 c) = 0 then
        let s2 = on_cpu c (pc_notify_pending_update (\<lambda>_. False)) s1 in
        if pc_notify_pending (sc_cpu s1 c) then emit (NotifyRunnable c) s2 else s2
      else s1)"

section \<open>Classes and rows\<close>

definition Scheduler_install_class :: "nat \<Rightarrow> SchedulingClass \<Rightarrow> Scheduler \<Rightarrow> Scheduler option" where
  "Scheduler_install_class c cls s =
     (let s1 = Queue_enter c s in
      if cls \<in> set (StaticStack_view (sc_classes s1)) then Some (Queue_exit c s1)
      else let (stored, classes) = StaticStack_push cls (sc_classes s1) in
           Check stored (Some (Queue_exit c (s1\<lparr>sc_classes := classes\<rparr>))))"

definition row_enqueue :: "nat \<Rightarrow> Scheduler \<Rightarrow> (bool \<times> Scheduler) option" where
  "row_enqueue t s =
     (case tk_class (sc_task s t) of
        None \<Rightarrow> None
      | Some cls \<Rightarrow>
          let (seated, row) = SchedulingClass_enqueue cls t (sc_row s cls) in
          Some (seated, s\<lparr>sc_row := (sc_row s)(cls := row)\<rparr>))"

definition row_available :: "nat \<Rightarrow> Scheduler \<Rightarrow> nat \<Rightarrow> bool" where
  "row_available c s t \<longleftrightarrow> tk_on_cpu (sc_task s t) = -1 \<or> tk_on_cpu (sc_task s t) = int c"

definition class_pick :: "nat \<Rightarrow> SchedulingClass \<Rightarrow> Scheduler \<Rightarrow> nat option \<times> Scheduler" where
  "class_pick c cls s =
     (let (chosen, row) = SchedulingClass_pick cls (\<lambda>t. tk_priority (sc_task s t)) (row_available c s) (sc_row s cls)
      in (chosen, s\<lparr>sc_row := (sc_row s)(cls := row)\<rparr>))"

fun pick_among :: "nat \<Rightarrow> SchedulingClass list \<Rightarrow> Scheduler \<Rightarrow> nat option \<times> Scheduler" where
  "pick_among c [] s = (None, s)"
| "pick_among c (cls # rest) s =
     (case class_pick c cls s of
        (Some next, s') \<Rightarrow> (Some next, s')
      | (None, s') \<Rightarrow> pick_among c rest s')"

definition Scheduler_pick_next :: "nat \<Rightarrow> Scheduler \<Rightarrow> nat option \<times> Scheduler" where
  "Scheduler_pick_next c s = pick_among c (StaticStack_view (sc_classes s)) s"

definition Scheduler_set_current :: "nat \<Rightarrow> nat option \<Rightarrow> Scheduler \<Rightarrow> Scheduler" where
  "Scheduler_set_current c t = on_cpu c (pc_current_update (\<lambda>_. t))"

text \<open>The pieces of \<^verbatim>\<open>seat\<close>: the class, the number, and the entry into the registry.\<close>

definition seat_class :: "nat \<Rightarrow> Scheduler \<Rightarrow> Scheduler" where
  "seat_class t s =
     (if tk_class (sc_task s t) = None
      then on_task t (tk_class_update (\<lambda>_. Some (hd (StaticStack_view (sc_classes s))))) s else s)"

definition seat_number :: "nat \<Rightarrow> bool \<Rightarrow> Scheduler \<Rightarrow> Scheduler" where
  "seat_number t initial_process s =
     (if initial_process
      then let s' = on_task t (tk_pid_update (\<lambda>_. 1)) s in
           if sc_next_pid s' = 1 then s'\<lparr>sc_next_pid := sc_next_pid s' + 1\<rparr> else s'
      else (on_task t (tk_pid_update (\<lambda>_. sc_next_pid s)) s)\<lparr>sc_next_pid := sc_next_pid s + 1\<rparr>)"

definition seat_register :: "nat \<Rightarrow> Scheduler \<Rightarrow> Scheduler" where
  "seat_register t s =
     (let s1 = set_state t kBlocked (on_task t (\<lambda>k. k\<lparr>tk_tgid := tk_pid k\<rparr>) s);
          s2 = s1\<lparr>sc_tasks := sc_tasks s1 @ [t]\<rparr>
      in if tk_parent (sc_task s2 t) \<noteq> None then s2\<lparr>sc_offspring := sc_offspring s2 @ [t]\<rparr> else s2)"

definition Scheduler_seat :: "nat \<Rightarrow> nat \<Rightarrow> bool \<Rightarrow> bool \<Rightarrow> Scheduler \<Rightarrow> (bool \<times> Scheduler) option" where
  "Scheduler_seat c t runnable initial_process s =
     (let s1 = Queue_enter c s in
      Check (sc_sink s1) (Check (\<not> StaticStack_empty (sc_classes s1))
       (let s2 = seat_class t s1 in
        Check (\<exists>cls\<in>set (StaticStack_view (sc_classes s2)). tk_class (sc_task s2 t) = Some cls)
        (Check (initial_process \<longrightarrow> (\<forall>scan\<in>set (sc_tasks s2). tk_pid (sc_task s2 scan) \<noteq> 1))
         (let s3 = seat_register t (seat_number t initial_process s2) in
          if runnable then do {
            (seated, s4) \<leftarrow> row_enqueue t s3;
            if \<not> seated then Some (False, Queue_exit c (refuse s4))
            else Some (True, Queue_exit c (notify_later c (set_state t kReady s4)))
          } else Some (True, Queue_exit c s3))))))"

section \<open>The switch sink\<close>

text \<open>The store to \<^verbatim>\<open>incoming.on_cpu\<close>, then \<^verbatim>\<open>ContextSwitch\<close>: the outgoing image is saved, its
  \<^verbatim>\<open>on_cpu\<close> released, and the stack register loaded from the incoming image.\<close>

definition arm_incoming :: "nat \<Rightarrow> nat \<Rightarrow> Scheduler \<Rightarrow> Scheduler" where
  "arm_incoming c incoming = on_task incoming (tk_on_cpu_update (\<lambda>_. int c))"

definition ContextSwitch :: "nat \<Rightarrow> nat option \<Rightarrow> nat option \<Rightarrow> Scheduler \<Rightarrow> Scheduler" where
  "ContextSwitch c released loaded s =
     (let s1 = (case released of None \<Rightarrow> s | Some t \<Rightarrow> on_task t (tk_on_cpu_update (\<lambda>_. -1)) s)
      in on_cpu c (pc_stack_update (\<lambda>_. loaded)) s1)"

definition Sink_switch_tasks :: "nat \<Rightarrow> nat \<Rightarrow> nat \<Rightarrow> Scheduler \<Rightarrow> Scheduler" where
  "Sink_switch_tasks c outgoing incoming s =
     ContextSwitch c (Some outgoing) (Some incoming) (arm_incoming c incoming s)"

definition Sink_enter_from_main :: "nat \<Rightarrow> nat \<Rightarrow> Scheduler \<Rightarrow> Scheduler" where
  "Sink_enter_from_main c incoming s = ContextSwitch c None (Some incoming) (arm_incoming c incoming s)"

definition Sink_return_to_main :: "nat \<Rightarrow> nat \<Rightarrow> Scheduler \<Rightarrow> Scheduler" where
  "Sink_return_to_main c outgoing s = ContextSwitch c (Some outgoing) None s"

text \<open>\<^verbatim>\<open>reclaim\<close> spins until the task is off every processor, then frees its stack and block.\<close>

definition Sink_reclaim :: "nat \<Rightarrow> Scheduler \<Rightarrow> Scheduler option" where
  "Sink_reclaim t s = (if tk_on_cpu (sc_task s t) \<noteq> -1 then None else Some (emit (Reclaimed t) s))"

section \<open>Parking and waking\<close>

definition Scheduler_prepare_to_wait :: "nat \<Rightarrow> Scheduler \<Rightarrow> Scheduler option" where
  "Scheduler_prepare_to_wait c s =
     (let s1 = Queue_enter c s in
      case cur c s1 of
        None \<Rightarrow> None
      | Some self \<Rightarrow> Some (Queue_exit c (set_state self kBlocked s1)))"

text \<open>The locked part of \<^verbatim>\<open>schedule_blocked\<close>: who runs next.\<close>

definition pick_blocked :: "nat \<Rightarrow> Scheduler \<Rightarrow> nat option \<times> Scheduler" where
  "pick_blocked c s =
     (let (next, s1) = Scheduler_pick_next c (Queue_enter c s);
          s2 = Scheduler_set_current c next s1;
          s3 = (case next of None \<Rightarrow> s2 | Some t \<Rightarrow> set_state t kRunning s2)
      in (next, Queue_exit c (on_cpu c (pc_slice_ticks_update (\<lambda>_. 0)) s3)))"

text \<open>Where the outgoing task goes: nowhere, to the next task, or to the main context.\<close>

definition leave :: "nat \<Rightarrow> nat \<Rightarrow> nat option \<Rightarrow> Scheduler \<Rightarrow> Scheduler" where
  "leave c prev next s =
     (if next = Some prev then s
      else case next of
             Some t \<Rightarrow> Sink_switch_tasks c prev t s
           | None \<Rightarrow> Sink_return_to_main c prev s)"

definition Scheduler_schedule_blocked :: "nat \<Rightarrow> nat \<Rightarrow> Scheduler \<Rightarrow> Scheduler option" where
  "Scheduler_schedule_blocked c spin_depth s =
     (if pc_no_reschedule_depth (sc_cpu s c) \<noteq> 0 then Some s
      else Check (spin_depth = 0)
        (let (next, s1) = pick_blocked c s in
         case cur c s of
           None \<Rightarrow> if next = None then Some s1 else None
         | Some prev \<Rightarrow> Some (leave c prev next s1)))"

definition Scheduler_park_current :: "nat \<Rightarrow> nat \<Rightarrow> Scheduler \<Rightarrow> Scheduler option" where
  "Scheduler_park_current c spin_depth s = do {
     s1 \<leftarrow> Scheduler_prepare_to_wait c s;
     Scheduler_schedule_blocked c spin_depth s1
   }"

definition Scheduler_block_current :: "nat \<Rightarrow> nat \<Rightarrow> Scheduler \<Rightarrow> Scheduler option" where
  "Scheduler_block_current c spin_depth s = Check (spin_depth = 0) (Scheduler_park_current c spin_depth s)"

definition Scheduler_unblock :: "nat \<Rightarrow> nat \<Rightarrow> Scheduler \<Rightarrow> Scheduler option" where
  "Scheduler_unblock c t s =
     (let s1 = Queue_enter c s in
      if tk_state (sc_task s1 t) \<noteq> kBlocked then Some (Queue_exit c s1)
      else do {
        (seated, s2) \<leftarrow> row_enqueue t s1;
        if \<not> seated then Some (Queue_exit c (refuse s2))
        else Some (Queue_exit c (notify_later c (set_state t kReady s2)))
      })"

definition mark_stopped :: "nat \<Rightarrow> nat \<Rightarrow> Scheduler \<Rightarrow> Scheduler option" where
  "mark_stopped c spin_depth s =
     (case cur c s of
        None \<Rightarrow> None
      | Some self \<Rightarrow> Check (spin_depth = 0) (Some (Queue_exit c (set_state self kStopped (Queue_enter c s)))))"

definition Scheduler_stop_current :: "nat \<Rightarrow> nat \<Rightarrow> Scheduler \<Rightarrow> Scheduler option" where
  "Scheduler_stop_current c spin_depth s = do {
     s1 \<leftarrow> mark_stopped c spin_depth s;
     Scheduler_schedule_blocked c spin_depth s1
   }"

definition Scheduler_resume :: "nat \<Rightarrow> nat \<Rightarrow> Scheduler \<Rightarrow> Scheduler option" where
  "Scheduler_resume c t s =
     (let s1 = Queue_enter c s in
      Check (tk_state (sc_task s1 t) = kStopped) (do {
        (seated, s2) \<leftarrow> row_enqueue t s1;
        if \<not> seated then Some (Queue_exit c (refuse s2))
        else Some (Queue_exit c (notify_later c (set_state t kReady s2)))
      }))"

definition Scheduler_withdraw :: "nat \<Rightarrow> nat \<Rightarrow> Scheduler \<Rightarrow> (bool \<times> Scheduler) option" where
  "Scheduler_withdraw c t s =
     (let s1 = Queue_enter c s in
      if tk_state (sc_task s1 t) \<noteq> kReady then Some (False, Queue_exit c s1)
      else case tk_class (sc_task s1 t) of
             None \<Rightarrow> None
           | Some cls \<Rightarrow>
               let (found, row) = SchedulingClass_remove cls t (sc_row s1 cls) in
               Check found (Some (True, Queue_exit c (set_state t kStopped (s1\<lparr>sc_row := (sc_row s1)(cls := row)\<rparr>)))))"

section \<open>Rotation and preemption\<close>

text \<open>The first locked part of \<^verbatim>\<open>yield\<close> and \<^verbatim>\<open>maybe_preempt\<close>: back to the row, or keep running.\<close>

definition requeue_self :: "nat \<Rightarrow> nat \<Rightarrow> Scheduler \<Rightarrow> (bool \<times> Scheduler) option" where
  "requeue_self c self s = do {
     (seated, s1) \<leftarrow> row_enqueue self (Queue_enter c s);
     if seated then Some (True, Queue_exit c (set_state self kReady s1))
     else Some (False, Queue_exit c (refuse s1))
   }"

text \<open>The locked part of \<^verbatim>\<open>rotate_from_interrupt\<close>.\<close>

definition pick_rotation :: "nat \<Rightarrow> Scheduler \<Rightarrow> (nat \<times> Scheduler) option" where
  "pick_rotation c s =
     (case Scheduler_pick_next c (Queue_enter c s) of
        (None, _) \<Rightarrow> None
      | (Some next, s1) \<Rightarrow>
          Some (next, on_cpu c (pc_slice_ticks_update (\<lambda>_. 0))
                  (Queue_exit c (set_state next kRunning (Scheduler_set_current c (Some next) s1)))))"

definition Scheduler_rotate_from_interrupt :: "nat \<Rightarrow> nat \<Rightarrow> Scheduler \<Rightarrow> Scheduler option" where
  "Scheduler_rotate_from_interrupt c prev s = do {
     (next, s1) \<leftarrow> pick_rotation c s;
     Some (leave c prev (Some next) s1)
   }"

definition Scheduler_yield :: "nat \<Rightarrow> Scheduler \<Rightarrow> Scheduler option" where
  "Scheduler_yield c s =
     (case cur c s of
        None \<Rightarrow> None
      | Some prev \<Rightarrow> do {
          (rotated, s1) \<leftarrow> requeue_self c prev s;
          if rotated then Scheduler_rotate_from_interrupt c prev s1 else Some s1
        })"

definition Scheduler_maybe_preempt :: "nat \<Rightarrow> nat \<Rightarrow> Scheduler \<Rightarrow> Scheduler option" where
  "Scheduler_maybe_preempt c spin_depth s =
     (if \<not> pc_rotate_due (sc_cpu s c) \<or> cur c s = None \<or> \<not> sc_preemption s \<or>
         pc_preempt_depth (sc_cpu s c) \<noteq> 0 \<or> spin_depth \<noteq> 0 \<or> pc_queue_depth (sc_cpu s c) \<noteq> 0
      then Some s
      else let self = the (cur c s) in do {
        (rotated, s1) \<leftarrow> requeue_self c self (on_cpu c (pc_rotate_due_update (\<lambda>_. False)) s);
        if rotated then Scheduler_rotate_from_interrupt c self s1 else Some s1
      })"

definition Scheduler_set_preemption :: "nat \<Rightarrow> bool \<Rightarrow> Scheduler \<Rightarrow> Scheduler" where
  "Scheduler_set_preemption c enabled s =
     on_cpu c (\<lambda>p. p\<lparr>pc_slice_ticks := 0, pc_rotate_due := False\<rparr>) (s\<lparr>sc_preemption := enabled\<rparr>)"

definition Scheduler_preempt_disable :: "nat \<Rightarrow> Scheduler \<Rightarrow> Scheduler" where
  "Scheduler_preempt_disable c = on_cpu c (pc_preempt_depth_update (\<lambda>d. d + 1))"

definition Scheduler_preempt_enable :: "nat \<Rightarrow> Scheduler \<Rightarrow> Scheduler option" where
  "Scheduler_preempt_enable c s =
     Check (pc_preempt_depth (sc_cpu s c) \<noteq> 0) (Some (on_cpu c (pc_preempt_depth_update (\<lambda>d. d - 1)) s))"

section \<open>Real timers\<close>

definition Scheduler_real_timer ::
  "nat \<Rightarrow> nat \<Rightarrow> u64 \<Rightarrow> u64 \<times> u64 \<Rightarrow> bool \<Rightarrow> Scheduler \<Rightarrow> (u64 \<times> u64) \<times> Scheduler" where
  "Scheduler_real_timer c t now_ns timer replace s =
     (let s0 = Queue_enter c s;
          owner = (case List.find (\<lambda>scan. tk_pid (sc_task s0 scan) = tk_tgid (sc_task s0 t)) (sc_tasks s0) of
                     Some scan \<Rightarrow> scan | None \<Rightarrow> t);
          deadline = tk_real_deadline_ns (sc_task s0 owner);
          old_value = (if deadline \<noteq> 0 then (if deadline > now_ns then deadline - now_ns else 1) else 0);
          old_interval = tk_real_interval_ns (sc_task s0 owner);
          s1 = (if replace then
                  let s' = on_task owner (\<lambda>k. k\<lparr>tk_real_deadline_ns := (if fst timer = 0 then 0 else now_ns + fst timer),
                                               tk_real_interval_ns := snd timer\<rparr>) s0;
                      d = tk_real_deadline_ns (sc_task s' owner) in
                  if d \<noteq> 0 \<and> d < sc_next_real_deadline_ns s' then s'\<lparr>sc_next_real_deadline_ns := d\<rparr> else s'
                else s0)
      in ((old_value, old_interval), Queue_exit c s1))"

definition timer_fire :: "u64 \<Rightarrow> Task \<Rightarrow> Task" where
  "timer_fire now_ns k =
     (let k1 = (if tk_real_interval_ns k = 0 then k\<lparr>tk_real_deadline_ns := 0\<rparr>
                else let tail = (now_ns - tk_real_deadline_ns k) mod tk_real_interval_ns k;
                         delay = tk_real_interval_ns k - tail in
                     k\<lparr>tk_real_deadline_ns := (if delay > NOT 0 - now_ns then 0 else now_ns + delay)\<rparr>);
          g = tk_signals k1 in
      if sx_handler (sg_actions g ! nat (kSigAlrm - 1)) \<noteq> kSignalIgnore
      then k1\<lparr>tk_signals := g\<lparr>sg_pending := sg_pending g OR bit_for kSigAlrm\<rparr>\<rparr> else k1)"

definition timer_scan :: "u64 \<Rightarrow> nat \<Rightarrow> u64 \<times> Scheduler \<Rightarrow> u64 \<times> Scheduler" where
  "timer_scan now_ns t = (\<lambda>(next, s).
     (let k = sc_task s t in
      if tk_state k = kDead \<or> tk_state k = kZombie \<or> tk_real_deadline_ns k = 0 then (next, s)
      else let s1 = (if tk_real_deadline_ns k \<le> now_ns then on_task t (timer_fire now_ns) s else s);
               d = tk_real_deadline_ns (sc_task s1 t) in
           (if d \<noteq> 0 \<and> d < next then d else next, s1)))"

definition Scheduler_expire_real_timers :: "nat \<Rightarrow> u64 \<Rightarrow> Scheduler \<Rightarrow> Scheduler" where
  "Scheduler_expire_real_timers c now_ns s =
     (let s0 = Queue_enter c s;
          (next, s1) = fold (timer_scan now_ns) (sc_tasks s0) (NOT 0, s0)
      in Queue_exit c (s1\<lparr>sc_next_real_deadline_ns := next\<rparr>))"

definition Scheduler_on_timer_tick :: "nat \<Rightarrow> u64 \<Rightarrow> Scheduler \<Rightarrow> Scheduler option" where
  "Scheduler_on_timer_tick c now_ns s =
     (let s1 = (if now_ns \<ge> sc_next_real_deadline_ns s then Scheduler_expire_real_timers c now_ns s else s) in
      case cur c s1 of
        None \<Rightarrow> Some s1
      | Some self \<Rightarrow>
          if \<not> sc_preemption s1 then Some s1
          else case tk_class (sc_task s1 self) of
                 None \<Rightarrow> None
               | Some cls \<Rightarrow>
                   let s2 = on_cpu c (pc_slice_ticks_update (\<lambda>n. n + 1)) s1 in
                   if SchedulingClass_wants_rotate cls (pc_slice_ticks (sc_cpu s2 c))
                   then Some (on_cpu c (\<lambda>p. p\<lparr>pc_slice_ticks := 0, pc_rotate_due := True\<rparr>) s2)
                   else Some s2)"

end
