(* ===== verification/Sched_Life.thy ===== *)
theory Sched_Life
  imports Sched
begin

text \<open>
  The life and death of tasks: completions, the futex table, signals, exit, waiting for children
  and the main loop, on the process world of theory \<open>Sched\<close>.
\<close>

section \<open>Completions\<close>

abbreviation on_completion :: "nat \<Rightarrow> (Completion \<Rightarrow> Completion) \<Rightarrow> Scheduler \<Rightarrow> Scheduler" where
  "on_completion d f s \<equiv> s\<lparr>sc_completion := (sc_completion s)(d := f (sc_completion s d))\<rparr>"

text \<open>\<^verbatim>\<open>waiters_.pop_head()\<close> and the wake-up of what it answers.\<close>

definition Completion_finish :: "nat \<Rightarrow> bool \<Rightarrow> nat \<Rightarrow> Scheduler \<Rightarrow> (bool \<times> Scheduler) option" where
  "Completion_finish c success d s =
     (if cm_state (sc_completion s d) \<noteq> Completion_kPending then Some (False, s)
      else let s1 = on_completion d (cm_state_update (\<lambda>_. if success then Completion_kSuccess else Completion_kFailed)) s
           in case cm_waiters (sc_completion s1 d) of
                [] \<Rightarrow> Some (True, s1)
              | t # rest \<Rightarrow> do {
                  s2 \<leftarrow> Scheduler_unblock c t (on_completion d (cm_waiters_update (\<lambda>_. rest)) s1);
                  Some (True, s2)
                })"

text \<open>The locked part of \<^verbatim>\<open>wait\<close>: a verdict at once, or the task is parked on the list.\<close>

definition Completion_wait_start :: "nat \<Rightarrow> nat \<Rightarrow> Scheduler \<Rightarrow> (bool option \<times> Scheduler) option" where
  "Completion_wait_start c d s =
     (if cm_state (sc_completion s d) \<noteq> Completion_kPending
      then Some (Some (cm_state (sc_completion s d) = Completion_kSuccess), s)
      else case cur c s of
             None \<Rightarrow> None
           | Some self \<Rightarrow> do {
               s1 \<leftarrow> Scheduler_prepare_to_wait c (on_completion d (cm_waiters_update (\<lambda>w. w @ [self])) s);
               Some (None, s1)
             })"

definition Completion_finished :: "nat \<Rightarrow> Scheduler \<Rightarrow> bool" where
  "Completion_finished d s \<longleftrightarrow> cm_state (sc_completion s d) \<noteq> Completion_kPending"

definition Completion_success :: "nat \<Rightarrow> Scheduler \<Rightarrow> bool" where
  "Completion_success d s \<longleftrightarrow> cm_state (sc_completion s d) = Completion_kSuccess"

definition Completion_rearm :: "nat \<Rightarrow> Scheduler \<Rightarrow> Scheduler option" where
  "Completion_rearm d s =
     Check (cm_waiters (sc_completion s d) = []) (Some (on_completion d (cm_state_update (\<lambda>_. Completion_kPending)) s))"

section \<open>The futex table\<close>

definition bucket_for :: "u64 \<Rightarrow> nat" where
  "bucket_for uaddr = unat (drop_bit 2 uaddr AND 255)"

text \<open>\<open>present\<close> is the word the caller read from user memory before.\<close>

definition ParkOnWord_start :: "nat \<Rightarrow> u64 \<Rightarrow> u32 \<Rightarrow> u32 \<Rightarrow> Scheduler \<Rightarrow> (KernelError option \<times> Scheduler) option" where
  "ParkOnWord_start c uaddr present expected s =
     (if present \<noteq> expected then Some (Some kWouldBlock, s)
      else case cur c s of
             None \<Rightarrow> None
           | Some self \<Rightarrow>
               let s1 = on_task self (tk_futex_uaddr_update (\<lambda>_. uaddr)) s;
                   b = bucket_for uaddr;
                   s2 = s1\<lparr>sc_buckets := (sc_buckets s1)(b := sc_buckets s1 b @ [self])\<rparr>
               in do { s3 \<leftarrow> Scheduler_prepare_to_wait c s2; Some (None, s3) })"

text \<open>The word is copied in before the gate is taken; \<open>read\<close> is what the copy found.\<close>

definition WaitOnUserWord :: "nat \<Rightarrow> nat \<Rightarrow> u64 \<Rightarrow> u32 option \<Rightarrow> u32 \<Rightarrow> Scheduler \<Rightarrow> (KernelError \<times> Scheduler) option" where
  "WaitOnUserWord c spin_depth uaddr read expected s =
     (case read of
        None \<Rightarrow> Some (kInvalidArgument, s)
      | Some word \<Rightarrow> do {
          (answer, s1) \<leftarrow> ParkOnWord_start c uaddr word expected s;
          case answer of
            Some e \<Rightarrow> Some (e, s1)
          | None \<Rightarrow> do { s2 \<leftarrow> Scheduler_schedule_blocked c spin_depth s1; Some (kOk, s2) }
        })"

fun wake_walk :: "nat \<Rightarrow> u64 \<Rightarrow> nat \<Rightarrow> nat list \<Rightarrow> nat \<Rightarrow> Scheduler \<Rightarrow> (nat \<times> Scheduler) option" where
  "wake_walk c uaddr most [] woken s = Some (woken, s)"
| "wake_walk c uaddr most (node # rest) woken s =
     (if \<not> woken < most then Some (woken, s)
      else if tk_futex_uaddr (sc_task s node) = uaddr then do {
        let b = bucket_for uaddr;
        s1 \<leftarrow> Scheduler_unblock c node (s\<lparr>sc_buckets := (sc_buckets s)(b := remove1 node (sc_buckets s b))\<rparr>);
        wake_walk c uaddr most rest (woken + 1) s1
      } else wake_walk c uaddr most rest woken s)"

definition WakeUserWord :: "nat \<Rightarrow> u64 \<Rightarrow> u64 \<Rightarrow> Scheduler \<Rightarrow> (nat \<times> Scheduler) option" where
  "WakeUserWord c uaddr most s = wake_walk c uaddr (unat most) (sc_buckets s (bucket_for uaddr)) 0 s"

definition kUserAddressLimit :: u64 where
  "kUserAddressLimit = 0x0000800000000000"

definition IsCanonicalAddress :: "u64 \<Rightarrow> bool" where
  "IsCanonicalAddress a \<longleftrightarrow> a \<le> 0x00007FFFFFFFFFFF \<or> a \<ge> 0xFFFF800000000000"

definition ClearTidWord :: "nat \<Rightarrow> nat \<Rightarrow> Scheduler \<Rightarrow> Scheduler option" where
  "ClearTidWord c dying s =
     (let word = tk_clear_child_tid (sc_task s dying);
          s1 = on_task dying (tk_clear_child_tid_update (\<lambda>_. 0)) s in
      if word < 4 \<or> word + 4 > kUserAddressLimit \<or> \<not> IsCanonicalAddress word then Some s1
      else case tk_vmas (sc_task s1 dying) of
             None \<Rightarrow> Some s1
           | Some vmas \<Rightarrow>
               (case VmaStore_find word vmas of
                  None \<Rightarrow> Some s1
                | Some region \<Rightarrow>
                    if \<not> vr_writable region \<or> vr_end region < word + 4 then Some s1
                    else do {
                      (woken, s2) \<leftarrow> WakeUserWord c word 1 (emit (UserWord dying word 0) s1);
                      Some s2
                    }))"

section \<open>Sending signals\<close>

definition SendSignal :: "nat \<Rightarrow> nat \<Rightarrow> int \<Rightarrow> Scheduler \<Rightarrow> (bool \<times> Scheduler) option" where
  "SendSignal c target number s =
     (if number < 1 \<or> number > kSignalCount then Some (False, s)
      else if tk_state (sc_task s target) = kZombie \<or> tk_state (sc_task s target) = kDead then Some (True, s)
      else let g = tk_signals (sc_task s target); action = sg_actions g ! nat (number - 1) in
        if sx_handler action = kSignalIgnore then Some (True, s)
        else
          let kept = (if number = kSigCont then sg_pending g AND NOT stop_class_mask else sg_pending g);
              s1 = on_task target (tk_signals_update (\<lambda>g. g\<lparr>sg_pending := kept OR bit_for number\<rparr>)) s in
          if tk_state (sc_task s1 target) = kStopped \<and> (number = kSigCont \<or> number = kSigKill)
          then do { s2 \<leftarrow> Scheduler_resume c target s1; Some (True, s2) }
          else if tk_state (sc_task s1 target) = kReady \<and> sx_handler action = kSignalDefault \<and>
                  DefaultDisposition number = Disposition_kStop
          then do { (withdrawn, s2) \<leftarrow> Scheduler_withdraw c target s1; Some (True, s2) }
          else Some (True, s1))"

fun send_each :: "nat \<Rightarrow> u64 \<Rightarrow> int \<Rightarrow> nat list \<Rightarrow> Scheduler \<Rightarrow> Scheduler option" where
  "send_each c pgid number [] s = Some s"
| "send_each c pgid number (scan # rest) s =
     (if tk_pgid (sc_task s scan) = pgid
      then do { (sent, s1) \<leftarrow> SendSignal c scan number s; send_each c pgid number rest s1 }
      else send_each c pgid number rest s)"

definition SendToGroup :: "nat \<Rightarrow> u64 \<Rightarrow> int \<Rightarrow> Scheduler \<Rightarrow> Scheduler option" where
  "SendToGroup c pgid number s = do {
     s1 \<leftarrow> send_each c pgid number (sc_tasks s) (Queue_enter c s);
     Some (Queue_exit c s1)
   }"

section \<open>Reaping\<close>

fun reap_retired :: "nat \<Rightarrow> nat \<Rightarrow> Scheduler \<Rightarrow> Scheduler option" where
  "reap_retired c 0 s = Some s"
| "reap_retired c (Suc fuel) s =
     (let s1 = Queue_enter c s in
      case List.find (\<lambda>scan. tk_on_cpu (sc_task s1 scan) = -1) (sc_retired s1) of
        None \<Rightarrow> Some (Queue_exit c s1)
      | Some ready \<Rightarrow> do {
          s2 \<leftarrow> Sink_reclaim ready (Queue_exit c (s1\<lparr>sc_retired := remove1 ready (sc_retired s1)\<rparr>));
          reap_retired c fuel s2
        })"

text \<open>Every turn takes one entry off the list, so its length plus one turn is enough.\<close>

definition Scheduler_reap_pending :: "nat \<Rightarrow> Scheduler \<Rightarrow> Scheduler option" where
  "Scheduler_reap_pending c s = do {
     s1 \<leftarrow> (case pc_pending_reap (sc_cpu s c) of
              None \<Rightarrow> Some s
            | Some dead \<Rightarrow>
                if tk_on_cpu (sc_task s dead) = -1
                then Sink_reclaim dead (on_cpu c (pc_pending_reap_update (\<lambda>_. None)) s)
                else Some s);
     reap_retired c (length (sc_retired s1) + 1) s1
   }"

section \<open>Exit\<close>

definition Scheduler_find_adopter :: "nat \<Rightarrow> Scheduler \<Rightarrow> nat option" where
  "Scheduler_find_adopter dying s =
     List.find (\<lambda>t. t \<noteq> dying \<and> tk_pid (sc_task s t) = 1 \<and> tk_space (sc_task s t) \<and>
                   tk_state (sc_task s t) \<noteq> kZombie \<and> tk_state (sc_task s t) \<noteq> kDead) (sc_tasks s)"

text \<open>\<^verbatim>\<open>waiters_.remove(parent)\<close> and the wake-up of a parent that was on the list.\<close>

definition wake_waiting_parent :: "nat \<Rightarrow> nat \<Rightarrow> Scheduler \<Rightarrow> Scheduler option" where
  "wake_waiting_parent c parent s =
     (if parent \<in> set (sc_waiters s)
      then Scheduler_unblock c parent (s\<lparr>sc_waiters := remove1 parent (sc_waiters s)\<rparr>) else Some s)"

fun detach_each :: "nat \<Rightarrow> nat \<Rightarrow> nat option \<Rightarrow> nat list \<Rightarrow> Scheduler \<Rightarrow> Scheduler option" where
  "detach_each c dying adopter [] s = Some s"
| "detach_each c dying adopter (scan # rest) s =
     (if tk_parent (sc_task s scan) \<noteq> Some dying then detach_each c dying adopter rest s
      else case adopter of
             Some parent \<Rightarrow> do {
               let s1 = on_task scan (tk_parent_update (\<lambda>_. Some parent)) s;
               s2 \<leftarrow> (if tk_state (sc_task s1 scan) = kZombie
                      then do { (sent, s') \<leftarrow> SendSignal c parent kSigChld s1; wake_waiting_parent c parent s' }
                      else Some s1);
               detach_each c dying adopter rest s2
             }
           | None \<Rightarrow> do {
               let s1 = on_task scan (tk_parent_update (\<lambda>_. None)) (s\<lparr>sc_offspring := remove1 scan (sc_offspring s)\<rparr>);
               s2 \<leftarrow> (if tk_state (sc_task s1 scan) = kZombie
                      then let s' = s1\<lparr>sc_tasks := remove1 scan (sc_tasks s1)\<rparr> in
                           if tk_on_cpu (sc_task s' scan) = -1 then Sink_reclaim scan s'
                           else Some (s'\<lparr>sc_retired := sc_retired s' @ [scan]\<rparr>)
                      else Some s1);
               detach_each c dying adopter rest s2
             })"

definition Scheduler_detach_offspring :: "nat \<Rightarrow> nat \<Rightarrow> Scheduler \<Rightarrow> Scheduler option" where
  "Scheduler_detach_offspring c dying s = detach_each c dying (Scheduler_find_adopter dying s) (sc_offspring s) s"

text \<open>What \<^verbatim>\<open>exit_current\<close> does before the queue guard, and inside it.\<close>

definition exit_prologue :: "nat \<Rightarrow> nat \<Rightarrow> Scheduler \<Rightarrow> Scheduler option" where
  "exit_prologue c prev s = do {
     s1 \<leftarrow> (case tk_vfork_done (sc_task s prev) of
              None \<Rightarrow> Some s
            | Some d \<Rightarrow> do {
                (made, s') \<leftarrow> Completion_finish c True d (on_task prev (tk_vfork_done_update (\<lambda>_. None)) s);
                Some s'
              });
     s2 \<leftarrow> ClearTidWord c prev s1;
     Scheduler_reap_pending c (emit (FilesReset prev) s2)
   }"

definition exit_record :: "nat \<Rightarrow> nat \<Rightarrow> Scheduler \<Rightarrow> Scheduler option" where
  "exit_record c prev s =
     (case tk_parent (sc_task s prev) of
        Some parent \<Rightarrow>
          if tk_pid (sc_task s prev) = tk_tgid (sc_task s prev) then do {
            (sent, s1) \<leftarrow> SendSignal c parent kSigChld (set_state prev kZombie s);
            wake_waiting_parent c parent s1
          } else
            Some (on_cpu c (pc_pending_reap_update (\<lambda>_. Some prev)) (set_state prev kDead
              (s\<lparr>sc_tasks := remove1 prev (sc_tasks s), sc_offspring := remove1 prev (sc_offspring s)\<rparr>)))
      | None \<Rightarrow>
          Some (on_cpu c (pc_pending_reap_update (\<lambda>_. Some prev)) (set_state prev kDead
            (s\<lparr>sc_tasks := remove1 prev (sc_tasks s)\<rparr>))))"

definition exit_pick :: "nat \<Rightarrow> nat \<Rightarrow> int \<Rightarrow> Scheduler \<Rightarrow> (nat option \<times> Scheduler) option" where
  "exit_pick c prev code s = do {
     s1 \<leftarrow> Scheduler_detach_offspring c prev (on_task prev (tk_exit_code_update (\<lambda>_. code)) (Queue_enter c s));
     s2 \<leftarrow> exit_record c prev s1;
     let (next, s3) = Scheduler_pick_next c s2;
     let s4 = Scheduler_set_current c next s3;
     let s5 = (case next of None \<Rightarrow> s4 | Some t \<Rightarrow> set_state t kRunning s4);
     Some (next, Queue_exit c (on_cpu c (pc_slice_ticks_update (\<lambda>_. 0)) s5))
   }"

text \<open>The last lines have no test for the outgoing task: it is never the next one.\<close>

definition Scheduler_exit_current :: "nat \<Rightarrow> int \<Rightarrow> Scheduler \<Rightarrow> Scheduler option" where
  "Scheduler_exit_current c code s =
     (case cur c s of
        None \<Rightarrow> None
      | Some prev \<Rightarrow> do {
          s1 \<leftarrow> exit_prologue c prev s;
          (next, s2) \<leftarrow> exit_pick c prev code s1;
          Some (case next of Some t \<Rightarrow> Sink_switch_tasks c prev t s2 | None \<Rightarrow> Sink_return_to_main c prev s2)
        })"

section \<open>Waiting for children\<close>

definition child_eligible :: "nat \<Rightarrow> int \<Rightarrow> nat \<Rightarrow> Scheduler \<Rightarrow> bool" where
  "child_eligible watcher wanted scan s =
     (let any = (wanted = -1); grouped = (wanted \<le> 0 \<and> \<not> any);
          group = (if wanted < -1 then word_of_int (- wanted) else tk_pgid (sc_task s watcher)) in
      any \<or> (if grouped then tk_pgid (sc_task s scan) = group else uint (tk_pid (sc_task s scan)) = wanted))"

fun zombie_scan :: "nat \<Rightarrow> int \<Rightarrow> nat list \<Rightarrow> bool \<Rightarrow> Scheduler \<Rightarrow> nat option \<times> bool" where
  "zombie_scan watcher wanted [] has_eligible s = (None, has_eligible)"
| "zombie_scan watcher wanted (scan # rest) has_eligible s =
     (if tk_parent (sc_task s scan) \<noteq> Some watcher \<or> tk_pid (sc_task s scan) \<noteq> tk_tgid (sc_task s scan)
      then zombie_scan watcher wanted rest has_eligible s
      else let eligible = child_eligible watcher wanted scan s; has' = (has_eligible \<or> eligible) in
        if eligible \<and> tk_state (sc_task s scan) = kZombie then (Some scan, has')
        else zombie_scan watcher wanted rest has' s)"

definition Scheduler_take_zombie_child :: "nat \<Rightarrow> int \<Rightarrow> Scheduler \<Rightarrow> (nat option \<times> bool) \<times> Scheduler" where
  "Scheduler_take_zombie_child watcher wanted s =
     (let (match, has_eligible) = zombie_scan watcher wanted (sc_offspring s) False s in
      case match of
        Some t \<Rightarrow> ((match, has_eligible), s\<lparr>sc_offspring := remove1 t (sc_offspring s), sc_tasks := remove1 t (sc_tasks s)\<rparr>)
      | None \<Rightarrow> ((match, has_eligible), s))"

text \<open>One turn of the loop of \<^verbatim>\<open>wait_child\<close>: no such child, nothing yet (with \<^verbatim>\<open>no_hang\<close>), a
  receipt, or parked until the next turn.\<close>

datatype WaitAnswer = NoChild | NotYet | Receipt nat u64 int | Parked

definition wait_child_turn :: "nat \<Rightarrow> nat \<Rightarrow> int \<Rightarrow> bool \<Rightarrow> Scheduler \<Rightarrow> (WaitAnswer \<times> Scheduler) option" where
  "wait_child_turn c spin_depth wanted no_hang s =
     (case cur c s of
        None \<Rightarrow> None
      | Some self \<Rightarrow>
          let ((match, has_child), s1) = Scheduler_take_zombie_child self wanted (Queue_enter c s) in
          case match of
            Some t \<Rightarrow> Some (Receipt t (tk_pid (sc_task s1 t)) (tk_exit_code (sc_task s1 t)), Queue_exit c s1)
          | None \<Rightarrow>
              if \<not> has_child then Some (NoChild, Queue_exit c s1)
              else if no_hang then Some (NotYet, Queue_exit c s1)
              else Check (spin_depth = 0)
                (Some (Parked, Queue_exit c (set_state self kBlocked (s1\<lparr>sc_waiters := sc_waiters s1 @ [self]\<rparr>)))))"

definition wait_child_finish :: "nat \<Rightarrow> nat \<Rightarrow> WaitAnswer \<Rightarrow> Scheduler \<Rightarrow> Scheduler option" where
  "wait_child_finish c spin_depth answer s =
     (case answer of
        Receipt t pid code \<Rightarrow> Sink_reclaim t s
      | Parked \<Rightarrow> Scheduler_schedule_blocked c spin_depth s
      | NoChild \<Rightarrow> Some s
      | NotYet \<Rightarrow> Some s)"

section \<open>The main loop and queries\<close>

text \<open>One turn of \<^verbatim>\<open>run_until_done\<close>: \<open>None\<close> as the pick ends the loop.\<close>

definition pick_main :: "nat \<Rightarrow> Scheduler \<Rightarrow> nat option \<times> Scheduler" where
  "pick_main c s =
     (case Scheduler_pick_next c (Queue_enter c s) of
        (None, s1) \<Rightarrow> (None, Queue_exit c s1)
      | (Some next, s1) \<Rightarrow>
          (Some next, Queue_exit c (on_cpu c (pc_slice_ticks_update (\<lambda>_. 0))
             (set_state next kRunning (Scheduler_set_current c (Some next) s1)))))"

definition Scheduler_offspring_count :: "Scheduler \<Rightarrow> nat" where
  "Scheduler_offspring_count s = length (sc_offspring s)"

definition Scheduler_nth_group_leader :: "nat \<Rightarrow> Scheduler \<Rightarrow> u64 option" where
  "Scheduler_nth_group_leader ordinal s =
     (let leaders = filter (\<lambda>scan. tk_pid (sc_task s scan) = tk_tgid (sc_task s scan)) (sc_tasks s) in
      if ordinal < length leaders then Some (tk_pid (sc_task s (leaders ! ordinal))) else None)"

record TaskSnapshot =
  sn_pid :: u64
  sn_parent_pid :: u64
  sn_pgid :: u64
  sn_sid :: u64
  sn_state :: char

definition Scheduler_snapshot_by_pid :: "u64 \<Rightarrow> Scheduler \<Rightarrow> TaskSnapshot option" where
  "Scheduler_snapshot_by_pid pid s =
     (case List.find (\<lambda>scan. tk_pid (sc_task s scan) = pid) (sc_tasks s) of
        None \<Rightarrow> None
      | Some scan \<Rightarrow>
          let k = sc_task s scan in
          Some \<lparr>sn_pid = tk_pid k,
            sn_parent_pid = (case tk_parent k of None \<Rightarrow> 0 | Some p \<Rightarrow> tk_pid (sc_task s p)),
            sn_pgid = tk_pgid k, sn_sid = tk_sid k, sn_state = state_letter (tk_state k)\<rparr>)"

end
