(* ===== verification/Sched_Smp.thy ===== *)
theory Sched_Smp
  imports Sched_Life
begin

text \<open>
  The scheduler on several processors. The locked sections of \<^verbatim>\<open>kernel/proc/scheduler.cpp\<close> and the
  stores of the switch sink are the atomic steps; a phase per processor says where in the code
  it stands, and the processors interleave freely. The main result: in every reachable state a
  task's stack is in use by one processor at most, and a reclaimed task by none.
\<close>

section \<open>The machine\<close>

text \<open>
  \<open>Working\<close>: in a task, outside the scheduler. \<open>Prepared\<close>: marked blocked or stopped, before
  \<^verbatim>\<open>schedule_blocked\<close>. \<open>Rotating\<close>: back in its row, before the pick. \<open>Leaving p n\<close>: \<open>n\<close> picked, still
  on the stack of \<open>p\<close>. \<open>Armed p n\<close>: \<open>n\<close> marked as on this processor. \<open>Idle\<close>: the main loop.
  \<open>Entering n\<close>, \<open>EnterArmed n\<close>: the same from the main loop. \<open>Reaping t\<close>: holding a child's
  receipt, before the reclaim. \<open>Dying\<close> is the inside of the locked section of \<^verbatim>\<open>exit_current\<close>, which
  no other processor sees.
\<close>

datatype Phase =
  Working | Idle | Prepared | Rotating | Dying | Leaving nat "nat option" | Armed nat nat
  | Entering nat | EnterArmed nat | Reaping nat

type_synonym machine = "Scheduler \<times> (nat \<Rightarrow> Phase)"

text \<open>What a task block is that \<^verbatim>\<open>TaskBuilder::build\<close> just made: not yet known anywhere.\<close>

definition reclaimed :: "Scheduler \<Rightarrow> nat set" where
  "reclaimed s = {t. Reclaimed t \<in> set (sc_events s)}"

definition doomed :: "Scheduler \<Rightarrow> nat set" where
  "doomed s = set (sc_retired s) \<union> {t. \<exists>c. pc_pending_reap (sc_cpu s c) = Some t}"

definition in_row :: "Scheduler \<Rightarrow> nat \<Rightarrow> bool" where
  "in_row s t \<longleftrightarrow> (\<exists>cls. t \<in> set (ClassQueue_content (sc_row s cls)))"

definition fresh :: "Scheduler \<Rightarrow> nat \<Rightarrow> bool" where
  "fresh s t \<longleftrightarrow> tk_state (sc_task s t) = kReady \<and> tk_on_cpu (sc_task s t) = -1 \<and> t \<notin> set (sc_tasks s) \<and> \<not> in_row s t \<and>
     t \<notin> reclaimed s \<and> t \<notin> doomed s \<and> (\<forall>c. cur c s \<noteq> Some t)"

text \<open>Where a processor goes after a pick.\<close>

definition departs :: "nat \<Rightarrow> nat option \<Rightarrow> Phase" where
  "departs prev next = (if next = Some prev then Working else Leaving prev next)"

inductive smp_step :: "machine \<Rightarrow> machine \<Rightarrow> bool" where
  prepare: "ph c = Working \<Longrightarrow> Scheduler_prepare_to_wait c s = Some s' \<Longrightarrow>
    smp_step (s, ph) (s', ph(c := Prepared))"
| wait_completion: "ph c = Working \<Longrightarrow> Completion_wait_start c d s = Some (None, s') \<Longrightarrow>
    smp_step (s, ph) (s', ph(c := Prepared))"
| wait_word: "ph c = Working \<Longrightarrow> ParkOnWord_start c uaddr present expected s = Some (None, s') \<Longrightarrow>
    smp_step (s, ph) (s', ph(c := Prepared))"
| wait_child: "ph c = Working \<Longrightarrow> wait_child_turn c 0 wanted no_hang s = Some (Parked, s') \<Longrightarrow>
    smp_step (s, ph) (s', ph(c := Prepared))"
| take_child: "ph c = Working \<Longrightarrow> wait_child_turn c 0 wanted no_hang s = Some (Receipt t pid code, s') \<Longrightarrow>
    smp_step (s, ph) (s', ph(c := Reaping t))"
| reclaim_child: "ph c = Reaping t \<Longrightarrow> Sink_reclaim t s = Some s' \<Longrightarrow>
    smp_step (s, ph) (s', ph(c := Working))"
| stop: "ph c = Working \<Longrightarrow> mark_stopped c 0 s = Some s' \<Longrightarrow>
    smp_step (s, ph) (s', ph(c := Prepared))"
| schedule: "ph c = Prepared \<Longrightarrow> pc_no_reschedule_depth (sc_cpu s c) = 0 \<Longrightarrow> cur c s = Some prev \<Longrightarrow>
    pick_blocked c s = (next, s') \<Longrightarrow> smp_step (s, ph) (s', ph(c := departs prev next))"
| requeue: "ph c = Working \<Longrightarrow> cur c s = Some self \<Longrightarrow> requeue_self c self s = Some (rotated, s') \<Longrightarrow>
    smp_step (s, ph) (s', ph(c := if rotated then Rotating else Working))"
| rotate: "ph c = Rotating \<Longrightarrow> cur c s = Some prev \<Longrightarrow> pick_rotation c s = Some (next, s') \<Longrightarrow>
    smp_step (s, ph) (s', ph(c := departs prev (Some next)))"
| exit: "ph c = Working \<Longrightarrow> cur c s = Some prev \<Longrightarrow> exit_pick c prev code s = Some (next, s') \<Longrightarrow>
    smp_step (s, ph) (s', ph(c := Leaving prev next))"
| arm: "ph c = Leaving prev (Some next) \<Longrightarrow>
    smp_step (s, ph) (arm_incoming c next s, ph(c := Armed prev next))"
| switch: "ph c = Armed prev next \<Longrightarrow>
    smp_step (s, ph) (ContextSwitch c (Some prev) (Some next) s, ph(c := Working))"
| go_home: "ph c = Leaving prev None \<Longrightarrow>
    smp_step (s, ph) (ContextSwitch c (Some prev) None s, ph(c := Idle))"
| main_pick: "ph c = Idle \<Longrightarrow> pick_main c s = (next, s') \<Longrightarrow>
    smp_step (s, ph) (s', ph(c := case next of None \<Rightarrow> Idle | Some t \<Rightarrow> Entering t))"
| main_arm: "ph c = Entering next \<Longrightarrow>
    smp_step (s, ph) (arm_incoming c next s, ph(c := EnterArmed next))"
| main_enter: "ph c = EnterArmed next \<Longrightarrow>
    smp_step (s, ph) (ContextSwitch c None (Some next) s, ph(c := Working))"
| install: "ph c = Working \<or> ph c = Idle \<Longrightarrow> Scheduler_install_class c cls s = Some s' \<Longrightarrow>
    smp_step (s, ph) (s', ph)"
| seat: "ph c = Working \<or> ph c = Idle \<Longrightarrow> fresh s t \<Longrightarrow>
    Scheduler_seat c t runnable initial s = Some (seated, s') \<Longrightarrow> smp_step (s, ph) (s', ph)"
| unblock: "ph c = Working \<or> ph c = Idle \<Longrightarrow> Scheduler_unblock c t s = Some s' \<Longrightarrow> smp_step (s, ph) (s', ph)"
| finish: "ph c = Working \<or> ph c = Idle \<Longrightarrow> Completion_finish c success d s = Some (made, s') \<Longrightarrow>
    smp_step (s, ph) (s', ph)"
| wake_word: "ph c = Working \<or> ph c = Idle \<Longrightarrow> WakeUserWord c uaddr most s = Some (woken, s') \<Longrightarrow>
    smp_step (s, ph) (s', ph)"
| clear_tid: "ph c = Working \<Longrightarrow> cur c s = Some self \<Longrightarrow> ClearTidWord c self s = Some s' \<Longrightarrow>
    smp_step (s, ph) (s', ph)"
| signal: "ph c = Working \<or> ph c = Idle \<Longrightarrow> SendSignal c t number s = Some (sent, s') \<Longrightarrow>
    smp_step (s, ph) (s', ph)"
| signal_group: "ph c = Working \<or> ph c = Idle \<Longrightarrow> SendToGroup c pgid number s = Some s' \<Longrightarrow>
    smp_step (s, ph) (s', ph)"
| reap: "ph c = Working \<or> ph c = Idle \<Longrightarrow> Scheduler_reap_pending c s = Some s' \<Longrightarrow> smp_step (s, ph) (s', ph)"
| tick: "ph c = Working \<or> ph c = Idle \<Longrightarrow> Scheduler_on_timer_tick c now_ns s = Some s' \<Longrightarrow>
    smp_step (s, ph) (s', ph)"
| set_timer: "ph c = Working \<Longrightarrow> Scheduler_real_timer c t now_ns timer replace s = (old, s') \<Longrightarrow>
    smp_step (s, ph) (s', ph)"

section \<open>Changes that leave the rows and processors alone\<close>

named_theorems settle

text \<open>Nothing the switching depends on changes; tasks may leave the registry or the reaping lists.\<close>

definition settles :: "Scheduler \<Rightarrow> Scheduler \<Rightarrow> bool" where
  "settles s s' \<longleftrightarrow>
     (\<forall>t. tk_state (sc_task s' t) = tk_state (sc_task s t) \<and> tk_on_cpu (sc_task s' t) = tk_on_cpu (sc_task s t) \<and>
          tk_class (sc_task s' t) = tk_class (sc_task s t)) \<and>
     sc_row s' = sc_row s \<and>
     (\<forall>c. cur c s' = cur c s \<and> pc_stack (sc_cpu s' c) = pc_stack (sc_cpu s c)) \<and>
     set (sc_tasks s') \<subseteq> set (sc_tasks s) \<and> doomed s' \<subseteq> doomed s \<and> reclaimed s' = reclaimed s"

lemma settles_refl: "settles s s"
  by (simp add: settles_def)

lemma settles_trans: "settles a b \<Longrightarrow> settles b c \<Longrightarrow> settles a c"
  unfolding settles_def by (auto simp del: not_None_eq)

lemma settles_step: "settles s s' \<Longrightarrow> settles a s \<Longrightarrow> settles a s'"
  by (rule settles_trans)

lemma settles_on_cpu:
  assumes "settles a s" "\<And>p. pc_current (f p) = pc_current p" "\<And>p. pc_stack (f p) = pc_stack p"
    "\<And>p. pc_pending_reap (f p) = pc_pending_reap p \<or> pc_pending_reap (f p) = None"
  shows "settles a (on_cpu c f s)"
proof -
  have "doomed (on_cpu c f s) \<subseteq> doomed s"
  proof
    fix t assume "t \<in> doomed (on_cpu c f s)"
    then show "t \<in> doomed s"
      using assms(4)[of "sc_cpu s c"] by (auto simp: doomed_def on_cpu_def split: if_splits)
  qed
  then have "settles s (on_cpu c f s)"
    using assms(2,3) by (simp add: settles_def on_cpu_def reclaimed_def)
  with assms(1) show ?thesis by (rule settles_trans)
qed

lemma settles_on_task:
  assumes "settles a s" "\<And>k. tk_state (f k) = tk_state k" "\<And>k. tk_on_cpu (f k) = tk_on_cpu k"
    "\<And>k. tk_class (f k) = tk_class k"
  shows "settles a (on_task t f s)"
proof -
  have "settles s (on_task t f s)"
    using assms(2-) by (simp add: settles_def on_task_def reclaimed_def doomed_def)
  with assms(1) show ?thesis by (rule settles_trans)
qed

lemma settles_lists [settle]:
  assumes "settles a s"
  shows "settles a (refuse s)"
    and "settles a (s\<lparr>sc_waiters := ws\<rparr>)"
    and "settles a (s\<lparr>sc_buckets := bs\<rparr>)"
    and "settles a (s\<lparr>sc_completion := cs\<rparr>)"
    and "settles a (s\<lparr>sc_offspring := os\<rparr>)"
    and "settles a (s\<lparr>sc_next_real_deadline_ns := n\<rparr>)"
    and "settles a (s\<lparr>sc_tasks := remove1 t (sc_tasks s)\<rparr>)"
    and "settles a (s\<lparr>sc_retired := remove1 t (sc_retired s)\<rparr>)"
  by (rule settles_trans[OF assms], use set_remove1_subset in \<open>fastforce simp: settles_def reclaimed_def doomed_def\<close>)+

lemma settles_emit [settle]:
  "settles a s \<Longrightarrow> settles a (emit (NotifyRunnable c) s)"
  "settles a s \<Longrightarrow> settles a (emit (UserWord t u w) s)"
  "settles a s \<Longrightarrow> settles a (emit (FilesReset t) s)"
  by (rule settles_trans, assumption, simp add: settles_def emit_def reclaimed_def doomed_def)+

lemma settles_cpu [settle]:
  assumes "settles a s"
  shows "settles a (notify_later c s)"
    and "settles a (on_cpu c (pc_notify_pending_update (\<lambda>_. False)) s)"
    and "settles a (on_cpu c (pc_queue_depth_update g) s)"
    and "settles a (on_cpu c (pc_slice_ticks_update h) s)"
    and "settles a (on_cpu c (pc_pending_reap_update (\<lambda>_. None)) s)"
    and "settles a (on_cpu c (\<lambda>p. p\<lparr>pc_slice_ticks := 0, pc_rotate_due := True\<rparr>) s)"
  by (rule settles_on_cpu[OF assms]; simp)+

lemma settles_task [settle]:
  assumes "settles a s"
  shows "settles a (on_task t (tk_signals_update g) s)"
    and "settles a (on_task t (tk_parent_update p) s)"
    and "settles a (on_task t (tk_exit_code_update e) s)"
    and "settles a (on_task t (tk_futex_uaddr_update u) s)"
    and "settles a (on_task t (tk_clear_child_tid_update w) s)"
    and "settles a (on_task t (tk_vfork_done_update v) s)"
  by (rule settles_on_task[OF assms]; simp)+

lemma settles_enter [settle]: "settles a s \<Longrightarrow> settles a (Queue_enter c s)"
  unfolding Queue_enter_def by (intro settle)

lemma settles_exit [settle]: "settles a s \<Longrightarrow> settles a (Queue_exit c s)"
  unfolding Queue_exit_def Let_def by (auto intro!: settle)

text \<open>The same write on both sides keeps the relation.\<close>

lemma settles_same_write:
  assumes "settles a s"
  shows "settles (set_state t v a) (set_state t v s)"
    and "settles (a\<lparr>sc_row := (sc_row a)(cls := r)\<rparr>) (s\<lparr>sc_row := (sc_row s)(cls := r)\<rparr>)"
    and "settles (Scheduler_set_current c n a) (Scheduler_set_current c n s)"
  using assms
  by (auto simp: settles_def on_task_def on_cpu_def Scheduler_set_current_def reclaimed_def doomed_def)

section \<open>Wake-ups, withdrawals and reclaims\<close>

text \<open>What processors do to tasks other than the one they run.\<close>

inductive stir :: "Scheduler \<Rightarrow> Scheduler \<Rightarrow> bool" where
  quiet: "settles s s' \<Longrightarrow> stir s s'"
| wake: "tk_state (sc_task s t) = kBlocked \<or> tk_state (sc_task s t) = kStopped \<Longrightarrow>
    tk_class (sc_task s t) = Some cls \<Longrightarrow> SchedulingClass_enqueue cls t (sc_row s cls) = (True, row) \<Longrightarrow>
    stir s (set_state t kReady (s\<lparr>sc_row := (sc_row s)(cls := row)\<rparr>))"
| withdrawn: "tk_state (sc_task s t) = kReady \<Longrightarrow> tk_class (sc_task s t) = Some cls \<Longrightarrow>
    SchedulingClass_remove cls t (sc_row s cls) = (True, row) \<Longrightarrow>
    stir s (set_state t kStopped (s\<lparr>sc_row := (sc_row s)(cls := row)\<rparr>))"
| free: "tk_state (sc_task s t) = kZombie \<or> tk_state (sc_task s t) = kDead \<Longrightarrow> tk_on_cpu (sc_task s t) = -1 \<Longrightarrow>
    stir s (emit (Reclaimed t) s)"
| retire: "tk_state (sc_task s t) = kZombie \<or> tk_state (sc_task s t) = kDead \<Longrightarrow>
    stir s (s\<lparr>sc_retired := sc_retired s @ [t]\<rparr>)"
| chain: "stir a b \<Longrightarrow> stir b d \<Longrightarrow> stir a d"

lemma stir_refl: "stir s s"
  by (rule quiet[OF settles_refl])

lemma stir_then_quiet: "stir a s \<Longrightarrow> settles s s' \<Longrightarrow> stir a s'"
  by (rule chain[OF _ quiet])

lemma quiet_then_stir: "settles a s \<Longrightarrow> stir s s' \<Longrightarrow> stir a s'"
  by (rule chain[OF quiet])

lemma row_enqueue_cases:
  assumes "row_enqueue t s = Some (seated, s')"
  obtains cls row where "tk_class (sc_task s t) = Some cls"
    "SchedulingClass_enqueue cls t (sc_row s cls) = (seated, row)"
    "s' = s\<lparr>sc_row := (sc_row s)(cls := row)\<rparr>" "\<not> seated \<Longrightarrow> s' = s"
proof -
  from assms obtain cls where cls: "tk_class (sc_task s t) = Some cls"
    by (auto simp: row_enqueue_def split: option.splits)
  obtain row where row: "SchedulingClass_enqueue cls t (sc_row s cls) = (seated, row)"
      "s' = s\<lparr>sc_row := (sc_row s)(cls := row)\<rparr>"
    using assms cls by (auto simp: row_enqueue_def Let_def split: prod.splits)
  have "row = sc_row s cls" if "\<not> seated"
    using row(1) that by (cases cls) (auto simp: SchedulingClass_enqueue_def ClassQueue_push_def split: if_splits)
  with cls row show thesis by (intro that) simp_all
qed

text \<open>The shared tail of \<^verbatim>\<open>unblock\<close> and \<^verbatim>\<open>resume\<close>.\<close>

lemma stir_enqueue:
  assumes "tk_state (sc_task s t) = kBlocked \<or> tk_state (sc_task s t) = kStopped"
    and "row_enqueue t s = Some (seated, s1)"
  shows "stir s (if seated then set_state t kReady s1 else s1)"
  using assms(2)
proof (cases rule: row_enqueue_cases)
  case (1 cls row)
  show ?thesis
  proof (cases seated)
    case True
    with 1 assms(1) show ?thesis using wake[of s t cls row] by simp
  next
    case False
    with 1(4) show ?thesis using stir_refl by simp
  qed
qed

lemma state_enter [simp]: "sc_task (Queue_enter c s) = sc_task s"
  by (simp add: Queue_enter_def on_cpu_def)

lemma stir_unblock:
  assumes "Scheduler_unblock c t s = Some s'"
  shows "stir s s'"
proof -
  let ?q = "Queue_enter c s"
  have q: "settles s ?q" by (intro settle settles_refl)
  show ?thesis
  proof (cases "tk_state (sc_task s t) = kBlocked")
    case False
    then have "s' = Queue_exit c ?q" using assms by (simp add: Scheduler_unblock_def)
    then show ?thesis by (simp add: quiet settle settles_refl)
  next
    case True
    with assms obtain seated s1 where e: "row_enqueue t ?q = Some (seated, s1)"
        "s' = (if \<not> seated then Queue_exit c (refuse s1) else Queue_exit c (notify_later c (set_state t kReady s1)))"
      by (auto simp: Scheduler_unblock_def Let_def bind_eq_Some_conv split: if_splits prod.splits)
    have "stir ?q (if seated then set_state t kReady s1 else s1)"
      using e(1) True by (intro stir_enqueue) simp_all
    moreover have "settles (if seated then set_state t kReady s1 else s1) s'"
      unfolding e(2) by (auto intro!: settle settles_refl)
    ultimately show ?thesis by (rule quiet_then_stir[OF q stir_then_quiet])
  qed
qed

lemma stir_resume:
  assumes "Scheduler_resume c t s = Some s'"
  shows "stir s s'"
proof -
  let ?q = "Queue_enter c s"
  have q: "settles s ?q" by (intro settle settles_refl)
  from assms obtain seated s1 where e: "row_enqueue t ?q = Some (seated, s1)" "tk_state (sc_task s t) = kStopped"
      "s' = (if \<not> seated then Queue_exit c (refuse s1) else Queue_exit c (notify_later c (set_state t kReady s1)))"
    by (auto simp: Scheduler_resume_def Let_def bind_eq_Some_conv split: if_splits prod.splits)
  have "stir ?q (if seated then set_state t kReady s1 else s1)"
    using e(1,2) by (intro stir_enqueue) simp_all
  moreover have "settles (if seated then set_state t kReady s1 else s1) s'"
    unfolding e(3) by (auto intro!: settle settles_refl)
  ultimately show ?thesis by (rule quiet_then_stir[OF q stir_then_quiet])
qed

lemma stir_withdraw:
  assumes "Scheduler_withdraw c t s = Some (found, s')"
  shows "stir s s'"
proof -
  let ?q = "Queue_enter c s"
  have q: "settles s ?q" by (intro settle settles_refl)
  show ?thesis
  proof (cases "tk_state (sc_task s t) = kReady")
    case False
    then have "s' = Queue_exit c ?q" using assms by (simp add: Scheduler_withdraw_def)
    then show ?thesis by (simp add: quiet settle settles_refl)
  next
    case True
    with assms obtain cls row where e: "tk_class (sc_task s t) = Some cls"
        "SchedulingClass_remove cls t (sc_row ?q cls) = (True, row)"
        "s' = Queue_exit c (set_state t kStopped (?q\<lparr>sc_row := (sc_row ?q)(cls := row)\<rparr>))"
      by (auto simp: Scheduler_withdraw_def Let_def split: if_splits prod.splits option.splits)
    have "stir ?q (set_state t kStopped (?q\<lparr>sc_row := (sc_row ?q)(cls := row)\<rparr>))"
      using True e(1,2) by (intro withdrawn) simp_all
    then show ?thesis
      unfolding e(3) by (intro quiet_then_stir[OF q] stir_then_quiet[OF _ settles_exit[OF settles_refl]])
  qed
qed

lemma stir_finish:
  assumes "Completion_finish c success d s = Some (made, s')"
  shows "stir s s'"
proof -
  define s1 where "s1 = on_completion d (cm_state_update (\<lambda>_. if success then Completion_kSuccess else Completion_kFailed)) s"
  have q: "settles s s1" unfolding s1_def by (intro settle settles_refl)
  show ?thesis
  proof (cases "cm_state (sc_completion s d) \<noteq> Completion_kPending")
    case True
    then show ?thesis using assms stir_refl by (simp add: Completion_finish_def)
  next
    case False
    show ?thesis
    proof (cases "cm_waiters (sc_completion s1 d)")
      case Nil
      then have "s' = s1" using assms False by (simp add: Completion_finish_def s1_def)
      with q show ?thesis by (simp add: quiet)
    next
      case (Cons t rest)
      then have "Scheduler_unblock c t (on_completion d (cm_waiters_update (\<lambda>_. rest)) s1) = Some s'"
        using assms False by (auto simp: Completion_finish_def s1_def bind_eq_Some_conv)
      from stir_unblock[OF this] show ?thesis
        by (rule quiet_then_stir[OF settles_lists(4)[OF q]])
    qed
  qed
qed

lemma stir_wake_walk: "wake_walk c uaddr most nodes woken s = Some (n, s') \<Longrightarrow> stir s s'"
proof (induction nodes arbitrary: woken s)
  case Nil
  then show ?case by (simp add: stir_refl)
next
  case (Cons node rest)
  show ?case
  proof (cases "woken < most \<and> tk_futex_uaddr (sc_task s node) = uaddr")
    case True
    with Cons.prems obtain s1 where
        "Scheduler_unblock c node (s\<lparr>sc_buckets := (sc_buckets s)(bucket_for uaddr := remove1 node (sc_buckets s (bucket_for uaddr)))\<rparr>) = Some s1"
        "wake_walk c uaddr most rest (woken + 1) s1 = Some (n, s')"
      by (auto simp: bind_eq_Some_conv Let_def)
    from quiet_then_stir[OF settles_lists(3)[OF settles_refl] chain[OF stir_unblock[OF this(1)] Cons.IH[OF this(2)]]]
    show ?thesis .
  next
    case False
    then have "s' = s \<or> wake_walk c uaddr most rest woken s = Some (n, s')"
      using Cons.prems by (auto split: if_splits)
    with Cons.IH show ?thesis using stir_refl by blast
  qed
qed

lemma stir_clear_tid:
  assumes "ClearTidWord c t s = Some s'"
  shows "stir s s'"
proof -
  define s1 where "s1 = on_task t (tk_clear_child_tid_update (\<lambda>_. 0)) s"
  have q: "settles s s1" unfolding s1_def by (intro settle settles_refl)
  consider "s' = s1" | n where "WakeUserWord c (tk_clear_child_tid (sc_task s t)) 1
      (emit (UserWord t (tk_clear_child_tid (sc_task s t)) 0) s1) = Some (n, s')"
    using assms by (auto simp: ClearTidWord_def Let_def s1_def bind_eq_Some_conv split: if_splits option.splits)
  then show ?thesis
  proof cases
    case 1
    with q show ?thesis by (simp add: quiet)
  next
    case 2
    then show ?thesis
      using stir_wake_walk unfolding WakeUserWord_def by (blast intro: quiet_then_stir[OF settles_emit(2)[OF q]])
  qed
qed

lemma stir_signal:
  assumes "SendSignal c t number s = Some (sent, s')"
  shows "stir s s'"
proof -
  consider "s' = s"
    | k where "s' = on_task t (tk_signals_update k) s"
    | k where "Scheduler_resume c t (on_task t (tk_signals_update k) s) = Some s'"
    | k w where "Scheduler_withdraw c t (on_task t (tk_signals_update k) s) = Some (w, s')"
    using assms by (auto simp: SendSignal_def Let_def bind_eq_Some_conv split: if_splits)
  then show ?thesis
  proof cases
    case 1
    then show ?thesis by (simp add: stir_refl)
  next
    case 2
    then show ?thesis by (simp add: quiet settle settles_refl)
  next
    case 3
    from stir_resume[OF this] show ?thesis by (rule quiet_then_stir[OF settles_task(1)[OF settles_refl]])
  next
    case 4
    from stir_withdraw[OF this] show ?thesis by (rule quiet_then_stir[OF settles_task(1)[OF settles_refl]])
  qed
qed

lemma stir_send_each: "send_each c pgid number nodes s = Some s' \<Longrightarrow> stir s s'"
proof (induction nodes arbitrary: s)
  case Nil
  then show ?case by (simp add: stir_refl)
next
  case (Cons t rest)
  then show ?case
    by (auto simp: bind_eq_Some_conv split: if_splits intro: chain dest!: stir_signal)
qed

lemma stir_send_group:
  assumes "SendToGroup c pgid number s = Some s'"
  shows "stir s s'"
proof -
  from assms obtain s1 where "send_each c pgid number (sc_tasks s) (Queue_enter c s) = Some s1"
      "s' = Queue_exit c s1"
    by (auto simp: SendToGroup_def bind_eq_Some_conv)
  then show ?thesis
    using stir_send_each stir_then_quiet settles_exit[OF settles_refl]
      quiet_then_stir[OF settles_enter[OF settles_refl]] by blast
qed

lemma stir_wake_parent: "wake_waiting_parent c p s = Some s' \<Longrightarrow> stir s s'"
  by (auto simp: wake_waiting_parent_def stir_refl split: if_splits
      intro: quiet_then_stir[OF settles_lists(2)[OF settles_refl]] dest!: stir_unblock)

lemma stir_detach_one:
  assumes "tk_state (sc_task s1 t) = kZombie"
    "(let s' = s1\<lparr>sc_tasks := remove1 t (sc_tasks s1)\<rparr> in
       if tk_on_cpu (sc_task s' t) = -1 then Sink_reclaim t s' else Some (s'\<lparr>sc_retired := sc_retired s' @ [t]\<rparr>)) = Some s2"
  shows "stir s1 s2"
proof -
  let ?r = "s1\<lparr>sc_tasks := remove1 t (sc_tasks s1)\<rparr>"
  have "stir ?r s2"
    using assms stir.free[of ?r t] stir.retire[of ?r t] by (auto simp: Sink_reclaim_def Let_def split: if_splits)
  then show ?thesis by (rule quiet_then_stir[OF settles_lists(7)[OF settles_refl]])
qed

lemma stir_detach: "detach_each c dying adopter nodes s = Some s' \<Longrightarrow> stir s s'"
proof (induction nodes arbitrary: s)
  case Nil
  then show ?case by (simp add: stir_refl)
next
  case (Cons t rest)
  show ?case
  proof (cases "tk_parent (sc_task s t) = Some dying")
    case False
    with Cons show ?thesis by simp
  next
    case True
    show ?thesis
    proof (cases adopter)
      case (Some parent)
      let ?s1 = "on_task t (tk_parent_update (\<lambda>_. Some parent)) s"
      obtain s2 where s2: "(if tk_state (sc_task ?s1 t) = kZombie
            then do { (sent, s') \<leftarrow> SendSignal c parent kSigChld ?s1; wake_waiting_parent c parent s' }
            else Some ?s1) = Some s2" "detach_each c dying adopter rest s2 = Some s'"
        using Cons.prems True Some by (auto simp: bind_eq_Some_conv Let_def)
      have "stir ?s1 s2"
        using s2(1) by (auto simp: bind_eq_Some_conv stir_refl split: if_splits
            dest!: stir_signal stir_wake_parent intro: chain)
      from quiet_then_stir[OF settles_task(2)[OF settles_refl] chain[OF this Cons.IH[OF s2(2)]]]
      show ?thesis .
    next
      case None
      let ?s1 = "on_task t (tk_parent_update (\<lambda>_. None)) (s\<lparr>sc_offspring := remove1 t (sc_offspring s)\<rparr>)"
      obtain s2 where s2: "(if tk_state (sc_task ?s1 t) = kZombie
            then let s' = ?s1\<lparr>sc_tasks := remove1 t (sc_tasks ?s1)\<rparr> in
                 if tk_on_cpu (sc_task s' t) = -1 then Sink_reclaim t s'
                 else Some (s'\<lparr>sc_retired := sc_retired s' @ [t]\<rparr>)
            else Some ?s1) = Some s2" "detach_each c dying adopter rest s2 = Some s'"
        using Cons.prems True None by (auto simp: bind_eq_Some_conv Let_def)
      have "stir ?s1 s2"
      proof (cases "tk_state (sc_task ?s1 t) = kZombie")
        case True
        from stir_detach_one[OF True s2(1)[unfolded if_P[OF True]]] show ?thesis .
      next
        case False
        with s2(1) show ?thesis by (simp add: stir_refl)
      qed
      from quiet_then_stir[OF settles_task(2)[OF settles_lists(5)[OF settles_refl]] chain[OF this Cons.IH[OF s2(2)]]]
      show ?thesis .
    qed
  qed
qed

section \<open>What a stir keeps\<close>

abbreviation parked :: "TaskState \<Rightarrow> bool" where
  "parked v \<equiv> v = kReady \<or> v = kBlocked \<or> v = kStopped"

definition same_seats :: "Scheduler \<Rightarrow> Scheduler \<Rightarrow> bool" where
  "same_seats s s' \<longleftrightarrow>
     (\<forall>t. tk_on_cpu (sc_task s' t) = tk_on_cpu (sc_task s t) \<and> tk_class (sc_task s' t) = tk_class (sc_task s t) \<and>
        (if parked (tk_state (sc_task s t)) then parked (tk_state (sc_task s' t))
         else tk_state (sc_task s' t) = tk_state (sc_task s t))) \<and>
     (\<forall>c. cur c s' = cur c s \<and> pc_stack (sc_cpu s' c) = pc_stack (sc_cpu s c)) \<and>
     set (sc_tasks s') \<subseteq> set (sc_tasks s)"

lemma same_seats_trans: "same_seats a b \<Longrightarrow> same_seats b d \<Longrightarrow> same_seats a d"
  unfolding same_seats_def by (metis (no_types, opaque_lifting) order.trans)

lemma stir_same_seats: "stir s s' \<Longrightarrow> same_seats s s'"
proof (induction rule: stir.induct)
  case (chain a b d)
  then show ?case using same_seats_trans by blast
qed (auto simp: same_seats_def settles_def on_task_def emit_def)

text \<open>The rows hold ready tasks of their class, each once; a registered ready task is in its row.\<close>

definition rows_ok :: "Scheduler \<Rightarrow> bool" where
  "rows_ok s \<longleftrightarrow> (\<forall>cls. ClassQueue_inv (sc_row s cls) \<and> distinct (ClassQueue_content (sc_row s cls)) \<and>
     (\<forall>t\<in>set (ClassQueue_content (sc_row s cls)). tk_state (sc_task s t) = kReady \<and> tk_class (sc_task s t) = Some cls)) \<and>
     (\<forall>t\<in>set (sc_tasks s). tk_state (sc_task s t) = kReady \<longrightarrow>
        (\<exists>cls. tk_class (sc_task s t) = Some cls \<and> t \<in> set (ClassQueue_content (sc_row s cls))))"

text \<open>Tasks on their way out, and tasks already freed.\<close>

definition graves_ok :: "Scheduler \<Rightarrow> bool" where
  "graves_ok s \<longleftrightarrow> (\<forall>t\<in>reclaimed s \<union> doomed s. tk_state (sc_task s t) = kZombie \<or> tk_state (sc_task s t) = kDead) \<and>
     (\<forall>t\<in>reclaimed s. tk_on_cpu (sc_task s t) = -1)"

lemma rows_okD:
  assumes "rows_ok s"
  shows "ClassQueue_inv (sc_row s cls)" "distinct (ClassQueue_content (sc_row s cls))"
    "t \<in> set (ClassQueue_content (sc_row s cls)) \<Longrightarrow> tk_state (sc_task s t) = kReady"
    "t \<in> set (ClassQueue_content (sc_row s cls)) \<Longrightarrow> tk_class (sc_task s t) = Some cls"
    "t \<in> set (sc_tasks s) \<Longrightarrow> tk_state (sc_task s t) = kReady \<Longrightarrow>
      \<exists>cls. tk_class (sc_task s t) = Some cls \<and> t \<in> set (ClassQueue_content (sc_row s cls))"
  using assms by (auto simp: rows_ok_def)

lemma rows_ok_settles: "settles s s' \<Longrightarrow> rows_ok s \<Longrightarrow> rows_ok s'"
  unfolding rows_ok_def settles_def by (auto simp del: not_None_eq)

lemma rows_ok_enqueue:
  assumes ok: "rows_ok s" and t: "tk_state (sc_task s t) \<noteq> kReady" "tk_class (sc_task s t) = Some cls"
    and e: "SchedulingClass_enqueue cls t (sc_row s cls) = (True, row)"
  shows "rows_ok (set_state t kReady (s\<lparr>sc_row := (sc_row s)(cls := row)\<rparr>))"
proof -
  have row: "ClassQueue_inv row" "ClassQueue_content row = ClassQueue_content (sc_row s cls) @ [t]"
    using rows_okD(1)[OF ok, of cls] e by (auto elim: class_enqueue_cases[of _ cls t])
  have new: "t \<notin> set (ClassQueue_content (sc_row s cls'))" for cls'
    using rows_okD(3)[OF ok] t(1) by blast
  show ?thesis
    using ok row new t unfolding rows_ok_def on_task_def
    by (auto simp del: not_None_eq) (metis (full_types) option.inject)+
qed

lemma rows_ok_remove:
  assumes ok: "rows_ok s" and t: "tk_class (sc_task s t) = Some cls" "v \<noteq> kReady"
    and row: "ClassQueue_inv row" "ClassQueue_content row = remove1 t (ClassQueue_content (sc_row s cls))"
  shows "rows_ok (set_state t v (s\<lparr>sc_row := (sc_row s)(cls := row)\<rparr>))"
proof -
  have others: "t \<notin> set (ClassQueue_content (sc_row s cls'))" if "cls' \<noteq> cls" for cls'
    using rows_okD(4)[OF ok, of t cls'] t(1) that by auto
  have gone: "set (ClassQueue_content row) = set (ClassQueue_content (sc_row s cls)) - {t}"
    using row(2) rows_okD(2)[OF ok, of cls] by simp
  show ?thesis
    using ok row others gone t distinct_remove1[OF rows_okD(2)[OF ok, of cls]] unfolding rows_ok_def on_task_def
    by (auto simp del: not_None_eq) (metis (full_types) option.inject Diff_iff empty_iff insert_iff)+
qed

lemma rows_ok_stir: "stir s s' \<Longrightarrow> rows_ok s \<Longrightarrow> rows_ok s'"
proof (induction rule: stir.induct)
  case (quiet s s')
  then show ?case using rows_ok_settles by blast
next
  case (wake s t cls row)
  then show ?case by (intro rows_ok_enqueue) auto
next
  case (withdrawn s t cls row)
  have "ClassQueue_inv row \<and> ClassQueue_content row = remove1 t (ClassQueue_content (sc_row s cls))"
    using rows_okD(1)[OF withdrawn.prems, of cls] withdrawn.hyps(3) by (auto elim: class_remove_cases[of _ cls t])
  with withdrawn show ?case by (intro rows_ok_remove) auto
next
  case (free s t)
  then show ?case by (simp add: rows_ok_def emit_def)
next
  case (retire s t)
  then show ?case by (simp add: rows_ok_def)
next
  case (chain a b d)
  then show ?case by blast
qed

lemma graves_ok_frame:
  assumes "graves_ok s" "same_seats s s'" "reclaimed s' \<subseteq> reclaimed s" "doomed s' \<subseteq> doomed s"
  shows "graves_ok s'"
proof -
  have "tk_state (sc_task s' t) = tk_state (sc_task s t) \<and> tk_on_cpu (sc_task s' t) = tk_on_cpu (sc_task s t)"
    if "t \<in> reclaimed s \<union> doomed s" for t
    using assms(1,2) that unfolding graves_ok_def same_seats_def by (metis TaskState.distinct TaskState.simps)
  then show ?thesis using assms(1,3,4) unfolding graves_ok_def by (metis UnCI UnE subsetD)
qed

lemma graves_ok_stir: "stir s s' \<Longrightarrow> graves_ok s \<Longrightarrow> graves_ok s'"
proof (induction rule: stir.induct)
  case (quiet s s')
  then show ?case unfolding graves_ok_def settles_def by auto
next
  case (wake s t cls row)
  from graves_ok_frame[OF wake.prems stir_same_seats[OF stir.wake[OF wake.hyps]]] show ?case
    by (simp add: reclaimed_def doomed_def on_task_def)
next
  case (withdrawn s t cls row)
  from graves_ok_frame[OF withdrawn.prems stir_same_seats[OF stir.withdrawn[OF withdrawn.hyps]]] show ?case
    by (simp add: reclaimed_def doomed_def on_task_def)
next
  case (free s t)
  then show ?case by (auto simp: graves_ok_def reclaimed_def doomed_def emit_def)
next
  case (retire s t)
  then show ?case by (auto simp: graves_ok_def reclaimed_def doomed_def)
qed blast

lemma stir_reap_retired:
  "graves_ok s \<Longrightarrow> reap_retired c fuel s = Some s' \<Longrightarrow> stir s s'"
proof (induction fuel arbitrary: s)
  case 0
  then show ?case by (simp add: stir_refl)
next
  case (Suc fuel)
  let ?q = "Queue_enter c s"
  have q: "settles s ?q" by (intro settle settles_refl)
  show ?case
  proof (cases "List.find (\<lambda>scan. tk_on_cpu (sc_task ?q scan) = -1) (sc_retired ?q)")
    case None
    then have "s' = Queue_exit c ?q" using Suc.prems(2) by simp
    then show ?thesis by (simp add: quiet settle settles_refl)
  next
    case (Some t)
    define r where "r = Queue_exit c (?q\<lparr>sc_retired := remove1 t (sc_retired ?q)\<rparr>)"
    have r: "settles s r" unfolding r_def by (intro settle settles_refl)
    obtain s2 where s2: "Sink_reclaim t r = Some s2" "reap_retired c fuel s2 = Some s'"
      using Suc.prems(2) Some by (auto simp: bind_eq_Some_conv Let_def r_def)
    have "t \<in> doomed ?q" using Some by (auto simp: find_Some_iff doomed_def)
    then have "t \<in> doomed s" using q by (auto simp: settles_def)
    with Suc.prems(1) have "tk_state (sc_task s t) = kZombie \<or> tk_state (sc_task s t) = kDead"
      by (auto simp: graves_ok_def)
    then have z: "tk_state (sc_task r t) = kZombie \<or> tk_state (sc_task r t) = kDead"
      using r by (simp add: settles_def)
    have "stir r s2" using s2(1) stir.free[OF z] by (auto simp: Sink_reclaim_def split: if_splits)
    then have st: "stir s s2" by (rule quiet_then_stir[OF r])
    from chain[OF st Suc.IH[OF graves_ok_stir[OF st Suc.prems(1)] s2(2)]] show ?thesis .
  qed
qed

lemma stir_reap:
  assumes ok: "graves_ok s" and e: "Scheduler_reap_pending c s = Some s'"
  shows "stir s s'"
proof -
  obtain s1 where s1: "(case pc_pending_reap (sc_cpu s c) of None \<Rightarrow> Some s
      | Some dead \<Rightarrow> if tk_on_cpu (sc_task s dead) = -1
          then Sink_reclaim dead (on_cpu c (pc_pending_reap_update (\<lambda>_. None)) s) else Some s) = Some s1"
      "reap_retired c (length (sc_retired s1) + 1) s1 = Some s'"
    using e by (auto simp: Scheduler_reap_pending_def bind_eq_Some_conv)
  have "stir s s1"
  proof (cases "pc_pending_reap (sc_cpu s c)")
    case None
    with s1(1) show ?thesis by (simp add: stir_refl)
  next
    case (Some t)
    let ?r = "on_cpu c (pc_pending_reap_update (\<lambda>_. None)) s"
    have "t \<in> doomed s" using Some by (auto simp: doomed_def)
    then have z: "tk_state (sc_task ?r t) = kZombie \<or> tk_state (sc_task ?r t) = kDead"
      using ok by (simp add: graves_ok_def on_cpu_def)
    show ?thesis
    proof (cases "tk_on_cpu (sc_task s t) = -1")
      case True
      then have "stir ?r s1"
        using s1(1) Some stir.free[OF z] by (auto simp: Sink_reclaim_def on_cpu_def split: if_splits)
      then show ?thesis by (rule quiet_then_stir[OF settles_cpu(5)[OF settles_refl]])
    next
      case False
      with s1(1) Some show ?thesis by (simp add: stir_refl)
    qed
  qed
  from chain[OF this stir_reap_retired[OF graves_ok_stir[OF this ok] s1(2)]] show ?thesis .
qed

section \<open>Who is on which processor\<close>

fun target :: "Phase \<Rightarrow> nat option" where
  "target (Leaving p n) = n"
| "target (Entering n) = Some n"
| "target _ = None"

fun armed :: "Phase \<Rightarrow> nat option" where
  "armed (Armed p n) = Some n"
| "armed (EnterArmed n) = Some n"
| "armed _ = None"

definition phase_ok :: "nat \<Rightarrow> Scheduler \<Rightarrow> Phase \<Rightarrow> bool" where
  "phase_ok c s p =
     (let stack = pc_stack (sc_cpu s c); now = cur c s;
          state = (\<lambda>t. tk_state (sc_task s t)); on = (\<lambda>t. tk_on_cpu (sc_task s t)) in
      case p of
        Working \<Rightarrow> \<exists>t. now = Some t \<and> stack = Some t \<and> state t = kRunning
      | Reaping z \<Rightarrow> (\<exists>t. now = Some t \<and> stack = Some t \<and> state t = kRunning) \<and> state z = kZombie
      | Prepared \<Rightarrow> \<exists>t. now = Some t \<and> stack = Some t \<and> parked (state t)
      | Rotating \<Rightarrow> \<exists>t. now = Some t \<and> stack = Some t \<and> parked (state t)
      | Dying \<Rightarrow> \<exists>t. now = Some t \<and> stack = Some t \<and> (state t = kZombie \<or> state t = kDead)
      | Idle \<Rightarrow> now = None \<and> stack = None
      | Leaving q n \<Rightarrow> stack = Some q \<and> now = n \<and> (\<forall>t. n = Some t \<longrightarrow> state t = kRunning \<and> on t = -1)
      | Armed q n \<Rightarrow> stack = Some q \<and> now = Some n \<and> n \<noteq> q \<and> state n = kRunning \<and> on n = int c
      | Entering n \<Rightarrow> stack = None \<and> now = Some n \<and> state n = kRunning \<and> on n = -1
      | EnterArmed n \<Rightarrow> stack = None \<and> now = Some n \<and> state n = kRunning \<and> on n = int c)"

definition seats_ok :: "Scheduler \<Rightarrow> (nat \<Rightarrow> Phase) \<Rightarrow> bool" where
  "seats_ok s ph \<longleftrightarrow>
     (\<forall>c. phase_ok c s (ph c)) \<and>
     (\<forall>c t. pc_stack (sc_cpu s c) = Some t \<longrightarrow> tk_on_cpu (sc_task s t) = int c) \<and>
     (\<forall>c t. tk_on_cpu (sc_task s t) = int c \<longrightarrow> pc_stack (sc_cpu s c) = Some t \<or> armed (ph c) = Some t) \<and>
     (\<forall>c d t. target (ph c) = Some t \<longrightarrow> target (ph d) = Some t \<longrightarrow> c = d)"

lemma seats_okD:
  assumes "seats_ok s ph"
  shows "phase_ok c s (ph c)"
    "pc_stack (sc_cpu s c) = Some t \<Longrightarrow> tk_on_cpu (sc_task s t) = int c"
    "tk_on_cpu (sc_task s t) = int c \<Longrightarrow> pc_stack (sc_cpu s c) = Some t \<or> armed (ph c) = Some t"
    "target (ph c) = Some t \<Longrightarrow> target (ph d) = Some t \<Longrightarrow> c = d"
  using assms by (auto simp: seats_ok_def)

text \<open>The current task of a processor is on it, or is its target and on none.\<close>

lemma current_where:
  assumes "seats_ok s ph" "cur c s = Some t"
  shows "tk_on_cpu (sc_task s t) = int c \<and> target (ph c) = None \<or>
    tk_on_cpu (sc_task s t) = -1 \<and> target (ph c) = Some t \<and> tk_state (sc_task s t) = kRunning"
  using seats_okD(1)[OF assms(1), of c] seats_okD(2)[OF assms(1), of c] assms(2)
  by (cases "ph c") (auto simp: phase_ok_def Let_def)

lemma current_unique:
  assumes "seats_ok s ph" "cur c s = Some t" "cur d s = Some t"
  shows "c = d"
  using current_where[OF assms(1,2)] current_where[OF assms(1,3)] seats_okD(4)[OF assms(1)] by auto

lemma stack_unique:
  assumes "seats_ok s ph" "pc_stack (sc_cpu s c) = Some t" "pc_stack (sc_cpu s d) = Some t"
  shows "c = d"
  using seats_okD(2)[OF assms(1,2)] seats_okD(2)[OF assms(1,3)] by simp

lemma on_stack:
  "seats_ok s ph \<Longrightarrow> armed (ph c) = None \<Longrightarrow> pc_stack (sc_cpu s c) = Some t \<longleftrightarrow> tk_on_cpu (sc_task s t) = int c"
  using seats_okD(2,3) by fastforce

text \<open>A processor's phase speaks of its current task and of a zombie it holds, nothing else.\<close>

lemma phase_frame:
  assumes "phase_ok d s p" "cur d s' = cur d s" "pc_stack (sc_cpu s' d) = pc_stack (sc_cpu s d)"
    and "\<And>t. cur d s = Some t \<Longrightarrow> tk_on_cpu (sc_task s' t) = tk_on_cpu (sc_task s t) \<and>
      (if parked (tk_state (sc_task s t)) then parked (tk_state (sc_task s' t))
       else tk_state (sc_task s' t) = tk_state (sc_task s t))"
    and "\<And>z. tk_state (sc_task s z) = kZombie \<Longrightarrow> tk_state (sc_task s' z) = kZombie"
  shows "phase_ok d s' p"
  using assms(1) assms(4)[of "the (cur d s)"] assms(5) unfolding phase_ok_def Let_def assms(2,3)
  by (cases p) auto

lemma seats_ok_stir:
  assumes "seats_ok s ph" "same_seats s s'"
  shows "seats_ok s' ph"
proof -
  note same = assms(2)[unfolded same_seats_def]
  have "phase_ok d s' (ph d)" for d
    by (rule phase_frame[OF seats_okD(1)[OF assms(1)]]) (use same in auto)
  then show ?thesis using assms(1) same unfolding seats_ok_def by simp
qed

text \<open>A step of processor \<open>c\<close> that touches only tasks no other processor speaks of.\<close>

lemma seats_step:
  assumes ok: "seats_ok s ph" and mine: "phase_ok c s' p"
    and other: "\<And>d. d \<noteq> c \<Longrightarrow> cur d s' = cur d s \<and> pc_stack (sc_cpu s' d) = pc_stack (sc_cpu s d)"
    and touch: "\<And>d t. d \<noteq> c \<Longrightarrow> cur d s = Some t \<Longrightarrow>
      tk_on_cpu (sc_task s' t) = tk_on_cpu (sc_task s t) \<and> tk_state (sc_task s' t) = tk_state (sc_task s t)"
    and zomb: "\<And>z. tk_state (sc_task s z) = kZombie \<Longrightarrow> tk_state (sc_task s' z) = kZombie"
    and st: "\<And>t. pc_stack (sc_cpu s' c) = Some t \<Longrightarrow> tk_on_cpu (sc_task s' t) = int c"
    and st': "\<And>d t. d \<noteq> c \<Longrightarrow> pc_stack (sc_cpu s d) = Some t \<Longrightarrow> tk_on_cpu (sc_task s' t) = tk_on_cpu (sc_task s t)"
    and on: "\<And>t. tk_on_cpu (sc_task s' t) = int c \<Longrightarrow> pc_stack (sc_cpu s' c) = Some t \<or> armed p = Some t"
    and on': "\<And>d t. d \<noteq> c \<Longrightarrow> tk_on_cpu (sc_task s' t) = int d \<Longrightarrow> tk_on_cpu (sc_task s t) = int d"
    and tgt: "\<And>d t. d \<noteq> c \<Longrightarrow> target p = Some t \<Longrightarrow> target (ph d) = Some t \<Longrightarrow> False"
  shows "seats_ok s' (ph(c := p))"
proof -
  have 1: "phase_ok d s' ((ph(c := p)) d)" for d
  proof (cases "d = c")
    case False
    have "phase_ok d s' (ph d)"
      by (rule phase_frame[OF seats_okD(1)[OF ok]]) (use other[OF False] touch[OF False] zomb in auto)
    with False show ?thesis by simp
  qed (use mine in simp)
  have 2: "tk_on_cpu (sc_task s' t) = int d" if "pc_stack (sc_cpu s' d) = Some t" for d t
    using that st st'[of d t] other[of d] seats_okD(2)[OF ok, of d t] by (cases "d = c") auto
  have 3: "pc_stack (sc_cpu s' d) = Some t \<or> armed ((ph(c := p)) d) = Some t" if "tk_on_cpu (sc_task s' t) = int d" for d t
    using that on on'[of d t] other[of d] seats_okD(3)[OF ok, of t d] by (cases "d = c") auto
  have 4: "d = e" if "target ((ph(c := p)) d) = Some t" "target ((ph(c := p)) e) = Some t" for d e t
    using that tgt seats_okD(4)[OF ok, of d t e] by (auto split: if_splits)
  show ?thesis unfolding seats_ok_def using 1 2 3 4 by blast
qed

section \<open>The invariant, step by step\<close>

definition smp_ok :: "machine \<Rightarrow> bool" where
  "smp_ok m \<longleftrightarrow> rows_ok (fst m) \<and> graves_ok (fst m) \<and> seats_ok (fst m) (snd m)"

lemma smp_ok_stir: "smp_ok (s, ph) \<Longrightarrow> stir s s' \<Longrightarrow> smp_ok (s', ph)"
  unfolding smp_ok_def using rows_ok_stir graves_ok_stir seats_ok_stir[OF _ stir_same_seats] by auto

lemma smp_ok_settles: "smp_ok (s, ph) \<Longrightarrow> settles s s' \<Longrightarrow> smp_ok (s', ph)"
  by (rule smp_ok_stir[OF _ quiet])

lemma rows_ok_state: "rows_ok s \<Longrightarrow> tk_state (sc_task s t) \<noteq> kReady \<Longrightarrow> v \<noteq> kReady \<Longrightarrow> rows_ok (set_state t v s)"
  unfolding rows_ok_def on_task_def by auto

lemma rows_ok_current: "rows_ok (Scheduler_set_current c n s) = rows_ok s"
  by (simp add: rows_ok_def Scheduler_set_current_def on_cpu_def)

lemma graves_ok_state:
  "graves_ok s \<Longrightarrow> tk_state (sc_task s t) \<noteq> kZombie \<Longrightarrow> tk_state (sc_task s t) \<noteq> kDead \<Longrightarrow> graves_ok (set_state t v s)"
  unfolding graves_ok_def on_task_def reclaimed_def doomed_def by auto

lemma pending_current [simp]: "pc_pending_reap (sc_cpu (Scheduler_set_current c n s) d) = pc_pending_reap (sc_cpu s d)"
  by (simp add: Scheduler_set_current_def on_cpu_def)

lemma graves_ok_current: "graves_ok (Scheduler_set_current c n s) = graves_ok s"
  unfolding graves_ok_def reclaimed_def doomed_def pending_current
  by (simp add: Scheduler_set_current_def on_cpu_def)

lemma working_task:
  assumes "smp_ok (s, ph)" "ph c = Working" "cur c s = Some t"
  shows "tk_state (sc_task s t) = kRunning" "pc_stack (sc_cpu s c) = Some t" "tk_on_cpu (sc_task s t) = int c"
proof -
  note ok = assms(1)[unfolded smp_ok_def, simplified]
  show "tk_state (sc_task s t) = kRunning" "pc_stack (sc_cpu s c) = Some t"
    using seats_okD(1)[of s ph c] ok assms(2,3) by (auto simp: phase_ok_def)
  then show "tk_on_cpu (sc_task s t) = int c" using seats_okD(2) ok by blast
qed

text \<open>The state of a processor's own task changes: it parks, goes back to its row, or dies.\<close>

lemma seats_own_state:
  assumes "smp_ok (s, ph)" "ph c = Working" "cur c s = Some t"
    and "(p = Prepared \<or> p = Rotating) \<and> parked v \<or> p = Dying \<and> (v = kZombie \<or> v = kDead)"
  shows "seats_ok (set_state t v s) (ph(c := p))"
proof -
  have ok: "seats_ok s ph" using assms(1) by (simp add: smp_ok_def)
  note w = working_task[OF assms(1-3)]
  have other: "t' \<noteq> t" if "d \<noteq> c" "cur d s = Some t'" for d t'
    using current_unique[OF ok assms(3)] that by blast
  have none: "armed (ph c) = None" "target p = None" "armed p = None" using assms(2,4) by auto
  show ?thesis
  proof (rule seats_step[OF ok])
    show "phase_ok c (set_state t v s) p"
      using assms(3,4) w by (auto simp: phase_ok_def on_task_def)
    show "tk_on_cpu (sc_task (set_state t v s) u) = int c" if "pc_stack (sc_cpu (set_state t v s) c) = Some u" for u
      using that w by (simp add: on_task_def)
    show "pc_stack (sc_cpu (set_state t v s) c) = Some u \<or> armed p = Some u"
      if "tk_on_cpu (sc_task (set_state t v s) u) = int c" for u
      using that seats_okD(3)[OF ok, of u c] none by (auto simp: on_task_def split: if_splits)
  qed (use other none w in \<open>auto simp: on_task_def split: if_splits\<close>)
qed

lemma own_parks:
  assumes "smp_ok (s, ph)" "ph c = Working" "cur c s = Some t" "v = kBlocked \<or> v = kStopped"
  shows "smp_ok (set_state t v s, ph(c := Prepared))"
  using assms working_task(1)[OF assms(1-3)] seats_own_state[OF assms(1-3), of Prepared v]
  by (auto simp: smp_ok_def intro!: rows_ok_state graves_ok_state)

lemma own_dies:
  assumes "smp_ok (s, ph)" "ph c = Working" "cur c s = Some t" "v = kZombie \<or> v = kDead"
  shows "smp_ok (set_state t v s, ph(c := Dying))"
  using assms working_task(1)[OF assms(1-3)] seats_own_state[OF assms(1-3), of Dying v]
  by (auto simp: smp_ok_def intro!: rows_ok_state graves_ok_state)

lemma seats_ok_row: "seats_ok (s\<lparr>sc_row := r\<rparr>) ph = seats_ok s ph"
  by (simp add: seats_ok_def phase_ok_def)

lemma graves_ok_row: "graves_ok (s\<lparr>sc_row := r\<rparr>) = graves_ok s"
  by (simp add: graves_ok_def reclaimed_def doomed_def)

lemma own_requeues:
  assumes "smp_ok (s, ph)" "ph c = Working" "cur c s = Some t" "row_enqueue t s = Some (True, s1)"
  shows "smp_ok (set_state t kReady s1, ph(c := Rotating))"
  using assms(4)
proof (cases rule: row_enqueue_cases)
  case (1 cls row)
  note run = working_task(1)[OF assms(1-3)]
  have comm: "set_state t kReady s1 = (set_state t kReady s)\<lparr>sc_row := (sc_row s)(cls := row)\<rparr>"
    using 1(3) by (simp add: on_task_def)
  have "seats_ok (set_state t kReady s1) (ph(c := Rotating))"
    unfolding comm seats_ok_row by (rule seats_own_state[OF assms(1-3)]) simp
  moreover have "graves_ok (set_state t kReady s1)"
    unfolding comm graves_ok_row using assms(1) run by (intro graves_ok_state) (simp_all add: smp_ok_def)
  moreover have "rows_ok (set_state t kReady s1)"
    unfolding 1(3) using assms(1) run 1(1,2) by (intro rows_ok_enqueue) (simp_all add: smp_ok_def)
  ultimately show ?thesis by (simp add: smp_ok_def)
qed

section \<open>Picks\<close>

lemma class_pick_result:
  assumes "rows_ok s"
  obtains (none) "class_pick c cls s = (None, s)" "\<forall>t\<in>set (ClassQueue_content (sc_row s cls)). \<not> row_available c s t"
    | (some) t row where "class_pick c cls s = (Some t, s\<lparr>sc_row := (sc_row s)(cls := row)\<rparr>)"
        "t \<in> set (ClassQueue_content (sc_row s cls))" "row_available c s t" "ClassQueue_inv row"
        "ClassQueue_content row = remove1 t (ClassQueue_content (sc_row s cls))"
proof (rule class_pick_cases[OF rows_okD(1)[OF assms, of cls], of cls "\<lambda>t. tk_priority (sc_task s t)" "row_available c s"])
  fix t q' xs ys
  assume pick: "SchedulingClass_pick cls (\<lambda>t. tk_priority (sc_task s t)) (row_available c s) (sc_row s cls) = (Some t, q')"
    and q: "ClassQueue_inv q'" "row_available c s t" "ClassQueue_content (sc_row s cls) = xs @ t # ys"
      "ClassQueue_content q' = xs @ ys"
  have "t \<notin> set xs" using rows_okD(2)[OF assms, of cls] q(3) by auto
  then have "ClassQueue_content q' = remove1 t (ClassQueue_content (sc_row s cls))"
    using q(3,4) by (simp add: remove1_append)
  with pick q show thesis by (intro some[of t q']) (simp_all add: class_pick_def)
next
  assume "SchedulingClass_pick cls (\<lambda>t. tk_priority (sc_task s t)) (row_available c s) (sc_row s cls) = (None, sc_row s cls)"
    and "\<forall>t\<in>set (ClassQueue_content (sc_row s cls)). \<not> row_available c s t"
  then show thesis by (intro none) (simp_all add: class_pick_def)
qed

lemma pick_among_result:
  assumes "rows_ok s"
  obtains (none) "pick_among c clss s = (None, s)"
        "\<forall>cls\<in>set clss. \<forall>t\<in>set (ClassQueue_content (sc_row s cls)). \<not> row_available c s t"
    | (some) t cls row where "pick_among c clss s = (Some t, s\<lparr>sc_row := (sc_row s)(cls := row)\<rparr>)"
        "t \<in> set (ClassQueue_content (sc_row s cls))" "row_available c s t" "ClassQueue_inv row"
        "ClassQueue_content row = remove1 t (ClassQueue_content (sc_row s cls))"
proof (induction clss arbitrary: thesis)
  case Nil
  then show ?case by simp
next
  case (Cons cls clss)
  from assms show ?case
  proof (cases rule: class_pick_result[of s c cls])
    case none
    note here = none
    show ?thesis
    proof (rule Cons.IH)
      assume "pick_among c clss s = (None, s)"
        "\<forall>cls\<in>set clss. \<forall>t\<in>set (ClassQueue_content (sc_row s cls)). \<not> row_available c s t"
      with here show thesis by (intro Cons.prems(1)) simp_all
    next
      fix t cls' row
      assume "pick_among c clss s = (Some t, s\<lparr>sc_row := (sc_row s)(cls' := row)\<rparr>)"
        "t \<in> set (ClassQueue_content (sc_row s cls'))" "row_available c s t" "ClassQueue_inv row"
        "ClassQueue_content row = remove1 t (ClassQueue_content (sc_row s cls'))"
      with here show thesis by (intro Cons.prems(2)[of t cls' row]) (simp_all add: fun_upd_def)
    qed
  next
    case (some t row)
    then show ?thesis by (intro Cons.prems(2)[of t cls row]) (simp_all add: fun_upd_def)
  qed
qed

text \<open>The picked task is marked running and becomes current.\<close>

abbreviation dispatch :: "nat \<Rightarrow> nat \<Rightarrow> Scheduler \<Rightarrow> Scheduler" where
  "dispatch c t s \<equiv> set_state t kRunning (Scheduler_set_current c (Some t) s)"

lemma pick_dispatch:
  assumes ok: "smp_ok (s, ph)" and free: "armed (ph c) = None" "target (ph c) = None"
    and pick: "Scheduler_pick_next c s = (Some t, s1)"
    and mine: "phase_ok c (dispatch c t s1) p" "armed p = None" "target p = None \<or> target p = Some t"
  shows "smp_ok (dispatch c t s1, ph(c := p))"
proof -
  have rows: "rows_ok s" and graves: "graves_ok s" and seats: "seats_ok s ph" using ok by (simp_all add: smp_ok_def)
  obtain cls row where s1: "s1 = s\<lparr>sc_row := (sc_row s)(cls := row)\<rparr>"
      and t: "t \<in> set (ClassQueue_content (sc_row s cls))" "row_available c s t" "ClassQueue_inv row"
        "ClassQueue_content row = remove1 t (ClassQueue_content (sc_row s cls))"
  proof (rule pick_among_result[OF rows, of c "StaticStack_view (sc_classes s)"])
    assume "pick_among c (StaticStack_view (sc_classes s)) s = (None, s)"
    with pick show thesis by (simp add: Scheduler_pick_next_def)
  next
    fix t' cls row
    assume a: "pick_among c (StaticStack_view (sc_classes s)) s = (Some t', s\<lparr>sc_row := (sc_row s)(cls := row)\<rparr>)"
      "t' \<in> set (ClassQueue_content (sc_row s cls))" "row_available c s t'" "ClassQueue_inv row"
      "ClassQueue_content row = remove1 t' (ClassQueue_content (sc_row s cls))"
    with pick have "t' = t" "s1 = s\<lparr>sc_row := (sc_row s)(cls := row)\<rparr>" by (simp_all add: Scheduler_pick_next_def)
    with a(2-) show thesis by (intro that[of cls row]) simp_all
  qed
  have ready: "tk_state (sc_task s t) = kReady" "tk_class (sc_task s t) = Some cls"
    using rows_okD(3,4)[OF rows t(1)] by simp_all
  have comm: "dispatch c t s1 = Scheduler_set_current c (Some t) (set_state t kRunning s1)"
    by (simp add: Scheduler_set_current_def on_task_def on_cpu_def)
  have "rows_ok (set_state t kRunning s1)"
    unfolding s1 using rows ready(2) t(3,4) by (intro rows_ok_remove) simp_all
  then have "rows_ok (dispatch c t s1)" unfolding comm rows_ok_current .
  moreover have "graves_ok (dispatch c t s1)"
    unfolding comm graves_ok_current
    using graves ready(1) by (intro graves_ok_state) (simp_all add: s1 graves_ok_row)
  moreover have "seats_ok (dispatch c t s1) (ph(c := p))"
  proof (rule seats_step[OF seats mine(1)])
    have other: "t' \<noteq> t" if "d \<noteq> c" "cur d s = Some t'" for d t'
      using current_where[OF seats that(2)] t(2) ready(1) that(1) by (auto simp: row_available_def)
    show "tk_on_cpu (sc_task (dispatch c t s1) t') = tk_on_cpu (sc_task s t') \<and>
        tk_state (sc_task (dispatch c t s1) t') = tk_state (sc_task s t')" if "d \<noteq> c" "cur d s = Some t'" for d t'
      using other[OF that] by (simp add: s1 on_task_def Scheduler_set_current_def on_cpu_def)
    show False if "d \<noteq> c" "target p = Some t'" "target (ph d) = Some t'" for d t'
    proof -
      have "t' = t" using mine(3) that(2) by auto
      moreover have "tk_state (sc_task s t') = kRunning"
        using seats_okD(1)[OF seats, of d] that(3) by (cases "ph d") (auto simp: phase_ok_def)
      ultimately show False using ready(1) by simp
    qed
    show "pc_stack (sc_cpu (dispatch c t s1) c) = Some t' \<or> armed p = Some t'"
      if "tk_on_cpu (sc_task (dispatch c t s1) t') = int c" for t'
      using that seats_okD(3)[OF seats, of t' c] free(1)
      by (auto simp: s1 on_task_def Scheduler_set_current_def on_cpu_def split: if_splits)
  qed (use ready(1) seats_okD(2)[OF seats] in
      \<open>auto simp: s1 on_task_def Scheduler_set_current_def on_cpu_def split: if_splits\<close>)
  ultimately show ?thesis by (simp add: smp_ok_def)
qed

lemma pick_nothing:
  assumes "rows_ok s" "Scheduler_pick_next c s = (None, s1)"
  shows "s1 = s"
  using assms(2) unfolding Scheduler_pick_next_def
  by (rule_tac pick_among_result[OF assms(1), of c "StaticStack_view (sc_classes s)"]) auto

lemma pick_nobody:
  assumes ok: "smp_ok (s, ph)" and free: "armed (ph c) = None"
    and mine: "phase_ok c (Scheduler_set_current c None s) p" "target p = None" "armed p = None"
  shows "smp_ok (Scheduler_set_current c None s, ph(c := p))"
proof -
  have seats: "seats_ok s ph" using ok by (simp add: smp_ok_def)
  have "seats_ok (Scheduler_set_current c None s) (ph(c := p))"
    by (rule seats_step[OF seats mine(1)])
      (use on_stack[OF seats free] mine(2,3) in \<open>auto simp: Scheduler_set_current_def on_cpu_def\<close>)
  then show ?thesis using ok by (simp add: smp_ok_def rows_ok_current graves_ok_current)
qed

text \<open>A processor that stands on the stack of its parked or dying task picks the next one.\<close>

lemma pick_departs:
  assumes ok: "smp_ok (s, ph)" and ph: "ph c = Prepared \<or> ph c = Rotating \<or> ph c = Dying" and prev: "cur c s = Some prev"
    and pick: "Scheduler_pick_next c s = (nxt, s1)"
  shows "smp_ok (case nxt of None \<Rightarrow> Scheduler_set_current c None s1 | Some t \<Rightarrow> dispatch c t s1,
    ph(c := departs prev nxt))"
proof -
  have rows: "rows_ok s" and seats: "seats_ok s ph" using ok by (simp_all add: smp_ok_def)
  have stack: "pc_stack (sc_cpu s c) = Some prev"
    using seats_okD(1)[OF seats, of c] ph prev by (auto simp: phase_ok_def)
  have free: "armed (ph c) = None" "target (ph c) = None" using ph by auto
  show ?thesis
  proof (cases nxt)
    case None
    then have s1: "s1 = s" using pick_nothing[OF rows] pick by simp
    have "phase_ok c (Scheduler_set_current c None s) (Leaving prev None)"
      using stack by (simp add: phase_ok_def Scheduler_set_current_def on_cpu_def)
    from pick_nobody[OF ok free(1) this] show ?thesis by (simp add: None s1 departs_def)
  next
    case (Some t)
    obtain cls row where s1: "s1 = s\<lparr>sc_row := (sc_row s)(cls := row)\<rparr>" and av: "row_available c s t"
      using pick Some unfolding Scheduler_pick_next_def
      by (rule_tac pick_among_result[OF rows, of c "StaticStack_view (sc_classes s)"]) auto
    have away: "tk_on_cpu (sc_task s t) = -1" if "t \<noteq> prev"
      using av seats_okD(3)[OF seats, of t c] stack free that by (auto simp: row_available_def)
    have "phase_ok c (dispatch c t s1) (departs prev (Some t))"
      using stack away
      by (auto simp: phase_ok_def departs_def s1 on_task_def Scheduler_set_current_def on_cpu_def)
    from pick_dispatch[OF ok free pick[unfolded Some] this] show ?thesis
      by (auto simp: Some departs_def)
  qed
qed

lemma pick_enters:
  assumes ok: "smp_ok (s, ph)" and ph: "ph c = Idle" and pick: "Scheduler_pick_next c s = (Some t, s1)"
  shows "smp_ok (dispatch c t s1, ph(c := Entering t))"
proof -
  have rows: "rows_ok s" and seats: "seats_ok s ph" using ok by (simp_all add: smp_ok_def)
  have stack: "pc_stack (sc_cpu s c) = None" using seats_okD(1)[OF seats, of c] ph by (auto simp: phase_ok_def)
  obtain cls row where s1: "s1 = s\<lparr>sc_row := (sc_row s)(cls := row)\<rparr>" and av: "row_available c s t"
    using pick unfolding Scheduler_pick_next_def
    by (rule_tac pick_among_result[OF rows, of c "StaticStack_view (sc_classes s)"]) auto
  have "tk_on_cpu (sc_task s t) = -1"
    using av seats_okD(3)[OF seats, of t c] stack ph by (auto simp: row_available_def)
  then have "phase_ok c (dispatch c t s1) (Entering t)"
    using stack by (simp add: phase_ok_def s1 on_task_def Scheduler_set_current_def on_cpu_def)
  from pick_dispatch[OF ok _ _ pick this] show ?thesis by (simp add: ph)
qed

section \<open>Switches\<close>

lemma rows_ok_on_cpu: "rows_ok (on_task t (tk_on_cpu_update f) s) = rows_ok s" "rows_ok (on_cpu c (pc_stack_update g) s) = rows_ok s"
  by (auto simp: rows_ok_def on_task_def on_cpu_def)

lemma graves_ok_stack: "graves_ok (on_cpu c (pc_stack_update g) s) = graves_ok s"
proof -
  have "pc_pending_reap (sc_cpu (on_cpu c (pc_stack_update g) s) d) = pc_pending_reap (sc_cpu s d)" for d
    by (simp add: on_cpu_def)
  then show ?thesis unfolding graves_ok_def reclaimed_def doomed_def by (simp add: on_cpu_def)
qed

lemma lists_on_task [simp]: "reclaimed (on_task t f s) = reclaimed s" "doomed (on_task t f s) = doomed s"
  by (simp_all add: reclaimed_def doomed_def on_task_def)

lemma graves_ok_alive:
  "graves_ok s \<Longrightarrow> tk_state (sc_task s t) = kRunning \<Longrightarrow> t \<notin> reclaimed s \<and> t \<notin> doomed s"
  by (force simp: graves_ok_def)

lemma graves_ok_arm:
  assumes "graves_ok s" "tk_state (sc_task s t) = kRunning"
  shows "graves_ok (arm_incoming c t s)"
  using assms graves_ok_alive[OF assms]
  unfolding graves_ok_def arm_incoming_def lists_on_task by (auto simp: on_task_def)

lemma graves_ok_release: "graves_ok s \<Longrightarrow> graves_ok (on_task t (tk_on_cpu_update (\<lambda>_. -1)) s)"
  unfolding graves_ok_def lists_on_task by (auto simp: on_task_def)

lemma smp_arm:
  assumes ok: "smp_ok (s, ph)" and ph: "ph c = Leaving prev (Some t) \<and> p = Armed prev t \<or> ph c = Entering t \<and> p = EnterArmed t"
  shows "smp_ok (arm_incoming c t s, ph(c := p))"
proof -
  have seats: "seats_ok s ph" and rest: "rows_ok s" "graves_ok s" using ok by (simp_all add: smp_ok_def)
  have t: "cur c s = Some t" "tk_state (sc_task s t) = kRunning" "tk_on_cpu (sc_task s t) = -1"
    using seats_okD(1)[OF seats, of c] ph by (auto simp: phase_ok_def)
  have off: "pc_stack (sc_cpu s d) \<noteq> Some t" for d using seats_okD(2)[OF seats, of d t] t(3) by auto
  have other: "t' \<noteq> t" if "d \<noteq> c" "cur d s = Some t'" for d t'
    using current_unique[OF seats t(1)] that by blast
  have free: "armed (ph c) = None" using ph by auto
  have mine: "phase_ok c (arm_incoming c t s) p"
    using seats_okD(1)[OF seats, of c] ph off[of c] by (auto simp: phase_ok_def arm_incoming_def on_task_def)
  have "seats_ok (arm_incoming c t s) (ph(c := p))"
    by (rule seats_step[OF seats mine])
      (use other off t on_stack[OF seats free] ph in \<open>auto simp: arm_incoming_def on_task_def split: if_splits\<close>)
  with rest t(2) show ?thesis
    by (simp add: smp_ok_def graves_ok_arm) (simp add: arm_incoming_def rows_ok_on_cpu)
qed

lemma smp_switch:
  assumes ok: "smp_ok (s, ph)"
    and ph: "ph c = Armed prev t \<and> out = Some prev \<and> inn = Some t \<and> p = Working \<or>
      ph c = EnterArmed t \<and> out = None \<and> inn = Some t \<and> p = Working \<or>
      ph c = Leaving prev None \<and> out = Some prev \<and> inn = None \<and> p = Idle"
  shows "smp_ok (ContextSwitch c out inn s, ph(c := p))"
proof -
  have seats: "seats_ok s ph" and rest: "rows_ok s" "graves_ok s" using ok by (simp_all add: smp_ok_def)
  have out: "out = pc_stack (sc_cpu s c)" using seats_okD(1)[OF seats, of c] ph by (auto simp: phase_ok_def)
  have mine: "phase_ok c (ContextSwitch c out inn s) p"
    using seats_okD(1)[OF seats, of c] ph by (auto simp: phase_ok_def ContextSwitch_def on_task_def on_cpu_def)
  have on_out: "tk_on_cpu (sc_task s q) = int c" if "out = Some q" for q
    using seats_okD(2)[OF seats, of c q] that out by simp
  have on_inn: "tk_on_cpu (sc_task s q) = int c \<and> out \<noteq> Some q" if "inn = Some q" for q
    using seats_okD(1)[OF seats, of c] ph that by (auto simp: phase_ok_def)
  have gone: "cur d s \<noteq> Some q \<and> pc_stack (sc_cpu s d) \<noteq> Some q" if "out = Some q" "d \<noteq> c" for d q
    using current_where[OF seats, of d q] seats_okD(2)[OF seats, of d q] on_out[OF that(1)] that(2) by auto
  have arm: "armed (ph c) = inn" using ph by auto
  have "seats_ok (ContextSwitch c out inn s) (ph(c := p))"
  proof (rule seats_step[OF seats mine])
    show "pc_stack (sc_cpu (ContextSwitch c out inn s) c) = Some q \<or> armed p = Some q"
      if "tk_on_cpu (sc_task (ContextSwitch c out inn s) q) = int c" for q
      using that seats_okD(3)[OF seats, of q c] arm out
      by (auto simp: ContextSwitch_def on_task_def on_cpu_def split: option.splits if_splits)
  qed (use ph gone on_inn seats_okD(2)[OF seats] in
      \<open>auto simp: ContextSwitch_def on_task_def on_cpu_def split: option.splits if_splits\<close>)
  moreover have "rows_ok (ContextSwitch c out inn s)" "graves_ok (ContextSwitch c out inn s)"
    using rest unfolding ContextSwitch_def Let_def
    by (cases out; simp add: rows_ok_on_cpu graves_ok_stack graves_ok_release)+
  ultimately show ?thesis by (simp add: smp_ok_def)
qed

section \<open>Every step keeps the invariant\<close>

lemma cur_enter [simp]: "cur d (Queue_enter c s) = cur d s"
  by (simp add: Queue_enter_def on_cpu_def)

lemma enter_ok: "smp_ok (s, ph) \<Longrightarrow> smp_ok (Queue_enter c s, ph)"
  by (rule smp_ok_settles[OF _ settles_enter[OF settles_refl]])

lemma exit_ok: "smp_ok (s, ph) \<Longrightarrow> smp_ok (Queue_exit c s, ph)"
  by (rule smp_ok_settles[OF _ settles_exit[OF settles_refl]])

lemma prepare_ok:
  assumes "smp_ok (s, ph)" "ph c = Working" "Scheduler_prepare_to_wait c s = Some s'"
  shows "smp_ok (s', ph(c := Prepared))"
proof -
  obtain self where "cur c s = Some self" "s' = Queue_exit c (set_state self kBlocked (Queue_enter c s))"
    using assms(3) by (auto simp: Scheduler_prepare_to_wait_def split: option.splits)
  then show ?thesis
    using exit_ok own_parks[OF enter_ok[OF assms(1)] assms(2), of c self kBlocked] by simp
qed

lemma stop_ok:
  assumes "smp_ok (s, ph)" "ph c = Working" "mark_stopped c depth s = Some s'"
  shows "smp_ok (s', ph(c := Prepared))"
proof -
  obtain self where "cur c s = Some self" "s' = Queue_exit c (set_state self kStopped (Queue_enter c s))"
    using assms(3) by (auto simp: mark_stopped_def split: option.splits)
  then show ?thesis
    using exit_ok own_parks[OF enter_ok[OF assms(1)] assms(2), of c self kStopped] by simp
qed

lemma wait_completion_ok:
  assumes "smp_ok (s, ph)" "ph c = Working" "Completion_wait_start c d s = Some (None, s')"
  shows "smp_ok (s', ph(c := Prepared))"
proof -
  obtain self where "Scheduler_prepare_to_wait c (on_completion d (cm_waiters_update (\<lambda>w. w @ [self])) s) = Some s'"
    using assms(3) by (auto simp: Completion_wait_start_def bind_eq_Some_conv split: if_splits option.splits)
  with assms(1,2) show ?thesis
    by (intro prepare_ok[OF smp_ok_settles[OF assms(1) settles_lists(4)[OF settles_refl]]])
qed

lemma wait_word_ok:
  assumes "smp_ok (s, ph)" "ph c = Working" "ParkOnWord_start c uaddr present expected s = Some (None, s')"
  shows "smp_ok (s', ph(c := Prepared))"
proof -
  obtain self bs where "Scheduler_prepare_to_wait c
      ((on_task self (tk_futex_uaddr_update (\<lambda>_. uaddr)) s)\<lparr>sc_buckets := bs\<rparr>) = Some s'"
    using assms(3) by (auto simp: ParkOnWord_start_def Let_def bind_eq_Some_conv split: if_splits option.splits)
  with assms(1,2) show ?thesis
    by (intro prepare_ok[OF smp_ok_settles[OF assms(1) settles_lists(3)[OF settles_task(4)[OF settles_refl]]]])
qed

lemma zombie_scan_zombie:
  "zombie_scan w wanted nodes has s = (Some t, h) \<Longrightarrow> tk_state (sc_task s t) = kZombie"
  by (induction nodes arbitrary: has) (auto simp: Let_def split: if_splits)

lemma wait_child_cases:
  assumes "wait_child_turn c depth wanted no_hang s = Some (answer, s')"
  obtains (found) t pid code where "answer = Receipt t pid code" "tk_state (sc_task s t) = kZombie" "settles s s'"
    | (parks) self where "answer = Parked" "cur c s = Some self"
        "s' = Queue_exit c (set_state self kBlocked ((Queue_enter c s)\<lparr>sc_waiters := sc_waiters (Queue_enter c s) @ [self]\<rparr>))"
    | (without) "answer = NoChild \<or> answer = NotYet" "settles s s'"
proof -
  let ?q = "Queue_enter c s"
  obtain self where self: "cur c s = Some self"
    using assms by (auto simp: wait_child_turn_def split: option.splits)
  obtain match has where scan: "zombie_scan self wanted (sc_offspring ?q) False ?q = (match, has)" by fastforce
  show thesis
  proof (cases match)
    case (Some t)
    then have s': "s' = Queue_exit c (?q\<lparr>sc_offspring := remove1 t (sc_offspring ?q), sc_tasks := remove1 t (sc_tasks ?q)\<rparr>)"
      "\<exists>pid code. answer = Receipt t pid code"
      using assms self scan by (auto simp: wait_child_turn_def Scheduler_take_zombie_child_def Let_def)
    have "settles s ((?q\<lparr>sc_offspring := remove1 t (sc_offspring ?q)\<rparr>)\<lparr>sc_tasks :=
        remove1 t (sc_tasks (?q\<lparr>sc_offspring := remove1 t (sc_offspring ?q)\<rparr>))\<rparr>)"
      by (intro settle settles_refl)
    then have "settles s s'" unfolding s'(1) by (intro settles_exit) simp
    moreover have "tk_state (sc_task s t) = kZombie" using zombie_scan_zombie scan Some by fastforce
    ultimately show thesis using s'(2) found by blast
  next
    case None
    then consider "answer = Parked" "s' = Queue_exit c (set_state self kBlocked (?q\<lparr>sc_waiters := sc_waiters ?q @ [self]\<rparr>))"
      | "answer = NoChild \<or> answer = NotYet" "s' = Queue_exit c ?q"
      using assms self scan by (auto simp: wait_child_turn_def Scheduler_take_zombie_child_def Let_def split: if_splits)
    then show thesis
    proof cases
      case 1
      from parks[OF 1(1) self 1(2)] show thesis .
    next
      case 2
      have "settles s (Queue_exit c ?q)" by (intro settle settles_refl)
      from without[OF 2(1) this[folded 2(2)]] show thesis .
    qed
  qed
qed

lemma wait_child_ok:
  assumes "smp_ok (s, ph)" "ph c = Working" "wait_child_turn c depth wanted no_hang s = Some (Parked, s')"
  shows "smp_ok (s', ph(c := Prepared))"
  using assms(3)
proof (cases rule: wait_child_cases)
  case (parks self)
  from own_parks[OF smp_ok_settles[OF enter_ok[OF assms(1), of c] settles_lists(2)[OF settles_refl]] assms(2)]
  show ?thesis unfolding parks(3) using parks(2) by (intro exit_ok) simp
qed simp_all

lemma smp_ok_phase:
  assumes "smp_ok (s, ph)" "phase_ok c s p" "armed (ph c) = None" "target p = None"
  shows "smp_ok (s, ph(c := p))"
proof -
  have seats: "seats_ok s ph" using assms(1) by (simp add: smp_ok_def)
  have "seats_ok s (ph(c := p))"
    by (rule seats_step[OF seats assms(2)]) (use on_stack[OF seats assms(3)] assms(4) in auto)
  with assms(1) show ?thesis by (simp add: smp_ok_def)
qed

lemma take_child_ok:
  assumes "smp_ok (s, ph)" "ph c = Working" "wait_child_turn c depth wanted no_hang s = Some (Receipt t pid code, s')"
  shows "smp_ok (s', ph(c := Reaping t))"
  using assms(3)
proof (cases rule: wait_child_cases)
  case (found t' pid' code')
  have ok: "smp_ok (s', ph)" by (rule smp_ok_settles[OF assms(1) found(3)])
  then have "phase_ok c s' Working" using seats_okD(1)[of s' ph c] assms(2) by (simp add: smp_ok_def)
  moreover have "tk_state (sc_task s' t) = kZombie" using found by (simp add: settles_def)
  ultimately have "phase_ok c s' (Reaping t)" by (simp add: phase_ok_def)
  with ok show ?thesis by (rule smp_ok_phase) (simp_all add: assms(2))
qed simp_all

lemma reclaim_child_ok:
  assumes "smp_ok (s, ph)" "ph c = Reaping t" "Sink_reclaim t s = Some s'"
  shows "smp_ok (s', ph(c := Working))"
proof -
  have p: "phase_ok c s (Reaping t)" using assms(1,2) seats_okD(1)[of s ph c] by (simp add: smp_ok_def)
  then have z: "tk_state (sc_task s t) = kZombie \<or> tk_state (sc_task s t) = kDead" by (simp add: phase_ok_def)
  have "stir s s'" using assms(3) stir.free[OF z] by (auto simp: Sink_reclaim_def split: if_splits)
  then have ok: "smp_ok (s', ph)" by (rule smp_ok_stir[OF assms(1)])
  then have "phase_ok c s' (Reaping t)" using assms(2) seats_okD(1)[of s' ph c] by (simp add: smp_ok_def)
  then have "phase_ok c s' Working" by (simp add: phase_ok_def)
  with ok show ?thesis by (rule smp_ok_phase) (simp_all add: assms(2))
qed

lemma slice_ok: "smp_ok (s, ph) \<Longrightarrow> smp_ok (on_cpu c (pc_slice_ticks_update f) s, ph)"
  by (rule smp_ok_settles[OF _ settles_cpu(4)[OF settles_refl]])

lemma schedule_ok:
  assumes "smp_ok (s, ph)" "ph c = Prepared" "cur c s = Some prev" "pick_blocked c s = (nxt, s')"
  shows "smp_ok (s', ph(c := departs prev nxt))"
proof -
  obtain s1 where s1: "Scheduler_pick_next c (Queue_enter c s) = (nxt, s1)"
      "s' = Queue_exit c (on_cpu c (pc_slice_ticks_update (\<lambda>_. 0))
         (case nxt of None \<Rightarrow> Scheduler_set_current c None s1 | Some t \<Rightarrow> dispatch c t s1))"
    using assms(4) by (auto simp: pick_blocked_def Let_def split: prod.splits option.splits)
  from pick_departs[OF enter_ok[OF assms(1)] _ _ s1(1)] show ?thesis
    unfolding s1(2) using assms(2,3) by (intro exit_ok slice_ok) simp
qed

lemma rotate_ok:
  assumes "smp_ok (s, ph)" "ph c = Rotating" "cur c s = Some prev" "pick_rotation c s = Some (nxt, s')"
  shows "smp_ok (s', ph(c := departs prev (Some nxt)))"
proof -
  obtain s1 where s1: "Scheduler_pick_next c (Queue_enter c s) = (Some nxt, s1)"
      "s' = on_cpu c (pc_slice_ticks_update (\<lambda>_. 0)) (Queue_exit c (dispatch c nxt s1))"
    using assms(4) by (auto simp: pick_rotation_def split: prod.splits option.splits)
  from pick_departs[OF enter_ok[OF assms(1)] _ _ s1(1)] show ?thesis
    unfolding s1(2) using assms(2,3) by (intro exit_ok slice_ok) simp
qed

lemma main_pick_ok:
  assumes "smp_ok (s, ph)" "ph c = Idle" "pick_main c s = (nxt, s')"
  shows "smp_ok (s', ph(c := case nxt of None \<Rightarrow> Idle | Some t \<Rightarrow> Entering t))"
proof (cases nxt)
  case None
  then obtain s1 where s1: "Scheduler_pick_next c (Queue_enter c s) = (None, s1)" "s' = Queue_exit c s1"
    using assms(3) by (auto simp: pick_main_def split: prod.splits option.splits)
  have ok: "smp_ok (Queue_enter c s, ph)" by (rule enter_ok[OF assms(1)])
  then have "s1 = Queue_enter c s" using pick_nothing[OF _ s1(1)] by (simp add: smp_ok_def)
  moreover have "ph(c := Idle) = ph" using assms(2) by auto
  ultimately show ?thesis using exit_ok[OF ok] s1(2) None by simp
next
  case (Some t)
  then obtain s1 where s1: "Scheduler_pick_next c (Queue_enter c s) = (Some t, s1)"
      "s' = Queue_exit c (on_cpu c (pc_slice_ticks_update (\<lambda>_. 0)) (dispatch c t s1))"
    using assms(3) by (auto simp: pick_main_def split: prod.splits option.splits)
  show ?thesis
    unfolding s1(2) Some option.case using pick_enters[OF enter_ok[OF assms(1)] assms(2) s1(1)]
    by (intro exit_ok slice_ok)
qed

lemma requeue_ok:
  assumes "smp_ok (s, ph)" "ph c = Working" "cur c s = Some self" "requeue_self c self s = Some (rotated, s')"
  shows "smp_ok (s', ph(c := if rotated then Rotating else Working))"
proof -
  obtain s1 where s1: "row_enqueue self (Queue_enter c s) = Some (rotated, s1)"
      "s' = (if rotated then Queue_exit c (set_state self kReady s1) else Queue_exit c (refuse s1))"
    using assms(4) by (auto simp: requeue_self_def bind_eq_Some_conv split: if_splits)
  show ?thesis
  proof (cases rotated)
    case True
    then have "row_enqueue self (Queue_enter c s) = Some (True, s1)" using s1(1) by simp
    with own_requeues[OF enter_ok[OF assms(1)] assms(2) _ this] assms(3) True show ?thesis
      unfolding s1(2) by (simp add: exit_ok)
  next
    case False
    then have "s1 = Queue_enter c s" using s1(1) by (auto elim: row_enqueue_cases)
    then have "settles s s'" unfolding s1(2) using False by (auto intro!: settle settles_refl)
    moreover have "ph(c := Working) = ph" using assms(2) by auto
    ultimately show ?thesis using smp_ok_settles[OF assms(1)] False by simp
  qed
qed

lemma stir_cur: "stir s s' \<Longrightarrow> cur c s' = cur c s"
  using stir_same_seats by (simp add: same_seats_def)

lemma doom_ok:
  assumes "smp_ok (s, ph)" "tk_state (sc_task s t) = kDead"
  shows "smp_ok (on_cpu c (pc_pending_reap_update (\<lambda>_. Some t)) s, ph)"
proof -
  let ?s = "on_cpu c (pc_pending_reap_update (\<lambda>_. Some t)) s"
  have "same_seats s ?s" by (auto simp: same_seats_def on_cpu_def)
  moreover have "rows_ok ?s = rows_ok s" by (simp add: rows_ok_def on_cpu_def)
  moreover have "doomed ?s \<subseteq> insert t (doomed s)" "reclaimed ?s = reclaimed s" "sc_task ?s = sc_task s"
    by (auto simp: doomed_def reclaimed_def on_cpu_def split: if_splits)
  ultimately show ?thesis
    using assms seats_ok_stir unfolding smp_ok_def graves_ok_def by auto
qed

lemma exit_record_ok:
  assumes "smp_ok (s, ph)" "ph c = Working" "cur c s = Some prev" "exit_record c prev s = Some s'"
  shows "smp_ok (s', ph(c := Dying)) \<and> cur c s' = Some prev"
proof -
  consider (zombie) parent sent s1 where "SendSignal c parent kSigChld (set_state prev kZombie s) = Some (sent, s1)"
        "wake_waiting_parent c parent s1 = Some s'"
    | (dead) r where "settles s r" "s' = on_cpu c (pc_pending_reap_update (\<lambda>_. Some prev)) (set_state prev kDead r)"
  proof (cases "tk_parent (sc_task s prev)")
    case None
    then show thesis
      using assms(4) dead[of "s\<lparr>sc_tasks := remove1 prev (sc_tasks s)\<rparr>"] settles_lists(7)[OF settles_refl]
      by (simp add: exit_record_def)
  next
    case (Some parent)
    show thesis
    proof (cases "tk_pid (sc_task s prev) = tk_tgid (sc_task s prev)")
      case True
      with Some show thesis
        using assms(4) zombie by (auto simp: exit_record_def bind_eq_Some_conv)
    next
      case False
      let ?r = "s\<lparr>sc_tasks := remove1 prev (sc_tasks s), sc_offspring := remove1 prev (sc_offspring s)\<rparr>"
      have "settles s ?r" by (intro settle settles_refl)
      with Some False show thesis using assms(4) dead[of ?r] by (simp add: exit_record_def)
    qed
  qed
  then show ?thesis
  proof cases
    case zombie
    have st: "stir (set_state prev kZombie s) s'"
      by (rule chain[OF stir_signal[OF zombie(1)] stir_wake_parent[OF zombie(2)]])
    have "smp_ok (set_state prev kZombie s, ph(c := Dying))" by (rule own_dies[OF assms(1-3)]) simp
    with st show ?thesis using smp_ok_stir stir_cur[OF st, of c] assms(3) by (simp add: on_task_def)
  next
    case dead
    have r: "smp_ok (r, ph)" "cur c r = Some prev"
      using smp_ok_settles[OF assms(1) dead(1)] dead(1) assms(3) by (simp_all add: settles_def)
    have "smp_ok (set_state prev kDead r, ph(c := Dying))" by (rule own_dies[OF r(1) assms(2) r(2)]) simp
    then have "smp_ok (s', ph(c := Dying))" unfolding dead(2) by (rule doom_ok) (simp add: on_task_def)
    moreover have "cur c s' = Some prev" unfolding dead(2) using r(2) by (simp add: on_task_def on_cpu_def)
    ultimately show ?thesis by blast
  qed
qed

lemma exit_pick_ok:
  assumes "smp_ok (s, ph)" "ph c = Working" "cur c s = Some prev" "exit_pick c prev code s = Some (nxt, s')"
  shows "smp_ok (s', ph(c := Leaving prev nxt))"
proof -
  define s0 where "s0 = on_task prev (tk_exit_code_update (\<lambda>_. code)) (Queue_enter c s)"
  obtain s1 where e1: "Scheduler_detach_offspring c prev s0 = Some s1"
    using assms(4) unfolding exit_pick_def s0_def by (cases "Scheduler_detach_offspring c prev s0") (simp_all add: s0_def)
  obtain s2 where e2: "exit_record c prev s1 = Some s2"
    using assms(4) e1 unfolding exit_pick_def s0_def by (cases "exit_record c prev s1") simp_all
  obtain n s3 where p: "Scheduler_pick_next c s2 = (n, s3)" by fastforce
  have "n = nxt" "s' = Queue_exit c (on_cpu c (pc_slice_ticks_update (\<lambda>_. 0))
         (case nxt of None \<Rightarrow> Scheduler_set_current c None s3 | Some t \<Rightarrow> dispatch c t s3))"
    using assms(4) e1 e2 p unfolding exit_pick_def s0_def by (auto simp: Let_def split: option.splits)
  note e = e1 e2 p[unfolded this(1)] this(2)
  have "settles s s0" unfolding s0_def by (intro settle settles_refl)
  then have st: "stir s s1" using stir_detach e(1) quiet_then_stir unfolding Scheduler_detach_offspring_def by blast
  have s2: "smp_ok (s2, ph(c := Dying))" "cur c s2 = Some prev"
    using exit_record_ok[OF smp_ok_stir[OF assms(1) st] assms(2) _ e(2)] stir_cur[OF st, of c] assms(3) by simp_all
  have "phase_ok c s2 Dying" using s2(1) seats_okD(1)[of s2 "ph(c := Dying)" c] by (simp add: smp_ok_def)
  then have dead: "tk_state (sc_task s2 prev) \<noteq> kReady" using s2(2) by (auto simp: phase_ok_def)
  have "nxt \<noteq> Some prev"
  proof
    assume "nxt = Some prev"
    then obtain cls where "prev \<in> set (ClassQueue_content (sc_row s2 cls))"
      using e(3) s2(1) unfolding Scheduler_pick_next_def smp_ok_def
      by (rule_tac pick_among_result[of s2 c "StaticStack_view (sc_classes s2)"]) auto
    with s2(1) dead show False using rows_okD(3)[of s2] by (auto simp: smp_ok_def)
  qed
  with pick_departs[OF s2(1) _ s2(2) e(3)] show ?thesis
    unfolding e(4) by (intro exit_ok slice_ok) (simp add: departs_def)
qed

text \<open>A new task enters the registry, blocked; whether it goes to a row at once is a wake-up.\<close>

lemma fresh_enter: "fresh s t \<Longrightarrow> fresh (Queue_enter c s) t"
  using settles_enter[OF settles_refl, of s c] unfolding fresh_def settles_def in_row_def
  by (auto simp: Queue_enter_def on_cpu_def)

text \<open>Writes to a fresh task that leave its processor and its state alone.\<close>

lemma fresh_write:
  assumes ok: "smp_ok (s, ph)" and fr: "fresh s t"
    and f: "\<And>k. tk_on_cpu (f k) = tk_on_cpu k" "\<And>k. tk_state (f k) = tk_state k"
  shows "smp_ok (on_task t f s, ph) \<and> fresh (on_task t f s) t"
proof -
  have seats: "seats_ok s ph" using ok by (simp add: smp_ok_def)
  have "phase_ok d (on_task t f s) (ph d)" for d
    by (rule phase_frame[OF seats_okD(1)[OF seats]]) (use f in \<open>auto simp: on_task_def\<close>)
  then have "seats_ok (on_task t f s) ph" using seats f(1) unfolding seats_ok_def by (simp add: on_task_def)
  moreover have "rows_ok (on_task t f s)"
    using ok fr unfolding smp_ok_def rows_ok_def fresh_def in_row_def by (auto simp: on_task_def)
  moreover have "graves_ok (on_task t f s)"
    using ok f unfolding smp_ok_def graves_ok_def lists_on_task by (auto simp: on_task_def)
  moreover have "fresh (on_task t f s) t"
    using fr f unfolding fresh_def in_row_def lists_on_task by (simp add: on_task_def)
  ultimately show ?thesis by (simp add: smp_ok_def)
qed

lemma pid_count_ok:
  "smp_ok (s\<lparr>sc_next_pid := n\<rparr>, ph) = smp_ok (s, ph)" "fresh (s\<lparr>sc_next_pid := n\<rparr>) t = fresh s t"
  by (simp_all add: smp_ok_def rows_ok_def graves_ok_def seats_ok_def phase_ok_def fresh_def in_row_def
      reclaimed_def doomed_def)

lemma seat_class_ok: "smp_ok (s, ph) \<Longrightarrow> fresh s t \<Longrightarrow> smp_ok (seat_class t s, ph) \<and> fresh (seat_class t s) t"
  unfolding seat_class_def using fresh_write[of s ph t "tk_class_update (\<lambda>_. Some (hd (StaticStack_view (sc_classes s))))"]
  by simp

lemma seat_number_ok:
  "smp_ok (s, ph) \<Longrightarrow> fresh s t \<Longrightarrow> smp_ok (seat_number t initial s, ph) \<and> fresh (seat_number t initial s) t"
  unfolding seat_number_def Let_def
  using fresh_write[of s ph t "tk_pid_update (\<lambda>_. 1)"] fresh_write[of s ph t "tk_pid_update (\<lambda>_. sc_next_pid s)"]
  by (auto simp: pid_count_ok)

lemma seat_register_ok:
  assumes "smp_ok (s, ph)" "fresh s t"
  shows "smp_ok (seat_register t s, ph)" "tk_state (sc_task (seat_register t s) t) = kBlocked"
proof -
  define g where "g = on_task t (\<lambda>k. k\<lparr>tk_tgid := tk_pid k\<rparr>) s"
  have g: "smp_ok (g, ph)" "fresh g t"
    unfolding g_def using fresh_write[OF assms, of "\<lambda>k. k\<lparr>tk_tgid := tk_pid k\<rparr>"] by simp_all
  define b where "b = (set_state t kBlocked g)\<lparr>sc_tasks := sc_tasks (set_state t kBlocked g) @ [t]\<rparr>"
  have seats: "seats_ok g ph" using g(1) by (simp add: smp_ok_def)
  have "phase_ok d b (ph d)" for d
  proof (rule phase_frame[OF seats_okD(1)[OF seats]])
    show "tk_state (sc_task b z) = kZombie" if "tk_state (sc_task g z) = kZombie" for z
      using that g(2) by (auto simp: b_def on_task_def fresh_def split: if_splits)
  qed (use g(2) in \<open>auto simp: b_def on_task_def fresh_def split: if_splits\<close>)
  moreover have "tk_on_cpu (sc_task b u) = tk_on_cpu (sc_task g u)" "sc_cpu b = sc_cpu g" for u
    by (simp_all add: b_def on_task_def)
  ultimately have "seats_ok b ph" using seats unfolding seats_ok_def by simp
  moreover have "rows_ok b"
    using g unfolding smp_ok_def rows_ok_def fresh_def in_row_def b_def by (auto simp: on_task_def split: if_splits)
  moreover have "graves_ok b"
  proof -
    have "reclaimed b = reclaimed g" "doomed b = doomed g"
      by (simp_all add: b_def reclaimed_def doomed_def on_task_def)
    then show ?thesis
      using g unfolding smp_ok_def graves_ok_def fresh_def by (auto simp: b_def on_task_def split: if_splits)
  qed
  ultimately have b: "smp_ok (b, ph)" by (simp add: smp_ok_def)
  have r: "seat_register t s = b \<or> seat_register t s = b\<lparr>sc_offspring := sc_offspring b @ [t]\<rparr>"
    unfolding seat_register_def Let_def b_def g_def by auto
  then show "smp_ok (seat_register t s, ph)"
    using b smp_ok_settles[OF b settles_lists(5)[OF settles_refl]] by auto
  show "tk_state (sc_task (seat_register t s) t) = kBlocked" using r by (auto simp: b_def on_task_def)
qed

lemma seat_ok:
  assumes "smp_ok (s, ph)" "fresh s t" "Scheduler_seat c t runnable initial s = Some (seated, s')"
  shows "smp_ok (s', ph)"
proof -
  define s3 where "s3 = seat_register t (seat_number t initial (seat_class t (Queue_enter c s)))"
  have c: "smp_ok (seat_class t (Queue_enter c s), ph)" "fresh (seat_class t (Queue_enter c s)) t"
    using seat_class_ok[OF enter_ok[OF assms(1)] fresh_enter[OF assms(2)]] by simp_all
  have ok: "smp_ok (s3, ph)" and blocked: "tk_state (sc_task s3 t) = kBlocked"
    unfolding s3_def using seat_number_ok[OF c] by (auto intro: seat_register_ok)
  show ?thesis
  proof (cases runnable)
    case False
    then have "s' = Queue_exit c s3" using assms(3) by (simp add: Scheduler_seat_def Let_def s3_def)
    then show ?thesis using exit_ok[OF ok] by simp
  next
    case True
    obtain s4 where e: "row_enqueue t s3 = Some (seated, s4)"
        "s' = (if seated then Queue_exit c (notify_later c (set_state t kReady s4)) else Queue_exit c (refuse s4))"
      using assms(3) True unfolding Scheduler_seat_def Let_def s3_def[symmetric]
      by (auto simp: bind_eq_Some_conv split: if_splits)
    have "stir s3 (if seated then set_state t kReady s4 else s4)" using e(1) blocked by (intro stir_enqueue) simp_all
    moreover have "settles (if seated then set_state t kReady s4 else s4) s'"
      unfolding e(2) by (auto intro!: settle settles_refl)
    ultimately show ?thesis using smp_ok_stir[OF ok] stir_then_quiet by blast
  qed
qed

lemma settles_timer_scan: "settles a (snd p) \<Longrightarrow> settles a (snd (timer_scan now t p))"
  by (cases p) (auto simp: timer_scan_def Let_def timer_fire_def intro!: settles_on_task)

lemma settles_tick:
  assumes "Scheduler_on_timer_tick c now s = Some s'"
  shows "settles s s'"
proof -
  have scan: "settles a (snd p) \<Longrightarrow> settles a (snd (fold (timer_scan now) ts p))" for a p ts
    by (induction ts arbitrary: p) (simp_all add: settles_timer_scan)
  have exp: "settles s (Scheduler_expire_real_timers c now s)"
    unfolding Scheduler_expire_real_timers_def Let_def case_prod_beta
    by (intro settle scan) (simp add: settle settles_refl)
  define s1 where "s1 = (if now \<ge> sc_next_real_deadline_ns s then Scheduler_expire_real_timers c now s else s)"
  have s1: "settles s s1" unfolding s1_def using exp by (simp add: settles_refl)
  have "s' = s1 \<or> s' = on_cpu c (pc_slice_ticks_update (\<lambda>n. n + 1)) s1 \<or>
      s' = on_cpu c (\<lambda>p. p\<lparr>pc_slice_ticks := 0, pc_rotate_due := True\<rparr>) (on_cpu c (pc_slice_ticks_update (\<lambda>n. n + 1)) s1)"
    using assms unfolding Scheduler_on_timer_tick_def s1_def[symmetric]
    by (auto simp: Let_def split: option.splits if_splits)
  then show ?thesis using s1 by (auto intro!: settle)
qed

lemma settles_set_timer:
  assumes "Scheduler_real_timer c t now timer replace s = (old, s')"
  shows "settles s s'"
proof -
  have "settles s (snd (Scheduler_real_timer c t now timer replace s))"
    unfolding Scheduler_real_timer_def Let_def snd_conv
    by (auto intro!: settle settles_on_task settles_refl)
  with assms show ?thesis by simp
qed

lemma settles_install:
  assumes "Scheduler_install_class c cls s = Some s'"
  shows "settles s s'"
proof -
  have "settles s (Queue_exit c (Queue_enter c s\<lparr>sc_classes := k\<rparr>))" for k
    by (rule settles_exit, rule settles_trans[OF settles_enter[OF settles_refl, of s c]])
      (simp add: settles_def reclaimed_def doomed_def)
  moreover have "settles s (Queue_exit c (Queue_enter c s))" by (intro settle settles_refl)
  ultimately show ?thesis
    using assms by (auto simp: Scheduler_install_class_def Let_def split: if_splits prod.splits)
qed

lemma smp_step_ok: "smp_step m m' \<Longrightarrow> smp_ok m \<Longrightarrow> smp_ok m'"
proof (induction rule: smp_step.induct)
  case prepare
  from prepare_ok[OF prepare.prems prepare.hyps] show ?case .
next
  case wait_completion
  from wait_completion_ok[OF wait_completion.prems wait_completion.hyps] show ?case .
next
  case wait_word
  from wait_word_ok[OF wait_word.prems wait_word.hyps] show ?case .
next
  case wait_child
  from wait_child_ok[OF wait_child.prems wait_child.hyps] show ?case .
next
  case take_child
  from take_child_ok[OF take_child.prems take_child.hyps] show ?case .
next
  case reclaim_child
  from reclaim_child_ok[OF reclaim_child.prems reclaim_child.hyps] show ?case .
next
  case stop
  from stop_ok[OF stop.prems stop.hyps] show ?case .
next
  case schedule
  from schedule_ok[OF schedule.prems schedule.hyps(1,3,4)] show ?case .
next
  case requeue
  from requeue_ok[OF requeue.prems requeue.hyps] show ?case .
next
  case rotate
  from rotate_ok[OF rotate.prems rotate.hyps] show ?case .
next
  case exit
  from exit_pick_ok[OF exit.prems exit.hyps] show ?case .
next
  case arm
  from smp_arm[OF arm.prems disjI1[OF conjI[OF arm.hyps refl]]] show ?case .
next
  case switch
  then show ?case by (intro smp_switch[OF switch.prems]) simp
next
  case go_home
  then show ?case by (intro smp_switch[OF go_home.prems]) simp
next
  case main_pick
  from main_pick_ok[OF main_pick.prems main_pick.hyps] show ?case .
next
  case main_arm
  from smp_arm[OF main_arm.prems disjI2[OF conjI[OF main_arm.hyps refl]]] show ?case .
next
  case main_enter
  then show ?case by (intro smp_switch[OF main_enter.prems]) simp
next
  case install
  from smp_ok_settles[OF install.prems settles_install[OF install.hyps(2)]] show ?case .
next
  case seat
  from seat_ok[OF seat.prems seat.hyps(2,3)] show ?case .
next
  case unblock
  from smp_ok_stir[OF unblock.prems stir_unblock[OF unblock.hyps(2)]] show ?case .
next
  case finish
  from smp_ok_stir[OF finish.prems stir_finish[OF finish.hyps(2)]] show ?case .
next
  case wake_word
  from smp_ok_stir[OF wake_word.prems stir_wake_walk[OF wake_word.hyps(2)[unfolded WakeUserWord_def]]] show ?case .
next
  case clear_tid
  from smp_ok_stir[OF clear_tid.prems stir_clear_tid[OF clear_tid.hyps(3)]] show ?case .
next
  case signal
  from smp_ok_stir[OF signal.prems stir_signal[OF signal.hyps(2)]] show ?case .
next
  case signal_group
  from smp_ok_stir[OF signal_group.prems stir_send_group[OF signal_group.hyps(2)]] show ?case .
next
  case reap
  then show ?case using smp_ok_stir[OF reap.prems stir_reap] by (simp add: smp_ok_def)
next
  case tick
  from smp_ok_settles[OF tick.prems settles_tick[OF tick.hyps(2)]] show ?case .
next
  case set_timer
  from smp_ok_settles[OF set_timer.prems settles_set_timer[OF set_timer.hyps(2)]] show ?case .
qed

end
