(* ===== verification/Sched_Safety.thy ===== *)
theory Sched_Safety
  imports Sched_Smp
begin

text \<open>
  What holds in every reachable state of the multiprocessor scheduler, from the state that
  \<^verbatim>\<open>InstallKernelSwitchSink\<close> leaves: no tasks, no classes, every processor in the main loop.
\<close>

definition Task_blank :: Task where
  "Task_blank = \<lparr>tk_on_cpu = -1, tk_vfork_done = None, tk_state = kReady, tk_pid = 0, tk_tgid = 0, tk_pgid = 0,
     tk_sid = 0, tk_parent = None, tk_exit_code = 0, tk_space = False, tk_vmas = None, tk_priority = 0,
     tk_class = None, tk_signals = SignalState_init, tk_real_deadline_ns = 0, tk_real_interval_ns = 0,
     tk_clear_child_tid = 0, tk_futex_uaddr = 0\<rparr>"

definition PerCpu_blank :: PerCpu where
  "PerCpu_blank = \<lparr>pc_current = None, pc_stack = None, pc_pending_reap = None, pc_slice_ticks = 0,
     pc_preempt_depth = 0, pc_no_reschedule_depth = 0, pc_queue_depth = 0, pc_rotate_due = False,
     pc_notify_pending = False\<rparr>"

definition Scheduler_boot :: Scheduler where
  "Scheduler_boot = \<lparr>sc_task = (\<lambda>_. Task_blank), sc_cpu = (\<lambda>_. PerCpu_blank), sc_row = (\<lambda>_. ClassQueue_init),
     sc_classes = StaticStack_init FifoClass kMaxSchedulingClasses, sc_offspring = [], sc_tasks = [],
     sc_retired = [], sc_waiters = [], sc_next_pid = 1, sc_ready_refusals = 0, sc_preemption = False,
     sc_next_real_deadline_ns = NOT 0, sc_sink = True, sc_completion = (\<lambda>_. Completion_init),
     sc_buckets = (\<lambda>_. []), sc_events = []\<rparr>"

definition smp_boot :: machine where
  "smp_boot = (Scheduler_boot, \<lambda>_. Idle)"

lemma smp_boot_ok: "smp_ok smp_boot"
  by (simp add: smp_boot_def smp_ok_def Scheduler_boot_def rows_ok_def graves_ok_def seats_ok_def phase_ok_def
      ClassQueue_init_inv reclaimed_def doomed_def PerCpu_blank_def Task_blank_def)

lemma smp_reach_ok: "rtranclp smp_step smp_boot m \<Longrightarrow> smp_ok m"
  by (induction rule: rtranclp_induct) (simp_all add: smp_boot_ok smp_step_ok)

section \<open>A sample world\<close>

text \<open>Two tasks, 7 and 8, two processors and the FIFO class, with their changing parts as arguments.\<close>

definition world :: "Task \<Rightarrow> Task \<Rightarrow> PerCpu \<Rightarrow> PerCpu \<Rightarrow> ClassQueue \<Rightarrow> u64 \<Rightarrow> nat list \<Rightarrow> SchedEvent list \<Rightarrow> Scheduler" where
  "world k7 k8 p0 p1 row n ts ev =
     Scheduler_boot\<lparr>sc_task := (\<lambda>_. Task_blank)(7 := k7, 8 := k8), sc_cpu := (\<lambda>_. PerCpu_blank)(0 := p0, Suc 0 := p1),
       sc_row := (\<lambda>_. ClassQueue_init)(FifoClass := row),
       sc_classes := \<lparr>ss_elements = replicate kMaxSchedulingClasses FifoClass, ss_size = 1\<rparr>,
       sc_next_pid := n, sc_tasks := ts, sc_events := ev\<rparr>"

lemma world_sel [simp]:
  "sc_task (world k7 k8 p0 p1 row n ts ev) 7 = k7" "sc_task (world k7 k8 p0 p1 row n ts ev) 8 = k8"
  "sc_cpu (world k7 k8 p0 p1 row n ts ev) 0 = p0" "sc_cpu (world k7 k8 p0 p1 row n ts ev) (Suc 0) = p1"
  "sc_row (world k7 k8 p0 p1 row n ts ev) FifoClass = row" "sc_row (world k7 k8 p0 p1 row n ts ev) PriorityClass = ClassQueue_init"
  "sc_next_pid (world k7 k8 p0 p1 row n ts ev) = n" "sc_tasks (world k7 k8 p0 p1 row n ts ev) = ts"
  "sc_events (world k7 k8 p0 p1 row n ts ev) = ev" "sc_sink (world k7 k8 p0 p1 row n ts ev)"
  "StaticStack_view (sc_classes (world k7 k8 p0 p1 row n ts ev)) = [FifoClass]"
  "\<not> StaticStack_empty (sc_classes (world k7 k8 p0 p1 row n ts ev))"
  "sc_retired (world k7 k8 p0 p1 row n ts ev) = []"
  by (simp_all add: world_def Scheduler_boot_def StaticStack_view_def StaticStack_empty_def kMaxSchedulingClasses_def)

lemma world_upd [simp]:
  "on_task 7 f (world k7 k8 p0 p1 row n ts ev) = world (f k7) k8 p0 p1 row n ts ev"
  "on_task 8 f (world k7 k8 p0 p1 row n ts ev) = world k7 (f k8) p0 p1 row n ts ev"
  "on_cpu 0 g (world k7 k8 p0 p1 row n ts ev) = world k7 k8 (g p0) p1 row n ts ev"
  "on_cpu (Suc 0) g (world k7 k8 p0 p1 row n ts ev) = world k7 k8 p0 (g p1) row n ts ev"
  "(world k7 k8 p0 p1 row n ts ev)\<lparr>sc_row := (sc_row (world k7 k8 p0 p1 row n ts ev))(FifoClass := r)\<rparr> =
     world k7 k8 p0 p1 r n ts ev"
  "(world k7 k8 p0 p1 row n ts ev)\<lparr>sc_next_pid := m\<rparr> = world k7 k8 p0 p1 row m ts ev"
  "(world k7 k8 p0 p1 row n ts ev)\<lparr>sc_tasks := us\<rparr> = world k7 k8 p0 p1 row n us ev"
  "emit e (world k7 k8 p0 p1 row n ts ev) = world k7 k8 p0 p1 row n ts (ev @ [e])"
  by (simp_all add: world_def on_task_def on_cpu_def emit_def fun_upd_twist)

lemma fun_upd_idle: "f x = y \<Longrightarrow> f(x := y) = f"
  by auto

lemma boot_world: "Scheduler_boot\<lparr>sc_classes := \<lparr>ss_elements = replicate kMaxSchedulingClasses FifoClass, ss_size = 1\<rparr>\<rparr> =
    world Task_blank Task_blank PerCpu_blank PerCpu_blank ClassQueue_init 1 [] []"
  by (simp add: world_def Scheduler_boot_def fun_upd_idle)

lemma sample_install:
  "Scheduler_install_class 0 FifoClass Scheduler_boot =
     Some (world Task_blank Task_blank PerCpu_blank PerCpu_blank ClassQueue_init 1 [] [])"
  unfolding boot_world[symmetric]
  by (simp add: Scheduler_install_class_def Queue_enter_def Queue_exit_def on_cpu_def Let_def
     Scheduler_boot_def StaticStack_view_def StaticStack_init_def StaticStack_push_def StaticStack_full_def
     kMaxSchedulingClasses_def PerCpu_blank_def fun_upd_idle list_update_same_conv)

text \<open>The rows and the blocks along the run.\<close>

definition row7 :: ClassQueue where "row7 = snd (ClassQueue_push 7 ClassQueue_init)"
definition row78 :: ClassQueue where "row78 = snd (ClassQueue_push 8 row7)"
definition row8 :: ClassQueue where "row8 = snd (ClassQueue_take_at 0 row78)"
definition row0 :: ClassQueue where "row0 = snd (ClassQueue_take_at 0 row8)"
definition row7' :: ClassQueue where "row7' = snd (ClassQueue_push 7 row0)"

definition seated :: "u64 \<Rightarrow> TaskState \<Rightarrow> int \<Rightarrow> Task" where
  "seated n v on = Task_blank\<lparr>tk_class := Some FifoClass, tk_pid := n, tk_tgid := n, tk_state := v, tk_on_cpu := on\<rparr>"

definition busy :: "nat option \<Rightarrow> nat option \<Rightarrow> PerCpu" where
  "busy now stack = PerCpu_blank\<lparr>pc_current := now, pc_stack := stack\<rparr>"

lemma busy_sel [simp]: "pc_current (busy now stack) = now" "pc_stack (busy now stack) = stack"
  by (simp_all add: busy_def)

lemmas sample_simps = Let_def Queue_enter_def Queue_exit_def row_enqueue_def Check_def SchedulingClass_enqueue_def
  SchedulingClass_pick_def Scheduler_pick_next_def class_pick_def Scheduler_set_current_def row_available_def
  seated_def busy_def Task_blank_def PerCpu_blank_def

lemma sample_rows [simp]:
  "ClassQueue_push 7 ClassQueue_init = (True, row7)" "ClassQueue_push 8 row7 = (True, row78)"
  "ClassQueue_push 7 row0 = (True, row7')"
  "available 7 \<Longrightarrow> ClassQueue_take_front available row78 = (Some 7, row8)"
  "available 8 \<Longrightarrow> ClassQueue_take_front available row8 = (Some 8, row0)"
  "ClassQueue_take_front available row0 = (None, row0)"
  "ClassQueue_remove 7 row7' = (True, snd (ClassQueue_take_at 0 row7'))"
  "ClassQueue_take_front available (snd (ClassQueue_take_at 0 row7')) = (None, snd (ClassQueue_take_at 0 row7'))"
  by (simp_all add: row7_def row78_def row8_def row0_def row7'_def ClassQueue_init_def ClassQueue_push_def
      ClassQueue_take_at_def ClassQueue_take_front_def ClassQueue_remove_def kReadyQueueCapacity_def Let_def
      nth_list_update upt_rec)

lemma sample_seat7:
  "Scheduler_seat 0 7 True False (world Task_blank Task_blank PerCpu_blank PerCpu_blank ClassQueue_init 1 [] []) =
     Some (True, world (seated 1 kReady (-1)) Task_blank PerCpu_blank PerCpu_blank row7 2 [7] [NotifyRunnable 0])"
  by (simp add: Scheduler_seat_def seat_class_def seat_number_def seat_register_def sample_simps)

lemma sample_seat8:
  "Scheduler_seat 0 8 True False (world (seated 1 kReady (-1)) Task_blank PerCpu_blank PerCpu_blank row7 2 [7] ev) =
     Some (True, world (seated 1 kReady (-1)) (seated 2 kReady (-1)) PerCpu_blank PerCpu_blank row78 3 [7, 8] (ev @ [NotifyRunnable 0]))"
  by (simp add: Scheduler_seat_def seat_class_def seat_number_def seat_register_def sample_simps)

lemma sample_pick7:
  "pick_main 0 (world (seated 1 kReady (-1)) k8 PerCpu_blank p1 row78 n ts ev) =
     (Some 7, world (seated 1 kRunning (-1)) k8 (busy (Some 7) None) p1 row8 n ts ev)"
  by (simp add: pick_main_def sample_simps)

lemma sample_pick8:
  "pick_main (Suc 0) (world k7 (seated 2 kReady (-1)) p0 PerCpu_blank row8 n ts ev) =
     (Some 8, world k7 (seated 2 kRunning (-1)) p0 (busy (Some 8) None) row0 n ts ev)"
  by (simp add: pick_main_def sample_simps)

text \<open>Processor 0 runs task 7, processor 1 runs task 8.\<close>

definition sample_busy :: Scheduler where
  "sample_busy = world (seated 1 kRunning 0) (seated 2 kRunning 1) (busy (Some 7) (Some 7)) (busy (Some 8) (Some 8))
     row0 3 [7, 8] [NotifyRunnable 0, NotifyRunnable 0]"

lemma sample_fresh:
  "fresh (world Task_blank Task_blank PerCpu_blank PerCpu_blank ClassQueue_init 1 [] []) 7"
  "fresh (world (seated 1 kReady (-1)) Task_blank PerCpu_blank PerCpu_blank row7 2 [7] [NotifyRunnable 0]) 8"
  by (auto simp: fresh_def in_row_def reclaimed_def doomed_def world_def Scheduler_boot_def sample_simps
      ClassQueue_init_inv ClassQueue_content_def row7_def ClassQueue_push_def ClassQueue_init_def kReadyQueueCapacity_def
      take_Suc_conv_app_nth split: if_splits)

lemma sample_arms:
  "arm_incoming 0 7 (world (seated 1 v on) k8 p0 p1 row n ts ev) = world (seated 1 v 0) k8 p0 p1 row n ts ev"
  "arm_incoming (Suc 0) 8 (world k7 (seated 2 v on) p0 p1 row n ts ev) = world k7 (seated 2 v 1) p0 p1 row n ts ev"
  "ContextSwitch 0 None inn (world k7 k8 (busy now stack) p1 row n ts ev) = world k7 k8 (busy now inn) p1 row n ts ev"
  "ContextSwitch (Suc 0) None inn (world k7 k8 p0 (busy now stack) row n ts ev) = world k7 k8 p0 (busy now inn) row n ts ev"
  by (simp_all add: arm_incoming_def ContextSwitch_def seated_def busy_def)

lemma sample_run: "rtranclp smp_step smp_boot (sample_busy, (\<lambda>_. Idle)(0 := Working, Suc 0 := Working))"
proof -
  let ?i = "\<lambda>_::nat. Idle"
  have 1: "smp_step smp_boot (world Task_blank Task_blank PerCpu_blank PerCpu_blank ClassQueue_init 1 [] [], ?i)"
    unfolding smp_boot_def by (rule smp_step.install[OF _ sample_install]) simp
  have 2: "smp_step (world Task_blank Task_blank PerCpu_blank PerCpu_blank ClassQueue_init 1 [] [], ?i)
      (world (seated 1 kReady (-1)) Task_blank PerCpu_blank PerCpu_blank row7 2 [7] [NotifyRunnable 0], ?i)"
    by (rule smp_step.seat[OF _ sample_fresh(1) sample_seat7]) simp
  have 3: "smp_step (world (seated 1 kReady (-1)) Task_blank PerCpu_blank PerCpu_blank row7 2 [7] [NotifyRunnable 0], ?i)
      (world (seated 1 kReady (-1)) (seated 2 kReady (-1)) PerCpu_blank PerCpu_blank row78 3 [7, 8] [NotifyRunnable 0, NotifyRunnable 0], ?i)"
    using smp_step.seat[OF _ sample_fresh(2) sample_seat8, of ?i] by simp
  let ?ev = "[NotifyRunnable 0, NotifyRunnable 0]"
  have 4: "smp_step (world (seated 1 kReady (-1)) k8 PerCpu_blank p1 row78 3 [7, 8] ?ev, ?i)
      (world (seated 1 kRunning (-1)) k8 (busy (Some 7) None) p1 row8 3 [7, 8] ?ev, ?i(0 := Entering 7))" for k8 p1
    using smp_step.main_pick[of ?i 0, OF _ sample_pick7[of k8 p1]] by simp
  have 5: "smp_step (world (seated 1 kRunning (-1)) k8 p0 p1 row8 3 [7, 8] ?ev, ?i(0 := Entering 7))
      (world (seated 1 kRunning 0) k8 p0 p1 row8 3 [7, 8] ?ev, ?i(0 := EnterArmed 7))" for k8 p0 p1
    using smp_step.main_arm[of "?i(0 := Entering 7)" 0 7 "world (seated 1 kRunning (-1)) k8 p0 p1 row8 3 [7, 8] ?ev"] by (simp add: sample_arms)
  have 6: "smp_step (world k7 k8 (busy now stack) p1 row8 3 [7, 8] ?ev, ?i(0 := EnterArmed 7))
      (world k7 k8 (busy now (Some 7)) p1 row8 3 [7, 8] ?ev, ?i(0 := Working))" for k7 k8 now stack p1
    using smp_step.main_enter[of "?i(0 := EnterArmed 7)" 0 7 "world k7 k8 (busy now stack) p1 row8 3 [7, 8] ?ev"] by (simp add: sample_arms)
  have 7: "smp_step (world k7 (seated 2 kReady (-1)) p0 PerCpu_blank row8 3 [7, 8] ?ev, ?i(0 := Working))
      (world k7 (seated 2 kRunning (-1)) p0 (busy (Some 8) None) row0 3 [7, 8] ?ev, ?i(0 := Working, Suc 0 := Entering 8))" for k7 p0
    using smp_step.main_pick[of "?i(0 := Working)" "Suc 0", OF _ sample_pick8[of k7 p0]] by simp
  have 8: "smp_step (world k7 (seated 2 kRunning (-1)) p0 p1 row0 3 [7, 8] ?ev, ?i(0 := Working, Suc 0 := Entering 8))
      (world k7 (seated 2 kRunning 1) p0 p1 row0 3 [7, 8] ?ev, ?i(0 := Working, Suc 0 := EnterArmed 8))" for k7 p0 p1
    using smp_step.main_arm[of "?i(0 := Working, Suc 0 := Entering 8)" "Suc 0" 8
        "world k7 (seated 2 kRunning (-1)) p0 p1 row0 3 [7, 8] ?ev"] by (simp add: sample_arms)
  have 9: "smp_step (world k7 k8 p0 (busy now stack) row0 3 [7, 8] ?ev, ?i(0 := Working, Suc 0 := EnterArmed 8))
      (world k7 k8 p0 (busy now (Some 8)) row0 3 [7, 8] ?ev, ?i(0 := Working, Suc 0 := Working))" for k7 k8 now stack p0
    using smp_step.main_enter[of "?i(0 := Working, Suc 0 := EnterArmed 8)" "Suc 0" 8
        "world k7 k8 p0 (busy now stack) row0 3 [7, 8] ?ev"] by (simp add: sample_arms)
  show ?thesis
    unfolding sample_busy_def
    by (rule converse_rtranclp_into_rtranclp[OF 1 converse_rtranclp_into_rtranclp[OF 2 converse_rtranclp_into_rtranclp[OF 3
        converse_rtranclp_into_rtranclp[OF 4 converse_rtranclp_into_rtranclp[OF 5 converse_rtranclp_into_rtranclp[OF 6
        converse_rtranclp_into_rtranclp[OF 7 converse_rtranclp_into_rtranclp[OF 8 r_into_rtranclp[of smp_step, OF 9]]]]]]]]])
qed

section \<open>Safety\<close>



text \<open>
  C12. In every reachable state a registered task is ready exactly when it waits in the row of
  its class, where it stands once; so taking a task off its row for a stop signal never fails
  its check.
\<close>

theorem sched_ready_in_row:
  assumes "rtranclp smp_step smp_boot (s, ph)" "t \<in> set (sc_tasks s)"
  shows "(tk_state (sc_task s t) = kReady \<longleftrightarrow> in_row s t) \<and>
    (\<forall>cls. distinct (ClassQueue_content (sc_row s cls))) \<and> Scheduler_withdraw c t s \<noteq> None"
proof -
  have ok: "rows_ok s" using smp_reach_ok[OF assms(1)] by (simp add: smp_ok_def)
  have "tk_state (sc_task s t) = kReady \<longleftrightarrow> in_row s t"
    using rows_okD(3)[OF ok] rows_okD(5)[OF ok assms(2)] by (auto simp: in_row_def)
  moreover have "Scheduler_withdraw c t s \<noteq> None"
  proof (cases "tk_state (sc_task s t) = kReady")
    case False
    then show ?thesis by (simp add: Scheduler_withdraw_def Let_def)
  next
    case True
    obtain cls where cls: "tk_class (sc_task s t) = Some cls" "t \<in> set (ClassQueue_content (sc_row s cls))"
      using rows_okD(5)[OF ok assms(2) True] by blast
    have row: "sc_row (Queue_enter c s) = sc_row s" by (simp add: Queue_enter_def on_cpu_def)
    from rows_okD(1)[OF ok, of cls] show ?thesis
    proof (cases rule: class_remove_cases[of "sc_row s cls" cls t])
      case (taken q')
      then show ?thesis using True cls(1) row by (simp add: Scheduler_withdraw_def Let_def)
    next
      case absent
      with cls(2) show ?thesis by simp
    qed
  qed
  ultimately show ?thesis using rows_okD(2)[OF ok] by blast
qed

theorem sched_ready_in_row_witness:
  "7 \<in> set (sc_tasks sample_busy) \<and> \<not> in_row sample_busy 7 \<and> Scheduler_withdraw (Suc 0) 7 sample_busy \<noteq> None"
  using sched_ready_in_row[OF sample_run, of 7 "Suc 0"] by (simp add: sample_busy_def seated_def)

section \<open>A race between rotation and a stop signal\<close>

text \<open>Task 7 yields on processor 0: it is back in its row, and the row is unlocked before the pick.\<close>

lemma sample_requeue:
  "requeue_self 0 7 (world (seated 1 kRunning 0) k8 (busy (Some 7) (Some 7)) p1 row0 n ts ev) =
     Some (True, world (seated 1 kReady 0) k8 (busy (Some 7) (Some 7)) p1 row7' n ts ev)"
  by (simp add: requeue_self_def sample_simps)

text \<open>
  C34. The lock is dropped between the two halves of a rotation. There is a reachable state in
  which another processor has taken the yielding task off its row by a stop signal in between,
  and the pick that follows fails the check that the outgoing task is still there: the kernel
  panics.
\<close>

theorem sched_rotation_race:
  "\<exists>s ph. rtranclp smp_step smp_boot (s, ph) \<and> ph 0 = Rotating \<and> cur 0 s = Some 7 \<and> pick_rotation 0 s = None"
proof -
  define s1 where "s1 = world (seated 1 kReady 0) (seated 2 kRunning 1) (busy (Some 7) (Some 7)) (busy (Some 8) (Some 8))
     row7' 3 [7, 8] [NotifyRunnable 0, NotifyRunnable 0]"
  let ?ph = "(\<lambda>_. Idle)(0 := Rotating, Suc 0 := Working)"
  have "smp_step (sample_busy, (\<lambda>_. Idle)(0 := Working, Suc 0 := Working)) (s1, ?ph)"
    using smp_step.requeue[of "(\<lambda>_. Idle)(0 := Working, Suc 0 := Working)" 0 sample_busy 7 True s1]
    by (simp add: sample_busy_def s1_def sample_requeue fun_upd_twist)
  then have r1: "rtranclp smp_step smp_boot (s1, ?ph)" using sample_run by (rule rtranclp.rtrancl_into_rtrancl[rotated])
  obtain k7 where sent: "SendSignal (Suc 0) 7 kSigStop s1 = Some (True, world k7 (seated 2 kRunning 1) (busy (Some 7) (Some 7))
      (busy (Some 8) (Some 8)) (snd (ClassQueue_take_at 0 row7')) 3 [7, 8] [NotifyRunnable 0, NotifyRunnable 0])"
    by (simp add: s1_def SendSignal_def Scheduler_withdraw_def SchedulingClass_remove_def DefaultDisposition_def
        SignalState_init_def SigAction_blank_def sample_simps)
  define s2 where "s2 = world k7 (seated 2 kRunning 1) (busy (Some 7) (Some 7)) (busy (Some 8) (Some 8))
    (snd (ClassQueue_take_at 0 row7')) 3 [7, 8] [NotifyRunnable 0, NotifyRunnable 0]"
  from sent[folded s2_def] have "smp_step (s1, ?ph) (s2, ?ph)" by (rule smp_step.signal[of ?ph "Suc 0", rotated]) simp
  with r1 have "rtranclp smp_step smp_boot (s2, ?ph)" by (rule rtranclp.rtrancl_into_rtrancl)
  moreover have "pick_rotation 0 s2 = None" "cur 0 s2 = Some 7"
    by (simp_all add: s2_def pick_rotation_def sample_simps)
  ultimately show ?thesis by (intro exI[of _ s2] exI[of _ ?ph]) simp
qed

end
