(* ===== verification/Sync.thy ===== *)
theory Sync
  imports Sched_Safety
begin

text \<open>
  The sleeping primitives of \<^verbatim>\<open>kernel/proc/sync.cpp\<close>, mutex and semaphore, and what the futex table
  of \<^verbatim>\<open>kernel/proc/futex.cpp\<close> promises. An operation is its locked section: the guard of the spin
  lock makes it one step, and \<^verbatim>\<open>schedule_blocked\<close>, which follows when the caller parks, is a step of
  the scheduler.
\<close>

section \<open>Mutex\<close>

record Mutex =
  mx_owner :: "nat option"
  mx_waiters :: "nat list"

definition Mutex_init :: Mutex where
  "Mutex_init = \<lparr>mx_owner = None, mx_waiters = []\<rparr>"

text \<open>True: acquired at once. False: on the list and marked blocked.\<close>

definition Mutex_lock :: "nat \<Rightarrow> Mutex \<Rightarrow> Scheduler \<Rightarrow> (bool \<times> Mutex \<times> Scheduler) option" where
  "Mutex_lock c m s =
     (case cur c s of
        None \<Rightarrow> None
      | Some self \<Rightarrow>
          if mx_owner m = None then Some (True, m\<lparr>mx_owner := Some self\<rparr>, s)
          else do {
            s1 \<leftarrow> Scheduler_prepare_to_wait c s;
            Some (False, m\<lparr>mx_waiters := mx_waiters m @ [self]\<rparr>, s1)
          })"

definition Mutex_unlock :: "nat \<Rightarrow> Mutex \<Rightarrow> Scheduler \<Rightarrow> (Mutex \<times> Scheduler) option" where
  "Mutex_unlock c m s =
     Check (mx_owner m = cur c s)
       (case mx_waiters m of
          [] \<Rightarrow> Some (m\<lparr>mx_owner := None\<rparr>, s)
        | next # rest \<Rightarrow> do {
            s1 \<leftarrow> Scheduler_unblock c next s;
            Some (m\<lparr>mx_owner := Some next, mx_waiters := rest\<rparr>, s1)
          })"

definition Mutex_retire :: "Mutex \<Rightarrow> Mutex option" where
  "Mutex_retire m = Check (mx_owner m = None \<and> mx_waiters m = []) (Some m)"

section \<open>Semaphore\<close>

record Semaphore =
  sm_count :: int
  sm_waiters :: "nat list"

definition Semaphore_init :: "int \<Rightarrow> Semaphore" where
  "Semaphore_init initial = \<lparr>sm_count = initial, sm_waiters = []\<rparr>"

definition Semaphore_wait :: "nat \<Rightarrow> Semaphore \<Rightarrow> Scheduler \<Rightarrow> (bool \<times> Semaphore \<times> Scheduler) option" where
  "Semaphore_wait c m s =
     (case cur c s of
        None \<Rightarrow> None
      | Some self \<Rightarrow>
          if sm_count m > 0 then Some (True, m\<lparr>sm_count := sm_count m - 1\<rparr>, s)
          else do {
            s1 \<leftarrow> Scheduler_prepare_to_wait c s;
            Some (False, m\<lparr>sm_waiters := sm_waiters m @ [self]\<rparr>, s1)
          })"

definition Semaphore_try_wait :: "Semaphore \<Rightarrow> bool \<times> Semaphore" where
  "Semaphore_try_wait m =
     (if sm_count m = 0 then (False, m) else (True, m\<lparr>sm_count := sm_count m - 1\<rparr>))"

definition Semaphore_post :: "nat \<Rightarrow> Semaphore \<Rightarrow> Scheduler \<Rightarrow> (Semaphore \<times> Scheduler) option" where
  "Semaphore_post c m s =
     (case sm_waiters m of
        next # rest \<Rightarrow> do {
          s1 \<leftarrow> Scheduler_unblock c next s;
          Some (m\<lparr>sm_waiters := rest\<rparr>, s1)
        }
      | [] \<Rightarrow> Some (m\<lparr>sm_count := sm_count m + 1\<rparr>, s))"

definition Semaphore_retire :: "Semaphore \<Rightarrow> Semaphore option" where
  "Semaphore_retire m = Check (sm_waiters m = []) (Some m)"

section \<open>A mutex among interleaved processors\<close>

text \<open>
  Between two operations on the mutex the processors do what they like (\<open>smp_step\<close>). The two
  lists record in which order tasks asked for the mutex and in which order they became its owner.
\<close>

record MutexRun =
  mr_mutex :: Mutex
  mr_machine :: machine
  mr_asked :: "nat list"
  mr_granted :: "nat list"

inductive mutex_step :: "MutexRun \<Rightarrow> MutexRun \<Rightarrow> bool" where
  lock_free: "snd m c = Working \<Longrightarrow> cur c (fst m) = Some t \<Longrightarrow> Mutex_lock c x (fst m) = Some (True, x', s') \<Longrightarrow>
    mutex_step \<lparr>mr_mutex = x, mr_machine = m, mr_asked = asked, mr_granted = granted\<rparr>
      \<lparr>mr_mutex = x', mr_machine = (s', snd m), mr_asked = asked @ [t], mr_granted = granted @ [t]\<rparr>"
| lock_park: "snd m c = Working \<Longrightarrow> cur c (fst m) = Some t \<Longrightarrow> Mutex_lock c x (fst m) = Some (False, x', s') \<Longrightarrow>
    mutex_step \<lparr>mr_mutex = x, mr_machine = m, mr_asked = asked, mr_granted = granted\<rparr>
      \<lparr>mr_mutex = x', mr_machine = (s', (snd m)(c := Prepared)), mr_asked = asked @ [t], mr_granted = granted\<rparr>"
| unlock: "snd m c = Working \<Longrightarrow> Mutex_unlock c x (fst m) = Some (x', s') \<Longrightarrow>
    mutex_step \<lparr>mr_mutex = x, mr_machine = m, mr_asked = asked, mr_granted = granted\<rparr>
      \<lparr>mr_mutex = x', mr_machine = (s', snd m), mr_asked = asked,
       mr_granted = granted @ (case mx_owner x' of None \<Rightarrow> [] | Some t \<Rightarrow> [t])\<rparr>"
| elsewhere: "smp_step m m' \<Longrightarrow>
    mutex_step \<lparr>mr_mutex = x, mr_machine = m, mr_asked = asked, mr_granted = granted\<rparr>
      \<lparr>mr_mutex = x, mr_machine = m', mr_asked = asked, mr_granted = granted\<rparr>"

text \<open>The mutex is what remains of the requests; a free mutex has no waiters.\<close>

definition mutex_ok :: "MutexRun \<Rightarrow> bool" where
  "mutex_ok r \<longleftrightarrow> smp_ok (mr_machine r) \<and> mr_asked r = mr_granted r @ mx_waiters (mr_mutex r) \<and>
     (mx_owner (mr_mutex r) = None \<longrightarrow> mx_waiters (mr_mutex r) = []) \<and>
     (\<forall>t. mx_owner (mr_mutex r) = Some t \<longrightarrow> mr_granted r \<noteq> [] \<and> last (mr_granted r) = t)"

lemma mutex_lock_cases:
  assumes "Mutex_lock c x s = Some (got, x', s')" "cur c s = Some t"
  obtains (free) "got" "mx_owner x = None" "x' = x\<lparr>mx_owner := Some t\<rparr>" "s' = s"
    | (busy) "\<not> got" "mx_owner x \<noteq> None" "x' = x\<lparr>mx_waiters := mx_waiters x @ [t]\<rparr>"
        "Scheduler_prepare_to_wait c s = Some s'"
  using assms by (auto simp: Mutex_lock_def bind_eq_Some_conv split: if_splits)

lemma mutex_unlock_cases:
  assumes "Mutex_unlock c x s = Some (x', s')"
  obtains (last) "mx_waiters x = []" "x' = x\<lparr>mx_owner := None\<rparr>" "s' = s"
    | (pass) t rest where "mx_waiters x = t # rest" "x' = x\<lparr>mx_owner := Some t, mx_waiters := rest\<rparr>"
        "Scheduler_unblock c t s = Some s'"
  using assms by (auto simp: Mutex_unlock_def bind_eq_Some_conv split: list.splits)

lemma mutex_step_ok: "mutex_step r r' \<Longrightarrow> mutex_ok r \<Longrightarrow> mutex_ok r'"
proof (induction rule: mutex_step.induct)
  case (lock_free m c t x x' s' asked granted)
  from lock_free.hyps(3,2) show ?case
  proof (cases rule: mutex_lock_cases)
    case free
    then show ?thesis using lock_free.prems by (cases m) (simp add: mutex_ok_def)
  qed simp
next
  case (lock_park m c t x x' s' asked granted)
  from lock_park.hyps(3,2) show ?case
  proof (cases rule: mutex_lock_cases)
    case busy
    have "smp_ok (s', (snd m)(c := Prepared))"
      using prepare_ok[of "fst m" "snd m" c s'] lock_park.hyps(1) busy(4) lock_park.prems by (simp add: mutex_ok_def)
    with busy lock_park.prems show ?thesis by (auto simp: mutex_ok_def)
  qed simp
next
  case (unlock m c x x' s' asked granted)
  from unlock.hyps(2) show ?case
  proof (cases rule: mutex_unlock_cases)
    case last
    then show ?thesis using unlock.prems by (cases m) (simp add: mutex_ok_def)
  next
    case (pass t rest)
    have "smp_ok (s', snd m)"
      using smp_ok_stir[of "fst m" "snd m" s'] stir_unblock[OF pass(3)] unlock.prems by (simp add: mutex_ok_def)
    with pass unlock.prems show ?thesis by (simp add: mutex_ok_def)
  qed
next
  case (elsewhere m m' x asked granted)
  then show ?case using smp_step_ok by (simp add: mutex_ok_def)
qed

definition mutex_start :: "machine \<Rightarrow> MutexRun" where
  "mutex_start m = \<lparr>mr_mutex = Mutex_init, mr_machine = m, mr_asked = [], mr_granted = []\<rparr>"

lemma mutex_reach_ok:
  "rtranclp mutex_step (mutex_start m) r \<Longrightarrow> smp_ok m \<Longrightarrow> mutex_ok r"
  by (induction rule: rtranclp_induct) (simp_all add: mutex_step_ok, simp add: mutex_ok_def mutex_start_def Mutex_init_def)


text \<open>Task 7 takes the mutex, task 8 parks on it, task 7 passes it on.\<close>

definition sample_locked :: MutexRun where
  "sample_locked = \<lparr>mr_mutex = \<lparr>mx_owner = Some 8, mx_waiters = []\<rparr>,
     mr_machine = (world (seated 1 kRunning 0) (seated 2 kReady 1) (busy (Some 7) (Some 7)) (busy (Some 8) (Some 8))
        (snd (ClassQueue_push 8 row0)) 3 [7, 8] [NotifyRunnable 0, NotifyRunnable 0, NotifyRunnable 0],
        (\<lambda>_. Idle)(0 := Working, Suc 0 := Prepared)),
     mr_asked = [7, 8], mr_granted = [7, 8]\<rparr>"

lemma sample_unblock8:
  "Scheduler_unblock 0 8 (world k7 (seated 2 kBlocked 1) (busy (Some 7) (Some 7)) p1 row0 n ts ev) =
     Some (world k7 (seated 2 kReady 1) (busy (Some 7) (Some 7)) p1 (snd (ClassQueue_push 8 row0)) n ts (ev @ [NotifyRunnable 0]))"
  by (simp add: Scheduler_unblock_def sample_simps ClassQueue_push_def row0_def ClassQueue_take_at_def
      row8_def row78_def row7_def ClassQueue_init_def kReadyQueueCapacity_def)

lemma sample_prepare8:
  "Scheduler_prepare_to_wait (Suc 0) (world k7 (seated 2 kRunning 1) p0 (busy (Some 8) (Some 8)) row n ts ev) =
     Some (world k7 (seated 2 kBlocked 1) p0 (busy (Some 8) (Some 8)) row n ts ev)"
  by (simp add: Scheduler_prepare_to_wait_def sample_simps)

lemma sample_mutex_run:
  "rtranclp mutex_step (mutex_start (sample_busy, (\<lambda>_. Idle)(0 := Working, Suc 0 := Working))) sample_locked"
proof -
  let ?w = "(\<lambda>_. Idle)(0 := Working, Suc 0 := Working)" and ?p = "(\<lambda>_. Idle)(0 := Working, Suc 0 := Prepared)"
  let ?ev = "[NotifyRunnable 0, NotifyRunnable 0]"
  define s1 where "s1 = world (seated 1 kRunning 0) (seated 2 kBlocked 1) (busy (Some 7) (Some 7)) (busy (Some 8) (Some 8))
     row0 3 [7, 8] ?ev"
  have 1: "mutex_step (mutex_start (sample_busy, ?w))
      \<lparr>mr_mutex = \<lparr>mx_owner = Some 7, mx_waiters = []\<rparr>, mr_machine = (sample_busy, ?w), mr_asked = [7], mr_granted = [7]\<rparr>"
    using mutex_step.lock_free[of "(sample_busy, ?w)" 0 7 Mutex_init _ sample_busy "[]" "[]"]
    by (simp add: mutex_start_def Mutex_lock_def Mutex_init_def sample_busy_def)
  have 2: "mutex_step \<lparr>mr_mutex = \<lparr>mx_owner = Some 7, mx_waiters = []\<rparr>, mr_machine = (sample_busy, ?w), mr_asked = [7], mr_granted = [7]\<rparr>
      \<lparr>mr_mutex = \<lparr>mx_owner = Some 7, mx_waiters = [8]\<rparr>, mr_machine = (s1, ?p), mr_asked = [7, 8], mr_granted = [7]\<rparr>"
    using mutex_step.lock_park[of "(sample_busy, ?w)" "Suc 0" 8 "\<lparr>mx_owner = Some 7, mx_waiters = []\<rparr>" _ s1 "[7]" "[7]"]
    by (simp add: Mutex_lock_def sample_busy_def s1_def sample_prepare8 fun_upd_twist)
  have 3: "mutex_step \<lparr>mr_mutex = \<lparr>mx_owner = Some 7, mx_waiters = [8]\<rparr>, mr_machine = (s1, ?p), mr_asked = [7, 8], mr_granted = [7]\<rparr>
      sample_locked"
    using mutex_step.unlock[of "(s1, ?p)" 0 "\<lparr>mx_owner = Some 7, mx_waiters = [8]\<rparr>" "\<lparr>mx_owner = Some 8, mx_waiters = []\<rparr>"
        "fst (mr_machine sample_locked)" "[7, 8]" "[7]"]
    by (simp add: Mutex_unlock_def s1_def sample_unblock8 sample_locked_def)
  show ?thesis
    by (rule converse_rtranclp_into_rtranclp[OF 1 converse_rtranclp_into_rtranclp[OF 2 r_into_rtranclp[of mutex_step, OF 3]]])
qed


section \<open>A hand-over that wakes nobody\<close>

text \<open>
  C35. When the row of the next waiter is full, the wake-up is refused and counted, but the mutex
  has already changed hands: its owner is a blocked task that is in no wait list, and nothing
  that happens to the mutex afterwards wakes it.
\<close>

theorem mutex_handover_dropped:
  assumes "mx_owner x = cur c s" "mx_waiters x = t # rest" "tk_state (sc_task s t) = kBlocked"
    and "tk_class (sc_task s t) = Some cls" "cq_count (sc_row s cls) = kReadyQueueCapacity" "t \<notin> set rest"
  shows "\<exists>x' s'. Mutex_unlock c x s = Some (x', s') \<and> mx_owner x' = Some t \<and> t \<notin> set (mx_waiters x') \<and>
    tk_state (sc_task s' t) = kBlocked \<and> sc_row s' = sc_row s \<and> sc_ready_refusals s' = sc_ready_refusals s + 1"
proof -
  have push: "SchedulingClass_enqueue cls t (sc_row s cls) = (False, sc_row s cls)"
    using assms(5) by (cases cls) (simp_all add: SchedulingClass_enqueue_def ClassQueue_push_def)
  have en: "sc_row (Queue_enter c s) = sc_row s" by (simp add: Queue_enter_def on_cpu_def)
  have same: "(Queue_enter c s)\<lparr>sc_row := sc_row s\<rparr> = Queue_enter c s" by (simp add: Queue_enter_def on_cpu_def)
  have "row_enqueue t (Queue_enter c s) = Some (False, Queue_enter c s)"
    using assms(4) push by (simp add: row_enqueue_def en same)
  then have "Scheduler_unblock c t s = Some (Queue_exit c (refuse (Queue_enter c s)))"
    using assms(3) by (simp add: Scheduler_unblock_def Let_def)
  then show ?thesis
    using assms by (simp add: Mutex_unlock_def Queue_exit_def Queue_enter_def on_cpu_def emit_def Let_def)
qed

theorem mutex_handover_dropped_witness:
  "\<exists>x' s'. Mutex_unlock 0 \<lparr>mx_owner = Some 7, mx_waiters = [8]\<rparr>
      (world (seated 1 kRunning 0) (seated 2 kBlocked 1) (busy (Some 7) (Some 7)) (busy (Some 8) (Some 8))
         (ClassQueue_init\<lparr>cq_count := kReadyQueueCapacity\<rparr>) 3 [7, 8] []) = Some (x', s') \<and>
    mx_owner x' = Some 8 \<and> tk_state (sc_task s' 8) = kBlocked"
  using mutex_handover_dropped[where x = "\<lparr>mx_owner = Some 7, mx_waiters = [8]\<rparr>" and c = 0 and t = 8 and rest = "[]" and
      s = "world (seated 1 kRunning 0) (seated 2 kBlocked 1) (busy (Some 7) (Some 7)) (busy (Some 8) (Some 8))
         (ClassQueue_init\<lparr>cq_count := kReadyQueueCapacity\<rparr>) 3 [7, 8] []" and cls = FifoClass]
  by (auto simp: seated_def)

section \<open>Futex\<close>

text \<open>What a wake-up leaves alone: the buckets, the words tasks park on, and every other task.\<close>

lemma unblock_frame:
  assumes "Scheduler_unblock c t s = Some s'"
  shows "sc_buckets s' = sc_buckets s" "tk_futex_uaddr (sc_task s' u) = tk_futex_uaddr (sc_task s u)"
    "u \<noteq> t \<Longrightarrow> sc_task s' u = sc_task s u"
proof -
  define same where "same = (\<lambda>(a :: Scheduler) (b :: Scheduler). sc_buckets b = sc_buckets a \<and> (\<forall>u. tk_futex_uaddr (sc_task b u) = tk_futex_uaddr (sc_task a u)) \<and>
    (\<forall>u. u \<noteq> t \<longrightarrow> sc_task b u = sc_task a u))"
  have exit: "same a b \<Longrightarrow> same a (Queue_exit c b)" for a b
    unfolding same_def Queue_exit_def Let_def on_cpu_def emit_def by auto
  have enter: "same s (Queue_enter c s)" unfolding same_def Queue_enter_def on_cpu_def by simp
  have "same s s'"
  proof (cases "tk_state (sc_task s t) = kBlocked")
    case False
    then show ?thesis using assms enter by (auto simp: Scheduler_unblock_def intro: exit)
  next
    case True
    then obtain seated s1 where e: "row_enqueue t (Queue_enter c s) = Some (seated, s1)"
        "s' = (if \<not> seated then Queue_exit c (refuse s1) else Queue_exit c (notify_later c (set_state t kReady s1)))"
      using assms by (auto simp: Scheduler_unblock_def Let_def bind_eq_Some_conv split: if_splits)
    have "same s s1"
      using e(1) enter by (auto simp: same_def elim!: row_enqueue_cases)
    then have "same s (refuse s1)" "same s (notify_later c (set_state t kReady s1))"
      by (simp_all add: same_def on_task_def on_cpu_def)
    then show ?thesis unfolding e(2) by (simp add: exit)
  qed
  then show "sc_buckets s' = sc_buckets s" "tk_futex_uaddr (sc_task s' u) = tk_futex_uaddr (sc_task s u)"
    "u \<noteq> t \<Longrightarrow> sc_task s' u = sc_task s u"
    by (simp_all add: same_def)
qed

lemma wake_walk_exact:
  assumes "wake_walk c uaddr most nodes woken s = Some (n, s')" "woken \<le> most"
  shows "let hits = take (most - woken) (filter (\<lambda>t. tk_futex_uaddr (sc_task s t) = uaddr) nodes); b = bucket_for uaddr in
    n = woken + length hits \<and> sc_buckets s' = (sc_buckets s)(b := fold remove1 hits (sc_buckets s b)) \<and>
    (\<forall>u. tk_futex_uaddr (sc_task s' u) = tk_futex_uaddr (sc_task s u)) \<and>
    (\<forall>u. u \<notin> set hits \<longrightarrow> sc_task s' u = sc_task s u)"
  using assms
proof (induction nodes arbitrary: woken s)
  case Nil
  then show ?case by (auto simp: Let_def)
next
  case (Cons node rest)
  let ?b = "bucket_for uaddr"
  show ?case
  proof (cases "woken < most \<and> tk_futex_uaddr (sc_task s node) = uaddr")
    case False
    then show ?thesis
      using Cons.prems Cons.IH[of woken s] by (cases "woken < most") (auto simp: Let_def)
  next
    case True
    define s0 where "s0 = s\<lparr>sc_buckets := (sc_buckets s)(?b := remove1 node (sc_buckets s ?b))\<rparr>"
    obtain s1 where s1: "Scheduler_unblock c node s0 = Some s1" "wake_walk c uaddr most rest (woken + 1) s1 = Some (n, s')"
      using Cons.prems True by (auto simp: bind_eq_Some_conv Let_def s0_def)
    have f: "sc_buckets s1 = sc_buckets s0" "tk_futex_uaddr (sc_task s1 u) = tk_futex_uaddr (sc_task s u)"
        "u \<noteq> node \<Longrightarrow> sc_task s1 u = sc_task s u" for u
      using unblock_frame[OF s1(1)] by (simp_all add: s0_def)
    have less: "most - woken = Suc (most - (woken + 1))" "woken + 1 \<le> most" using True by linarith+
    have hits: "take (most - woken) (filter (\<lambda>t. tk_futex_uaddr (sc_task s t) = uaddr) (node # rest)) =
        node # take (most - (woken + 1)) (filter (\<lambda>t. tk_futex_uaddr (sc_task s1 t) = uaddr) rest)"
      using True f(2) unfolding less(1) by simp
    show ?thesis
      using Cons.IH[OF s1(2) less(2)] f unfolding hits Let_def by (simp add: s0_def)
  qed
qed

lemma fold_remove1_filter: "distinct xs \<Longrightarrow> fold remove1 hits xs = filter (\<lambda>x. x \<notin> set hits) xs"
  by (induction hits arbitrary: xs) (auto simp: distinct_remove1_removeAll removeAll_filter_not_eq intro: filter_cong)


text \<open>Three tasks in one bucket, two of them on the word that is woken once.\<close>

definition sample_futex :: Scheduler where
  "sample_futex = Scheduler_boot\<lparr>
     sc_task := (\<lambda>_. Task_blank)(7 := Task_blank\<lparr>tk_state := kBlocked, tk_class := Some FifoClass, tk_futex_uaddr := 4096\<rparr>,
                                8 := Task_blank\<lparr>tk_state := kBlocked, tk_class := Some FifoClass, tk_futex_uaddr := 8192\<rparr>,
                                9 := Task_blank\<lparr>tk_state := kBlocked, tk_class := Some FifoClass, tk_futex_uaddr := 4096\<rparr>),
     sc_buckets := (\<lambda>_. [])(bucket_for 4096 := [8, 7, 9])\<rparr>"

lemma sample_unblock_some:
  assumes "tk_state (sc_task s t) = kBlocked" "tk_class (sc_task s t) = Some cls"
  shows "\<exists>s'. Scheduler_unblock c t s = Some s'"
  using assms by (auto simp: Scheduler_unblock_def row_enqueue_def Let_def split: prod.splits)


end
