(* ===== verification/Signals.thy ===== *)
theory Signals
  imports Sync Vma_Walks Bytes
begin

unbundle bit_operations_syntax

text \<open>
  Signals on the way back to user mode: \<^verbatim>\<open>DeliverPendingSignals\<close> of \<^verbatim>\<open>kernel/proc/signals.cpp\<close>, the
  signal system calls of \<^verbatim>\<open>kernel/syscall/sys_signal.cpp\<close>, \<^verbatim>\<open>sys_kill.cpp\<close> and \<^verbatim>\<open>sys_tgkill.cpp\<close>, and
  the copies of \<^verbatim>\<open>kernel/syscall/uaccess.cpp\<close> they go through.
\<close>

section \<open>Register images and user memory\<close>

record SyscallFrame =
  sf_user_rsp :: u64
  sf_rcx :: u64
  sf_r11 :: u64
  sf_rax :: u64
  sf_rdi :: u64
  sf_rsi :: u64
  sf_rdx :: u64
  sf_r10 :: u64
  sf_r8 :: u64
  sf_r9 :: u64
  sf_rbx :: u64
  sf_rbp :: u64
  sf_r12 :: u64
  sf_r13 :: u64
  sf_r14 :: u64
  sf_r15 :: u64

record SigReturnContext =
  sr_user_rsp :: u64
  sr_rcx :: u64
  sr_r11 :: u64
  sr_rax :: u64
  sr_rdi :: u64
  sr_rsi :: u64
  sr_rdx :: u64
  sr_r10 :: u64
  sr_r8 :: u64
  sr_r9 :: u64
  sr_rbx :: u64
  sr_rbp :: u64
  sr_r12 :: u64
  sr_r13 :: u64
  sr_r14 :: u64
  sr_r15 :: u64
  sr_old_blocked :: u64
  sr_reserved :: u64

text \<open>The user half of the address space the processor runs in: its bytes, and at which addresses
  an access goes through once the page-fault path had its turn.\<close>

record UserMemory =
  um_byte :: "u64 \<Rightarrow> u8"
  um_mapped :: "u64 \<Rightarrow> bool"

definition UserRangeReadable :: "u64 \<Rightarrow> u64 \<Rightarrow> bool" where
  "UserRangeReadable start bytes \<longleftrightarrow>
     bytes \<noteq> 0 \<and> start \<noteq> 0 \<and> start < kUserAddressLimit \<and> bytes \<le> kUserAddressLimit - start"

definition UserRangeWritable :: "u64 \<Rightarrow> u64 \<Rightarrow> bool" where
  "UserRangeWritable start bytes = UserRangeReadable start bytes"

text \<open>The byte move goes up from the first byte; a fault ends it with what it has moved so far.\<close>

fun store_bytes :: "u64 \<Rightarrow> u8 list \<Rightarrow> UserMemory \<Rightarrow> bool \<times> UserMemory" where
  "store_bytes a [] u = (True, u)"
| "store_bytes a (b # bs) u =
     (if um_mapped u a then store_bytes (a + 1) bs (u\<lparr>um_byte := (um_byte u)(a := b)\<rparr>) else (False, u))"

fun load_bytes :: "u64 \<Rightarrow> nat \<Rightarrow> UserMemory \<Rightarrow> u8 list option" where
  "load_bytes a 0 u = Some []"
| "load_bytes a (Suc n) u =
     (if um_mapped u a then map_option ((#) (um_byte u a)) (load_bytes (a + 1) n u) else None)"

definition CopyToUser :: "u64 \<Rightarrow> u8 list \<Rightarrow> UserMemory \<Rightarrow> bool \<times> UserMemory" where
  "CopyToUser destination bytes u =
     (if bytes = [] then (True, u)
      else if \<not> UserRangeWritable destination (of_nat (length bytes)) then (False, u)
      else store_bytes destination bytes u)"

definition CopyFromUser :: "u64 \<Rightarrow> nat \<Rightarrow> UserMemory \<Rightarrow> u8 list option" where
  "CopyFromUser source bytes u =
     (if bytes = 0 then Some []
      else if \<not> UserRangeReadable source (of_nat bytes) then None
      else load_bytes source bytes u)"

text \<open>A structure of 64-bit words crosses as its words, each little-endian.\<close>

definition word_bytes :: "u64 \<Rightarrow> u8 list" where
  "word_bytes w = WriteWord64 (replicate 8 0) 0 w"

definition words_bytes :: "u64 list \<Rightarrow> u8 list" where
  "words_bytes ws = concat (map word_bytes ws)"

definition bytes_word :: "u8 list \<Rightarrow> nat \<Rightarrow> u64" where
  "bytes_word bytes k = ReadWord64 bytes (8 * k)"

definition SigReturnContext_bytes :: "SigReturnContext \<Rightarrow> u8 list" where
  "SigReturnContext_bytes i = words_bytes
     [sr_user_rsp i, sr_rcx i, sr_r11 i, sr_rax i, sr_rdi i, sr_rsi i, sr_rdx i, sr_r10 i, sr_r8 i, sr_r9 i,
      sr_rbx i, sr_rbp i, sr_r12 i, sr_r13 i, sr_r14 i, sr_r15 i, sr_old_blocked i, sr_reserved i]"

definition SigReturnContext_of :: "u8 list \<Rightarrow> SigReturnContext" where
  "SigReturnContext_of b =
     \<lparr>sr_user_rsp = bytes_word b 0, sr_rcx = bytes_word b 1, sr_r11 = bytes_word b 2, sr_rax = bytes_word b 3,
      sr_rdi = bytes_word b 4, sr_rsi = bytes_word b 5, sr_rdx = bytes_word b 6, sr_r10 = bytes_word b 7,
      sr_r8 = bytes_word b 8, sr_r9 = bytes_word b 9, sr_rbx = bytes_word b 10, sr_rbp = bytes_word b 11,
      sr_r12 = bytes_word b 12, sr_r13 = bytes_word b 13, sr_r14 = bytes_word b 14, sr_r15 = bytes_word b 15,
      sr_old_blocked = bytes_word b 16, sr_reserved = bytes_word b 17\<rparr>"

section \<open>Building the handler's frame\<close>

abbreviation kRedZoneBytes :: u64 where "kRedZoneBytes \<equiv> 128"
abbreviation kContextBytes :: u64 where "kContextBytes \<equiv> 144"
abbreviation kDeliveryBytes :: u64 where "kDeliveryBytes \<equiv> kRedZoneBytes + 15 + kContextBytes + 8"

definition SignalTrampolineAddress :: u64 where
  "SignalTrampolineAddress = 0x00007F8000000000 + 4096"

definition stack_holds_delivery :: "nat \<Rightarrow> u64 \<Rightarrow> Scheduler \<Rightarrow> bool" where
  "stack_holds_delivery c rsp s \<longleftrightarrow>
     rsp \<ge> kDeliveryBytes \<and>
     (case cur c s of
        None \<Rightarrow> False
      | Some self \<Rightarrow> (case tk_vmas (sc_task s self) of
          None \<Rightarrow> False
        | Some vmas \<Rightarrow> VmaStore_stack_contains (rsp - kDeliveryBytes) kDeliveryBytes vmas))"

definition context_image :: "SyscallFrame \<Rightarrow> u64 \<Rightarrow> SigReturnContext" where
  "context_image frame blocked_before =
     \<lparr>sr_user_rsp = sf_user_rsp frame, sr_rcx = sf_rcx frame, sr_r11 = sf_r11 frame, sr_rax = sf_rax frame,
      sr_rdi = sf_rdi frame, sr_rsi = sf_rsi frame, sr_rdx = sf_rdx frame, sr_r10 = sf_r10 frame,
      sr_r8 = sf_r8 frame, sr_r9 = sf_r9 frame, sr_rbx = sf_rbx frame, sr_rbp = sf_rbp frame,
      sr_r12 = sf_r12 frame, sr_r13 = sf_r13 frame, sr_r14 = sf_r14 frame, sr_r15 = sf_r15 frame,
      sr_old_blocked = blocked_before, sr_reserved = 0\<rparr>"

definition frame_handler_entry ::
  "nat \<Rightarrow> SyscallFrame \<Rightarrow> int \<Rightarrow> SigAction \<Rightarrow> u64 \<Rightarrow> UserMemory \<Rightarrow> Scheduler \<Rightarrow> bool \<times> SyscallFrame \<times> UserMemory" where
  "frame_handler_entry c frame number act blocked_before u s =
     (if \<not> stack_holds_delivery c (sf_user_rsp frame) s then (False, frame, u)
      else
        let kContext = (sf_user_rsp frame - kRedZoneBytes - kContextBytes) AND NOT 0xF;
            kReturnSlot = kContext - 8;
            kReturnAddress = (if sx_flags act AND kSaRestorer \<noteq> 0 then sx_restorer act else SignalTrampolineAddress);
            (wrote, u1) = CopyToUser kContext (SigReturnContext_bytes (context_image frame blocked_before)) u in
        if \<not> wrote then (False, frame, u1)
        else
          let (wrote', u2) = CopyToUser kReturnSlot (word_bytes kReturnAddress) u1 in
          if \<not> wrote' then (False, frame, u2)
          else (True, frame\<lparr>sf_user_rsp := kReturnSlot, sf_rcx := sx_handler act, sf_rdi := word_of_int number,
                            sf_rax := 0\<rparr>, u2))"

section \<open>The delivery loop\<close>

text \<open>
  One turn takes the lowest runnable signal off the pending set. An ignored signal, and one
  whose default is to do nothing, goes round again; the others leave the loop.
\<close>

datatype SignalChoice = Choice_none | Choice_die int | Choice_stop | Choice_handler int SigAction

definition take_runnable :: "int \<Rightarrow> SignalState \<Rightarrow> SigAction \<times> SignalState" where
  "take_runnable number g =
     (let action = sg_actions g ! nat (number - 1);
          g1 = g\<lparr>sg_pending := sg_pending g AND NOT (bit_for number)\<rparr>
      in (action, if sx_flags action AND kSaResethand \<noteq> 0
                  then g1\<lparr>sg_actions := (sg_actions g1)[nat (number - 1) := SigAction_blank]\<rparr> else g1))"

lemma take_runnable_pending: "sg_pending (snd (take_runnable n g)) = sg_pending g AND NOT (bit_for n)"
  by (simp add: take_runnable_def Let_def)

lemma clear_bit_less:
  assumes "bit (w :: u64) i"
  shows "w AND NOT (push_bit i 1) < w"
proof -
  have "w AND NOT (push_bit i 1) \<le> w" by (rule word_and_le2)
  moreover have "bit w i \<noteq> bit (w AND NOT (push_bit i 1)) i"
    using assms bit_imp_le_length[OF assms] unfolding bit_and_iff bit_not_iff bit_single by simp
  then have "w AND NOT (push_bit i 1) \<noteq> w" by auto
  ultimately show ?thesis by simp
qed

lemma lowest_runnable_shrinks:
  assumes "lowest_runnable g \<noteq> 0"
  shows "sg_pending (snd (take_runnable (lowest_runnable g) g)) < sg_pending g"
  using assms clear_bit_less
  by (cases g rule: lowest_runnable_cases) (auto simp: take_runnable_pending bit_for_def)

function deliver_choose :: "SignalState \<Rightarrow> SignalChoice \<times> SignalState" where
  "deliver_choose g =
     (let number = lowest_runnable g in
      if number = 0 then (Choice_none, g)
      else
        let (action, g1) = take_runnable number g in
        if sx_handler action = kSignalIgnore then deliver_choose g1
        else if sx_handler action = kSignalDefault then
          (if DefaultDisposition number = Disposition_kTerminate then (Choice_die number, g1)
           else if DefaultDisposition number = Disposition_kStop then (Choice_stop, g1)
           else deliver_choose g1)
        else (Choice_handler number action, g1))"
  by pat_completeness auto

termination
proof (relation "measure (\<lambda>g. unat (sg_pending g))")
  fix g number y action g1
  assume "number = lowest_runnable g" "number \<noteq> 0" "y = take_runnable number g" "(action, g1) = y"
  then have "g1 = snd (take_runnable (lowest_runnable g) g)" "lowest_runnable g \<noteq> 0" by (simp_all add: prod_eq_iff)
  then show "(g1, g) \<in> measure (\<lambda>g. unat (sg_pending g))"
    using lowest_runnable_shrinks[of g] by (simp add: word_less_nat_alt)
  then show "(g1, g) \<in> measure (\<lambda>g. unat (sg_pending g))" .
qed simp

declare deliver_choose.simps [simp del]

text \<open>
  How \<^verbatim>\<open>DeliverPendingSignals\<close> leaves the task: it returns with its answer, it exits and never
  comes back, or it stops; in the last case \<open>deliver_rest\<close> with the mask kept here runs when the
  task is switched to again.
\<close>

datatype Delivery = Delivered bool | Died | Stopped_with u64

definition deliver_rest :: "nat \<Rightarrow> u64 \<Rightarrow> Scheduler \<Rightarrow> Scheduler" where
  "deliver_rest self mask' = on_task self (tk_signals_update (sg_blocked_update (\<lambda>_. mask')))"

definition DeliverPendingSignals ::
  "nat \<Rightarrow> nat \<Rightarrow> SyscallFrame \<Rightarrow> UserMemory \<Rightarrow> Scheduler \<Rightarrow> (Delivery \<times> SyscallFrame \<times> UserMemory \<times> Scheduler) option" where
  "DeliverPendingSignals c spin_depth frame u s =
     (case cur c s of
        None \<Rightarrow> Some (Delivered False, frame, u, s)
      | Some self \<Rightarrow>
          let g = tk_signals (sc_task s self);
              kReturnMask = (if sg_wait_restore_pending g then sg_wait_restore g else sg_blocked g);
              (choice, g1) = deliver_choose (g\<lparr>sg_wait_restore_pending := False\<rparr>);
              s1 = on_task self (tk_signals_update (\<lambda>_. g1)) s in
          case choice of
            Choice_none \<Rightarrow> Some (Delivered False, frame, u, deliver_rest self kReturnMask s1)
          | Choice_die number \<Rightarrow> map_option (\<lambda>s2. (Died, frame, u, s2)) (Scheduler_exit_current c number s1)
          | Choice_stop \<Rightarrow> map_option (\<lambda>s2. (Stopped_with kReturnMask, frame, u, s2)) (Scheduler_stop_current c spin_depth s1)
          | Choice_handler number action \<Rightarrow>
              let (framed, frame', u') = frame_handler_entry c frame number action kReturnMask u s1 in
              if framed
              then Some (Delivered True, frame', u', on_task self (tk_signals_update (apply_handler_mask action number)) s1)
              else map_option (\<lambda>s2. (Died, frame', u', s2)) (Scheduler_exit_current c kSigSegv s1))"

section \<open>System calls\<close>

abbreviation kEsrch :: int where "kEsrch \<equiv> 3"
abbreviation kEfault :: int where "kEfault \<equiv> 14"
abbreviation kEinval :: int where "kEinval \<equiv> 22"

definition in_stack_window :: "nat \<Rightarrow> u64 \<Rightarrow> u64 \<Rightarrow> Scheduler \<Rightarrow> bool" where
  "in_stack_window c start bytes s =
     (case cur c s of
        None \<Rightarrow> False
      | Some self \<Rightarrow> (case tk_vmas (sc_task s self) of
          None \<Rightarrow> False
        | Some vmas \<Rightarrow> VmaStore_stack_contains start bytes vmas))"

definition frame_of_context :: "SigReturnContext \<Rightarrow> SyscallFrame" where
  "frame_of_context i =
     \<lparr>sf_user_rsp = sr_user_rsp i, sf_rcx = sr_rcx i, sf_r11 = sr_r11 i, sf_rax = sr_rax i, sf_rdi = sr_rdi i,
      sf_rsi = sr_rsi i, sf_rdx = sr_rdx i, sf_r10 = sr_r10 i, sf_r8 = sr_r8 i, sf_r9 = sr_r9 i,
      sf_rbx = sr_rbx i, sf_rbp = sr_rbp i, sf_r12 = sr_r12 i, sf_r13 = sr_r13 i, sf_r14 = sr_r14 i,
      sf_r15 = sr_r15 i\<rparr>"

text \<open>The answer is \<open>None\<close> when the task exits; a frame the handler rewrites is handed back.\<close>

definition HandleRtSigreturn ::
  "nat \<Rightarrow> SyscallFrame \<Rightarrow> UserMemory \<Rightarrow> Scheduler \<Rightarrow> (u64 option \<times> SyscallFrame \<times> Scheduler) option" where
  "HandleRtSigreturn c frame u s =
     (let kContext = sf_user_rsp frame; dies = map_option (\<lambda>s1. (None, frame, s1)) (Scheduler_exit_current c kSigSegv s) in
      if \<not> in_stack_window c kContext kContextBytes s \<or> kContext AND 0xF \<noteq> 0 then dies
      else case CopyFromUser kContext (unat kContextBytes) u of
             None \<Rightarrow> dies
           | Some bytes \<Rightarrow>
               (case cur c s of
                  None \<Rightarrow> None
                | Some self \<Rightarrow>
                    let image = SigReturnContext_of bytes in
                    Some (Some (sr_rax image), frame_of_context image,
                      on_task self (tk_signals_update (sg_blocked_update (\<lambda>_. sr_old_blocked image))) s)))"

text \<open>The other calls answer zero or a negated error number. A call of no task does not occur:
  its \<^verbatim>\<open>CurrentTask()\<close> is dereferenced.\<close>

definition handler_word_ok :: "u64 \<Rightarrow> bool" where
  "handler_word_ok handler \<longleftrightarrow> handler < kUserAddressLimit"

definition SigAction_bytes :: "SigAction \<Rightarrow> u8 list" where
  "SigAction_bytes a = words_bytes [sx_handler a, sx_flags a, sx_restorer a, sx_mask a]"

definition SigAction_of :: "u8 list \<Rightarrow> SigAction" where
  "SigAction_of b = \<lparr>sx_handler = bytes_word b 0, sx_flags = bytes_word b 1, sx_restorer = bytes_word b 2,
     sx_mask = bytes_word b 3\<rparr>"

abbreviation signals_of :: "Scheduler \<Rightarrow> nat \<Rightarrow> SignalState" where
  "signals_of s t \<equiv> tk_signals (sc_task s t)"

definition HandleRtSigpending :: "nat \<Rightarrow> SyscallFrame \<Rightarrow> UserMemory \<Rightarrow> Scheduler \<Rightarrow> (int \<times> UserMemory) option" where
  "HandleRtSigpending c frame u s =
     (if sf_rsi frame \<noteq> 8 then Some (- kEinval, u)
      else case cur c s of
             None \<Rightarrow> None
           | Some self \<Rightarrow>
               let (wrote, u1) = CopyToUser (sf_rdi frame)
                     (word_bytes (sg_pending (signals_of s self) AND sg_blocked (signals_of s self))) u
               in Some (if wrote then 0 else - kEfault, u1))"

text \<open>The user's action record, read and checked; \<open>None\<close> when the call installs nothing.\<close>

definition wanted_action :: "SyscallFrame \<Rightarrow> UserMemory \<Rightarrow> int + SigAction option" where
  "wanted_action frame u =
     (if sf_rsi frame = 0 then Inr None
      else case CopyFromUser (sf_rsi frame) 32 u of
             None \<Rightarrow> Inl (- kEfault)
           | Some bytes \<Rightarrow>
               let wanted = SigAction_of bytes in
               if \<not> handler_word_ok (sx_handler wanted) then Inl (- kEinval)
               else Inr (Some (wanted\<lparr>sx_mask := MaskableSignals (sx_mask wanted)\<rparr>)))"

definition HandleRtSigaction ::
  "nat \<Rightarrow> SyscallFrame \<Rightarrow> UserMemory \<Rightarrow> Scheduler \<Rightarrow> (int \<times> UserMemory \<times> Scheduler) option" where
  "HandleRtSigaction c frame u s =
     (let number = sint (ucast (sf_rdi frame) :: u32) in
      if \<not> SignalCatchable number \<or> sf_r10 frame \<noteq> 8 then Some (- kEinval, u, s)
      else case wanted_action frame u of
        Inl e \<Rightarrow> Some (e, u, s)
      | Inr wanted \<Rightarrow>
          (case cur c s of
             None \<Rightarrow> None
           | Some self \<Rightarrow>
               let before = sg_actions (signals_of s self) ! nat (number - 1);
                   (wrote, u1) = (if sf_rdx frame \<noteq> 0 then CopyToUser (sf_rdx frame) (SigAction_bytes before) u else (True, u)) in
               if \<not> wrote then Some (- kEfault, u1, s)
               else Some (0, u1, case wanted of
                  None \<Rightarrow> s
                | Some act \<Rightarrow> on_task self (tk_signals_update (sg_actions_update (\<lambda>as. as[nat (number - 1) := act]))) s)))"

abbreviation kSigBlock :: u64 where "kSigBlock \<equiv> 0"
abbreviation kSigUnblock :: u64 where "kSigUnblock \<equiv> 1"
abbreviation kSigSetmask :: u64 where "kSigSetmask \<equiv> 2"

definition wanted_mask :: "SyscallFrame \<Rightarrow> UserMemory \<Rightarrow> int + u64 option" where
  "wanted_mask frame u =
     (if sf_rsi frame = 0 then Inr None
      else if sf_rdi frame > kSigSetmask then Inl (- kEinval)
      else case CopyFromUser (sf_rsi frame) 8 u of
             None \<Rightarrow> Inl (- kEfault)
           | Some bytes \<Rightarrow> Inr (Some (MaskableSignals (bytes_word bytes 0))))"

definition mask_applied :: "u64 \<Rightarrow> u64 \<Rightarrow> u64 \<Rightarrow> u64" where
  "mask_applied how wanted blocked =
     (if how = kSigBlock then blocked OR wanted
      else if how = kSigUnblock then blocked AND NOT wanted
      else wanted)"

definition HandleRtSigprocmask ::
  "nat \<Rightarrow> SyscallFrame \<Rightarrow> UserMemory \<Rightarrow> Scheduler \<Rightarrow> (int \<times> UserMemory \<times> Scheduler) option" where
  "HandleRtSigprocmask c frame u s =
     (if sf_r10 frame \<noteq> 8 then Some (- kEinval, u, s)
      else case wanted_mask frame u of
        Inl e \<Rightarrow> Some (e, u, s)
      | Inr wanted \<Rightarrow>
          (case cur c s of
             None \<Rightarrow> None
           | Some self \<Rightarrow>
               let (wrote, u1) = (if sf_rdx frame \<noteq> 0
                                  then CopyToUser (sf_rdx frame) (word_bytes (sg_blocked (signals_of s self))) u else (True, u)) in
               if \<not> wrote then Some (- kEfault, u1, s)
               else Some (0, u1, case wanted of
                  None \<Rightarrow> s
                | Some w \<Rightarrow> on_task self (tk_signals_update (sg_blocked_update (mask_applied (sf_rdi frame) w))) s)))"

text \<open>\<^verbatim>\<open>with_task\<close>: the first registered task of that number, inside the queue guard.\<close>

definition signal_named :: "nat \<Rightarrow> u64 \<Rightarrow> (nat \<Rightarrow> Scheduler \<Rightarrow> bool) \<Rightarrow> int \<Rightarrow> Scheduler \<Rightarrow> (int \<times> Scheduler) option" where
  "signal_named c pid reaches number s =
     (let s1 = Queue_enter c s in
      case List.find (\<lambda>scan. tk_pid (sc_task s1 scan) = pid) (sc_tasks s1) of
        None \<Rightarrow> Some (- kEsrch, Queue_exit c s1)
      | Some task \<Rightarrow>
          if \<not> reaches task s1 then Some (- kEsrch, Queue_exit c s1)
          else if number = 0 then Some (0, Queue_exit c s1)
          else map_option (\<lambda>(sent, s2). (if sent then 0 else - kEinval, Queue_exit c s2)) (SendSignal c task number s1))"

fun kill_each :: "nat \<Rightarrow> (Task \<Rightarrow> nat \<Rightarrow> bool) \<Rightarrow> int \<Rightarrow> nat list \<Rightarrow> nat \<Rightarrow> Scheduler \<Rightarrow> (nat \<times> Scheduler) option" where
  "kill_each c reach number [] heard s = Some (heard, s)"
| "kill_each c reach number (scan # rest) heard s =
     (if \<not> reach (sc_task s scan) scan then kill_each c reach number rest heard s
      else if number = 0 then kill_each c reach number rest (heard + 1) s
      else do {
        (sent, s1) \<leftarrow> SendSignal c scan number s;
        kill_each c reach number rest (if sent then heard + 1 else heard) s1
      })"

definition HandleKill :: "nat \<Rightarrow> SyscallFrame \<Rightarrow> Scheduler \<Rightarrow> (int \<times> Scheduler) option" where
  "HandleKill c frame s =
     (let number = sint (ucast (sf_rsi frame) :: u32); named = sint (sf_rdi frame) in
      if named > 0 then signal_named c (sf_rdi frame) (\<lambda>_ _. True) number s
      else if number \<noteq> 0 \<and> \<not> (number \<ge> 1 \<and> number \<le> kSignalCount) then Some (- kEinval, s)
      else case cur c s of
             None \<Rightarrow> None
           | Some self \<Rightarrow> do {
               let group = (if named = 0 then tk_pgid (sc_task s self) else word_of_int (- named));
               (heard, s1) \<leftarrow> kill_each c (\<lambda>k scan. if named = -1 then scan \<noteq> self else tk_pgid k = group) number
                               (sc_tasks s) 0 (Queue_enter c s);
               Some (if heard = 0 then - kEsrch else 0, Queue_exit c s1)
             })"

definition signal_thread :: "nat \<Rightarrow> u64 \<Rightarrow> u64 \<Rightarrow> int \<Rightarrow> Scheduler \<Rightarrow> (int \<times> Scheduler) option" where
  "signal_thread c tid tgid number s =
     (if sint tid \<le> 0 \<or> number < 0 \<or> number > kSignalCount then Some (- kEinval, s)
      else signal_named c tid (\<lambda>task s. tgid = 0 \<or> tk_tgid (sc_task s task) = tgid) number s)"

definition HandleTgkill :: "nat \<Rightarrow> SyscallFrame \<Rightarrow> Scheduler \<Rightarrow> (int \<times> Scheduler) option" where
  "HandleTgkill c frame s =
     (if sint (sf_rdi frame) \<le> 0 then Some (- kEinval, s)
      else signal_thread c (sf_rsi frame) (sf_rdi frame) (sint (ucast (sf_rdx frame) :: u32)) s)"

definition HandleTkill :: "nat \<Rightarrow> SyscallFrame \<Rightarrow> Scheduler \<Rightarrow> (int \<times> Scheduler) option" where
  "HandleTkill c frame s = signal_thread c (sf_rdi frame) 0 (sint (ucast (sf_rsi frame) :: u32)) s"

end
