(* ===== verification/Signal_Frames.thy ===== *)
theory Signal_Frames
  imports Signals
begin

unbundle bit_operations_syntax

text \<open>
  What signal delivery does to a task: which signal is taken, where its frame lies on the user
  stack, and that the return call undoes the delivery.
\<close>

section \<open>Bytes that cross\<close>

lemma word_bytes_length [simp]: "length (word_bytes w) = 8"
  by (simp add: word_bytes_def write_simps)

lemma words_bytes_length [simp]: "length (words_bytes ws) = 8 * length ws"
  by (induction ws) (simp_all add: words_bytes_def)

lemma ReadWord64_append:
  "8 \<le> length xs \<Longrightarrow> ReadWord64 (xs @ ys) 0 = ReadWord64 xs 0"
  "ReadWord64 (xs @ ys) (length xs + k) = ReadWord64 ys k"
  by (cases "xs = []"; simp add: ReadWord64_def ReadWord32_def nth_append; fail)+

lemma bytes_word_words: "k < length ws \<Longrightarrow> bytes_word (words_bytes ws) k = ws ! k"
proof (induction ws arbitrary: k)
  case Nil
  then show ?case by simp
next
  case (Cons w ws)
  show ?case
  proof (cases k)
    case 0
    then show ?thesis
      using read_write64[of 0 "replicate 8 0" w]
      by (simp add: bytes_word_def words_bytes_def ReadWord64_append(1)) (simp add: word_bytes_def)
  next
    case (Suc j)
    have "ReadWord64 (word_bytes w @ words_bytes ws) (length (word_bytes w) + 8 * j) = ReadWord64 (words_bytes ws) (8 * j)"
      by (rule ReadWord64_append(2))
    then show ?thesis using Suc Cons by (simp add: bytes_word_def words_bytes_def)
  qed
qed

lemma SigReturnContext_round_trip: "SigReturnContext_of (SigReturnContext_bytes i) = i"
  by (simp add: SigReturnContext_of_def SigReturnContext_bytes_def bytes_word_words)

lemma frame_of_context_image: "frame_of_context (context_image frame b) = frame"
  by (simp add: frame_of_context_def context_image_def)

text \<open>A store changes nothing outside its span, and when it succeeds it leaves the bytes there.\<close>

lemma store_bytes_frame:
  assumes "store_bytes a bs u = (wrote, u')"
  shows "um_mapped u' = um_mapped u" "(\<forall>i<length bs. x \<noteq> a + of_nat i) \<Longrightarrow> um_byte u' x = um_byte u x"
proof -
  have "um_mapped u' = um_mapped u \<and> ((\<forall>i<length bs. x \<noteq> a + of_nat i) \<longrightarrow> um_byte u' x = um_byte u x)"
    using assms
  proof (induction bs arbitrary: a u)
    case (Cons b bs)
    have shift: "(\<forall>i<length (b # bs). x \<noteq> a + of_nat i) \<longleftrightarrow> x \<noteq> a \<and> (\<forall>i<length bs. x \<noteq> a + 1 + of_nat i)"
      by (simp add: All_less_Suc2 add.assoc)
    show ?case
    proof (cases "um_mapped u a")
      case True
      then have "store_bytes (a + 1) bs (u\<lparr>um_byte := (um_byte u)(a := b)\<rparr>) = (wrote, u')" using Cons.prems by simp
      from Cons.IH[OF this] show ?thesis unfolding shift by simp
    qed (use Cons.prems in auto)
  qed auto
  then show "um_mapped u' = um_mapped u" "(\<forall>i<length bs. x \<noteq> a + of_nat i) \<Longrightarrow> um_byte u' x = um_byte u x" by blast+
qed

lemma unat_of_nat64: "n < 2 ^ 64 \<Longrightarrow> unat (of_nat n :: u64) = n"
  by (simp add: unat_of_nat take_bit_nat_eq_self)

lemma of_nat_small_inj: "i < 2 ^ 64 \<Longrightarrow> j < 2 ^ 64 \<Longrightarrow> (of_nat i :: u64) = of_nat j \<longleftrightarrow> i = j"
  by (metis unat_of_nat64)

lemma store_bytes_done:
  assumes "store_bytes a bs u = (True, u')" "length bs \<le> 2 ^ 64" "i < length bs"
  shows "um_byte u' (a + of_nat i) = bs ! i \<and> um_mapped u' (a + of_nat i)"
  using assms
proof (induction bs arbitrary: i a u)
  case (Cons b bs)
  have m: "um_mapped u a" and rest: "store_bytes (a + 1) bs (u\<lparr>um_byte := (um_byte u)(a := b)\<rparr>) = (True, u')"
    using Cons.prems(1) by (simp_all split: if_splits)
  show ?case
  proof (cases i)
    case 0
    have "a \<noteq> a + 1 + of_nat j" if "j < length bs" for j
      using of_nat_small_inj[of "Suc j" 0] that Cons.prems(2) by (simp add: add.assoc)
    then show ?thesis using store_bytes_frame[OF rest] m 0 by simp
  next
    case (Suc j)
    have "um_byte u' (a + 1 + of_nat j) = bs ! j \<and> um_mapped u' (a + 1 + of_nat j)"
      using Cons.IH[OF rest] Cons.prems(2,3) Suc by simp
    then show ?thesis using Suc by (simp add: add.assoc)
  qed
qed simp

lemma load_bytes_all:
  "(\<And>i. i < n \<Longrightarrow> um_mapped u (a + of_nat i)) \<Longrightarrow>
   load_bytes a n u = Some (map (\<lambda>i. um_byte u (a + of_nat i)) [0..<n])"
proof (induction n arbitrary: a)
  case (Suc n)
  have "um_mapped u a" using Suc.prems[of 0] by simp
  moreover have "load_bytes (a + 1) n u = Some (map (\<lambda>i. um_byte u (a + 1 + of_nat i)) [0..<n])"
  proof (rule Suc.IH)
    fix i assume "i < n"
    then show "um_mapped u (a + 1 + of_nat i)" using Suc.prems[of "Suc i"] by (simp add: add.assoc)
  qed
  moreover have "[0..<Suc n] = 0 # map Suc [0..<n]" by (simp add: map_Suc_upt upt_conv_Cons del: upt_Suc)
  ultimately show ?case by (simp add: add.assoc comp_def del: upt_Suc)
qed simp

lemma CopyToUser_done:
  assumes "CopyToUser a bs u = (True, u')" "0 < length bs" "length bs < 2 ^ 40"
  shows "store_bytes a bs u = (True, u')" "UserRangeReadable a (of_nat (length bs))"
    "unat a + length bs \<le> unat kUserAddressLimit"
proof -
  show r: "UserRangeReadable a (of_nat (length bs))" and "store_bytes a bs u = (True, u')"
    using assms by (auto simp: CopyToUser_def UserRangeWritable_def split: if_splits)
  have "unat (of_nat (length bs) :: u64) = length bs" using assms(3) by (simp add: unat_of_nat64)
  then show "unat a + length bs \<le> unat kUserAddressLimit"
    using r by (auto simp: UserRangeReadable_def word_le_nat_alt word_less_nat_alt unat_sub)
qed

section \<open>Where the frame lies\<close>

text \<open>The context address: sixteen-byte aligned, below the red zone, with room for the return
  address below it.\<close>

definition context_at :: "u64 \<Rightarrow> u64" where
  "context_at rsp = (rsp - kRedZoneBytes - kContextBytes) AND NOT 0xF"

lemma and_not_15: "unat (w AND NOT 0xF :: u64) = unat w div 16 * 16"
proof -
  have f: "(0xF :: u64) = mask 4" by (simp add: mask_eq_exp_minus_1)
  have "w AND NOT (mask 4) = push_bit 4 (drop_bit 4 w)"
    by (rule bit_word_eqI) (auto simp: bit_simps not_less)
  then have "unat (w AND NOT (mask 4)) = unat (push_bit 4 (drop_bit 4 w))" by simp
  also have "\<dots> = unat w div 16 * 16"
  proof -
    have "unat w < 2 ^ LENGTH(64)" by (rule unsigned_less)
    then have "unat w div 16 * 16 < 2 ^ 64" using div_times_less_eq_dividend[of "unat w" 16] by simp
    then show ?thesis
      by (simp add: push_bit_eq_mult drop_bit_eq_div unat_word_ariths unat_div_distrib)
  qed
  finally show ?thesis unfolding f .
qed

lemma context_at_bounds:
  assumes "rsp \<ge> kDeliveryBytes"
  shows "unat (context_at rsp) + 272 \<le> unat rsp" "unat rsp \<le> unat (context_at rsp) + 287" "16 \<le> unat (context_at rsp)"
    "unat (context_at rsp) mod 16 = 0" "context_at rsp AND 0xF = 0"
proof -
  have r: "295 \<le> unat rsp" using assms by (simp add: word_le_nat_alt)
  have "unat (rsp - kRedZoneBytes - kContextBytes) = unat rsp - 272"
    using r by (simp add: unat_sub word_le_nat_alt)
  then have u: "unat (context_at rsp) = (unat rsp - 272) div 16 * 16" unfolding context_at_def and_not_15 by simp
  have one: "1 \<le> (unat rsp - 272) div 16" using div_le_mono[of 16 "unat rsp - 272" 16] r by simp
  show "unat (context_at rsp) + 272 \<le> unat rsp" "unat rsp \<le> unat (context_at rsp) + 287" "16 \<le> unat (context_at rsp)"
    unfolding u using r div_mult_mod_eq[of "unat rsp - 272" 16] mod_less_divisor[of 16 "unat rsp - 272"] one by linarith+
  show "unat (context_at rsp) mod 16 = 0" unfolding u by simp
  show "context_at rsp AND 0xF = 0" by (simp add: context_at_def and.assoc)
qed

lemma frame_handler_entry_done:
  assumes "frame_handler_entry c frame number act b u s = (True, frame', u')"
  obtains u1 where "stack_holds_delivery c (sf_user_rsp frame) s"
    "frame' = frame\<lparr>sf_user_rsp := context_at (sf_user_rsp frame) - 8, sf_rcx := sx_handler act,
       sf_rdi := word_of_int number, sf_rax := 0\<rparr>"
    "CopyToUser (context_at (sf_user_rsp frame)) (SigReturnContext_bytes (context_image frame b)) u = (True, u1)"
    "CopyToUser (context_at (sf_user_rsp frame) - 8)
       (word_bytes (if sx_flags act AND kSaRestorer \<noteq> 0 then sx_restorer act else SignalTrampolineAddress)) u1 = (True, u')"
proof -
  let ?at = "context_at (sf_user_rsp frame)"
  obtain w1 u1 where first: "CopyToUser ?at (SigReturnContext_bytes (context_image frame b)) u = (w1, u1)" by fastforce
  obtain w2 u2 where second: "CopyToUser (?at - 8)
      (word_bytes (if sx_flags act AND kSaRestorer \<noteq> 0 then sx_restorer act else SignalTrampolineAddress)) u1 = (w2, u2)"
    by fastforce
  show ?thesis
    using that[of u1] assms first second unfolding frame_handler_entry_def Let_def context_at_def[symmetric]
    by (simp split: if_splits)
qed

section \<open>Which signal is taken\<close>

text \<open>A signal that goes round the loop: ignored, or one whose default is to do nothing.\<close>

definition harmless :: "SignalState \<Rightarrow> int \<Rightarrow> bool" where
  "harmless g n \<longleftrightarrow>
     (let h = sx_handler (sg_actions g ! nat (n - 1)) in
      h = kSignalIgnore \<or> h = kSignalDefault \<and> DefaultDisposition n \<noteq> Disposition_kTerminate \<and> DefaultDisposition n \<noteq> Disposition_kStop)"

text \<open>Signal \<open>n\<close> waits and is not held back.\<close>

definition runnable :: "SignalState \<Rightarrow> int \<Rightarrow> bool" where
  "runnable g n \<longleftrightarrow> 1 \<le> n \<and> n \<le> kSignalCount \<and> bit (sg_pending g) (nat (n - 1)) \<and> \<not> bit (sg_blocked g) (nat (n - 1))"

lemma lowest_runnable_iff:
  "lowest_runnable g = 0 \<Longrightarrow> \<not> runnable g n"
  "lowest_runnable g \<noteq> 0 \<Longrightarrow> runnable g (lowest_runnable g) \<and> (\<forall>m. runnable g m \<longrightarrow> lowest_runnable g \<le> m)"
proof -
  assume "lowest_runnable g = 0"
  then have "sg_pending g AND NOT (sg_blocked g) = 0" by (cases g rule: lowest_runnable_cases) auto
  then have "\<not> bit (sg_pending g AND NOT (sg_blocked g)) i" for i by simp
  then show "\<not> runnable g n"
    using bit_imp_possible_bit[of "sg_pending g"] by (auto simp: runnable_def bit_and_iff bit_not_iff)
next
  assume "lowest_runnable g \<noteq> 0"
  then show "runnable g (lowest_runnable g) \<and> (\<forall>m. runnable g m \<longrightarrow> lowest_runnable g \<le> m)"
    by (cases g rule: lowest_runnable_cases) (auto simp: runnable_def not_le[symmetric])
qed

lemma clear_bit_iff: "bit (w AND NOT (push_bit k 1) :: u64) i \<longleftrightarrow> bit w i \<and> i \<noteq> k"
  unfolding bit_and_iff bit_not_iff bit_single using bit_imp_possible_bit[of w i] bit_imp_le_length[of w i] by auto

lemma take_runnable_facts:
  assumes "1 \<le> k" "k \<le> kSignalCount" "take_runnable k g = (act, g')"
  shows "act = sg_actions g ! nat (k - 1)" "sg_blocked g' = sg_blocked g"
    "runnable g' n \<longleftrightarrow> runnable g n \<and> n \<noteq> k"
    "1 \<le> n \<Longrightarrow> n \<noteq> k \<Longrightarrow> sg_actions g' ! nat (n - 1) = sg_actions g ! nat (n - 1)"
    "1 \<le> n \<Longrightarrow> n \<noteq> k \<Longrightarrow> bit (sg_pending g') (nat (n - 1)) = bit (sg_pending g) (nat (n - 1))"
    "\<not> bit (sg_pending g') (nat (k - 1))"
proof -
  show "act = sg_actions g ! nat (k - 1)" and b: "sg_blocked g' = sg_blocked g"
    using assms(3) by (auto simp: take_runnable_def Let_def)
  have p: "bit (sg_pending g') i \<longleftrightarrow> bit (sg_pending g) i \<and> i \<noteq> nat (k - 1)" for i
    using take_runnable_pending[of k g] assms(3) clear_bit_iff[of "sg_pending g" "nat (k - 1)" i]
    unfolding bit_for_def by (simp only: snd_conv)
  have apart: "nat (n - 1) \<noteq> nat (k - 1)" if "1 \<le> n" "n \<noteq> k" using that assms(1) by linarith
  show "runnable g' n \<longleftrightarrow> runnable g n \<and> n \<noteq> k"
    using apart unfolding runnable_def b p by blast
  show "bit (sg_pending g') (nat (n - 1)) = bit (sg_pending g) (nat (n - 1))" if "1 \<le> n" "n \<noteq> k"
    using apart[OF that] p by simp
  show "\<not> bit (sg_pending g') (nat (k - 1))" by (simp add: p)
  show "sg_actions g' ! nat (n - 1) = sg_actions g ! nat (n - 1)" if "1 \<le> n" "n \<noteq> k"
    using assms(3) apart[OF that] by (auto simp: take_runnable_def Let_def split: if_splits)
qed

text \<open>Signal \<open>n\<close> decides: it is the lowest one that does not go round.\<close>

definition decides :: "SignalState \<Rightarrow> int \<Rightarrow> bool" where
  "decides g n \<longleftrightarrow> runnable g n \<and> \<not> harmless g n \<and> (\<forall>m<n. runnable g m \<longrightarrow> harmless g m)"

definition choice_ok :: "SignalState \<Rightarrow> SignalChoice \<Rightarrow> SignalState \<Rightarrow> bool" where
  "choice_ok g choice g' \<longleftrightarrow>
     sg_blocked g' = sg_blocked g \<and>
     (case choice of
        Choice_none \<Rightarrow> \<forall>n. runnable g n \<longrightarrow> harmless g n
      | Choice_die n \<Rightarrow> decides g n
      | Choice_stop \<Rightarrow> \<exists>n. decides g n
      | Choice_handler n act \<Rightarrow> decides g n \<and> act = sg_actions g ! nat (n - 1) \<and> sx_handler act \<noteq> kSignalDefault \<and>
          \<not> bit (sg_pending g') (nat (n - 1)) \<and>
          (\<forall>m>n. bit (sg_pending g') (nat (m - 1)) = bit (sg_pending g) (nat (m - 1))))"

lemma choice_ok_round:
  assumes "runnable g k" "\<And>m. runnable g m \<Longrightarrow> k \<le> m" "harmless g k" "take_runnable k g = (act, g1)"
    "choice_ok g1 choice g'"
  shows "choice_ok g choice g'"
proof -
  have range: "1 \<le> k" "k \<le> kSignalCount" using assms(1) by (simp_all add: runnable_def)
  note tr = take_runnable_facts[OF range assms(4)]
  have h: "runnable g m \<Longrightarrow> m \<noteq> k \<Longrightarrow> harmless g1 m = harmless g m" for m
    using tr(4)[of m] by (simp add: harmless_def runnable_def)
  have none: "(\<forall>n. runnable g1 n \<longrightarrow> harmless g1 n) \<longleftrightarrow> (\<forall>n. runnable g n \<longrightarrow> harmless g n)"
    using h tr(3) assms(3) by metis
  have dec: "decides g1 n \<longleftrightarrow> decides g n" for n
    unfolding decides_def using h tr(3) assms(3) by metis
  have above: "k < n" if "decides g n" for n
    using that assms(2,3) by (auto simp: decides_def order_le_less)
  show ?thesis
  proof (cases choice)
    case (Choice_handler n act')
    then have n: "decides g n" "k < n" using assms(5) dec above by (auto simp: choice_ok_def)
    then show ?thesis
      using assms(5) Choice_handler dec tr(2) tr(4,5)[of n] tr(5) range by (auto simp: choice_ok_def)
  qed (use assms(5) none dec tr(2) in \<open>auto simp: choice_ok_def\<close>)
qed

lemma deliver_choose_ok: "deliver_choose g = (choice, g') \<Longrightarrow> choice_ok g choice g'"
proof (induction g rule: deliver_choose.induct)
  case (1 g)
  let ?k = "lowest_runnable g"
  show ?case
  proof (cases "?k = 0")
    case True
    then show ?thesis
      using 1(3) lowest_runnable_iff(1)[OF True] by (subst (asm) deliver_choose.simps) (auto simp: choice_ok_def)
  next
    case False
    obtain act g1 where t: "take_runnable ?k g = (act, g1)" by fastforce
    have k: "runnable g ?k" "\<And>m. runnable g m \<Longrightarrow> ?k \<le> m" using lowest_runnable_iff(2)[OF False] by auto
    then have range: "1 \<le> ?k" "?k \<le> kSignalCount" by (simp_all add: runnable_def)
    note tr = take_runnable_facts[OF range t]
    show ?thesis
    proof (cases "harmless g ?k")
      case True
      then have "deliver_choose g = deliver_choose g1"
        using False t tr(1) by (subst deliver_choose.simps) (auto simp: harmless_def Let_def)
      then have "choice_ok g1 choice g'"
        using 1(1,2)[OF refl False t[symmetric] refl] 1(3) True tr(1) by (auto simp: harmless_def Let_def)
      from choice_ok_round[OF k True t this] show ?thesis .
    next
      case no: False
      have d: "decides g ?k" using k no by (force simp: decides_def)
      have "g' = g1" "choice = (if sx_handler act = kSignalDefault
          then if DefaultDisposition ?k = Disposition_kTerminate then Choice_die ?k else Choice_stop
          else Choice_handler ?k act)"
        using 1(3) False t tr(1) no by (subst (asm) deliver_choose.simps, auto simp: harmless_def Let_def split: if_splits)+
      then show ?thesis using d tr range by (auto simp: choice_ok_def split: if_splits)
    qed
  qed
qed

section \<open>Delivery\<close>

text \<open>The mask the task returns to: the one a wait put aside, or the present one.\<close>

definition return_mask :: "SignalState \<Rightarrow> u64" where
  "return_mask g = (if sg_wait_restore_pending g then sg_wait_restore g else sg_blocked g)"

lemma delivered_handler:
  assumes "DeliverPendingSignals c d frame u s = Some (Delivered True, frame', u', s')" "cur c s = Some self"
  obtains n act g1 where
    "deliver_choose ((signals_of s self)\<lparr>sg_wait_restore_pending := False\<rparr>) = (Choice_handler n act, g1)"
    "frame_handler_entry c frame n act (return_mask (signals_of s self)) u (on_task self (tk_signals_update (\<lambda>_. g1)) s) =
       (True, frame', u')"
    "s' = on_task self (tk_signals_update (\<lambda>_. apply_handler_mask act n g1)) s"
proof -
  let ?g = "signals_of s self"
  obtain choice g1 where ch: "deliver_choose (?g\<lparr>sg_wait_restore_pending := False\<rparr>) = (choice, g1)" by fastforce
  let ?s1 = "on_task self (tk_signals_update (\<lambda>_. g1)) s"
  show ?thesis
  proof (cases choice)
    case (Choice_handler n act)
    obtain framed f v where e: "frame_handler_entry c frame n act (return_mask ?g) u ?s1 = (framed, f, v)" by (metis surj_pair)
    have "framed \<and> f = frame' \<and> v = u' \<and> s' = on_task self (tk_signals_update (apply_handler_mask act n)) ?s1"
      using assms ch Choice_handler e
      by (cases framed) (simp_all add: DeliverPendingSignals_def Let_def return_mask_def)
    with e ch Choice_handler show ?thesis by (intro that[of n act g1]) (simp_all add: on_task_def comp_def)
  qed (use assms ch in \<open>simp_all add: DeliverPendingSignals_def Let_def\<close>)
qed

lemma unat_headroom: "unat (NOT 0 - w :: u64) + unat w = 2 ^ 64 - 1"
proof -
  have "w \<le> NOT 0" by simp
  then have "unat (NOT 0 - w) = unat (NOT 0 :: u64) - unat w" "unat w \<le> unat (NOT 0 :: u64)"
    by (simp_all only: unat_sub word_le_nat_alt)
  moreover have "unat (NOT 0 :: u64) = 2 ^ 64 - 1" by (simp add: unsigned_minus_1_eq_mask mask_eq_exp_minus_1)
  ultimately show ?thesis by linarith
qed

lemma stack_part:
  assumes "vma_inv vmas" "VmaStore_stack_contains lo n vmas" "lo \<le> a" "m \<noteq> 0" "unat a + unat m \<le> unat lo + unat n"
  shows "VmaStore_stack_contains a m vmas"
proof -
  have n: "\<not> n > NOT 0 - lo" "stack_walk lo (lo + n) vmas"
    using assms(2) by (auto simp: VmaStore_stack_contains_def split: if_splits)
  have top: "unat lo + unat n < 2 ^ 64"
  proof -
    have "unat n \<le> unat (NOT 0 - lo)" using n(1) by (simp add: word_le_nat_alt not_less)
    then show ?thesis using unat_headroom[of lo] by simp
  qed
  have ends: "unat (lo + n) = unat lo + unat n" "unat (a + m) = unat a + unat m"
    using top assms(5) by (simp_all add: unat_word_ariths)
  have "in_span lo (lo + n) x" if "in_span a (a + m) x" for x
    using that assms(3,5) ends by (auto simp: in_span_def word_less_nat_alt word_le_nat_alt)
  then have "stack_walk a (a + m) vmas"
    using n(2) by (simp add: stack_walk_iff[OF assms(1)])
  moreover have "\<not> m > NOT 0 - a"
    using top assms(5) unat_headroom[of a] by (simp add: word_less_nat_alt)
  ultimately show ?thesis using assms(4) by (simp add: VmaStore_stack_contains_def)
qed

lemma stack_holds_deliveryD:
  assumes "stack_holds_delivery c rsp s" "cur c s = Some self" "tk_vmas (sc_task s self) = Some vmas"
  shows "rsp \<ge> kDeliveryBytes" "VmaStore_stack_contains (rsp - kDeliveryBytes) kDeliveryBytes vmas"
    "unat (rsp - kDeliveryBytes) = unat rsp - 295"
proof -
  show le: "rsp \<ge> kDeliveryBytes" and "VmaStore_stack_contains (rsp - kDeliveryBytes) kDeliveryBytes vmas"
    using assms by (simp_all add: stack_holds_delivery_def)
  from le show "unat (rsp - kDeliveryBytes) = unat rsp - 295" by (simp add: unat_sub)
qed

text \<open>What a written frame holds: the context bytes survive the store of the return address below.\<close>

lemma frame_written:
  assumes "frame_handler_entry c frame n act b u s = (True, frame', u')" "i < 144"
  shows "um_byte u' (context_at (sf_user_rsp frame) + of_nat i) = SigReturnContext_bytes (context_image frame b) ! i"
    "um_mapped u' (context_at (sf_user_rsp frame) + of_nat i)"
proof -
  let ?at = "context_at (sf_user_rsp frame)" and ?image = "SigReturnContext_bytes (context_image frame b)"
  obtain u1 where e: "stack_holds_delivery c (sf_user_rsp frame) s" "CopyToUser ?at ?image u = (True, u1)"
      "CopyToUser (?at - 8) (word_bytes (if sx_flags act AND kSaRestorer \<noteq> 0 then sx_restorer act
         else SignalTrampolineAddress)) u1 = (True, u')"
    using frame_handler_entry_done[OF assms(1)] by metis
  have len: "length ?image = 144" by (simp add: SigReturnContext_bytes_def)
  then have one: "store_bytes ?at ?image u = (True, u1)" "unat ?at + 144 \<le> unat kUserAddressLimit"
    using CopyToUser_done(1,3)[OF e(2)] by simp_all
  have two: "store_bytes (?at - 8) (word_bytes (if sx_flags act AND kSaRestorer \<noteq> 0 then sx_restorer act
         else SignalTrampolineAddress)) u1 = (True, u')"
    using CopyToUser_done(1)[OF e(3)] by simp
  have lo: "16 \<le> unat ?at" using context_at_bounds(3) e(1) by (simp add: stack_holds_delivery_def)
  have up: "unat (?at + of_nat i) = unat ?at + i"
    using one(2) assms(2) by (simp add: unat_word_ariths unat_of_nat64 kUserAddressLimit_def)
  have "?at + of_nat i \<noteq> ?at - 8 + of_nat j" if "j < 8" for j
  proof -
    have "unat (?at - 8 + of_nat j) = unat ?at - 8 + j"
      using lo that one(2) by (simp add: unat_word_ariths unat_of_nat64 unat_sub word_le_nat_alt kUserAddressLimit_def)
    then have "unat (?at - 8 + of_nat j) < unat (?at + of_nat i)" unfolding up using lo that by linarith
    then show ?thesis by (metis less_irrefl)
  qed
  then have "um_byte u' (?at + of_nat i) = um_byte u1 (?at + of_nat i)" "um_mapped u' = um_mapped u1"
    using store_bytes_frame[OF two] by simp_all
  then show "um_byte u' (?at + of_nat i) = ?image ! i" "um_mapped u' (?at + of_nat i)"
    using store_bytes_done[OF one(1)] len assms(2) by simp_all
qed

text \<open>
  C7. The return call undoes a delivery. After a handler entry was built, the handler's \<^verbatim>\<open>ret\<close> leaves
  the stack pointer eight above the frame's; a \<^verbatim>\<open>rt_sigreturn\<close> from there, with the saved context
  still in memory and the stack still registered, gives back the whole register image the task was
  interrupted with and the mask it had before the delivery, however the handler used its registers.
\<close>

theorem signal_return_restores:
  assumes "DeliverPendingSignals c d frame u s = Some (Delivered True, frame', u', s')"
    and "cur c s = Some self" "tk_vmas (sc_task s self) = Some vmas" "vma_inv vmas"
    and "cur c2 s2 = Some self" "tk_vmas (sc_task s2 self) = Some vmas"
    and "sf_user_rsp later = sf_user_rsp frame' + 8"
    and "\<forall>i<144. um_byte u2 (sf_user_rsp later + of_nat i) = um_byte u' (sf_user_rsp later + of_nat i) \<and>
      um_mapped u2 (sf_user_rsp later + of_nat i)"
  shows "HandleRtSigreturn c2 later u2 s2 =
    Some (Some (sf_rax frame), frame,
      on_task self (tk_signals_update (sg_blocked_update (\<lambda>_. return_mask (signals_of s self)))) s2)"
proof -
  let ?rsp = "sf_user_rsp frame" and ?image = "SigReturnContext_bytes (context_image frame (return_mask (signals_of s self)))"
  obtain n act g1 where entry: "frame_handler_entry c frame n act (return_mask (signals_of s self)) u
      (on_task self (tk_signals_update (\<lambda>_. g1)) s) = (True, frame', u')"
    using delivered_handler[OF assms(1,2)] by metis
  obtain u1 where e: "stack_holds_delivery c ?rsp (on_task self (tk_signals_update (\<lambda>_. g1)) s)"
      "sf_user_rsp frame' = context_at ?rsp - 8" "CopyToUser (context_at ?rsp) ?image u = (True, u1)"
    by (rule frame_handler_entry_done[OF entry]) simp
  have at: "sf_user_rsp later = context_at ?rsp" using assms(7) e(2) by simp
  have stack: "?rsp \<ge> kDeliveryBytes" "VmaStore_stack_contains (?rsp - kDeliveryBytes) kDeliveryBytes vmas"
      "unat (?rsp - kDeliveryBytes) = unat ?rsp - 295"
    using stack_holds_deliveryD[OF e(1), of self vmas] assms(2,3) by (simp_all add: on_task_def)
  have len: "length ?image = 144" by (simp add: SigReturnContext_bytes_def)
  have "VmaStore_stack_contains (context_at ?rsp) kContextBytes vmas"
    using context_at_bounds[OF stack(1)] stack(3) by (intro stack_part[OF assms(4) stack(2)]) (simp_all add: word_le_nat_alt)
  then have window: "in_stack_window c2 (context_at ?rsp) kContextBytes s2" using assms(5,6) by (simp add: in_stack_window_def)
  have "load_bytes (context_at ?rsp) 144 u2 = Some (map (\<lambda>i. um_byte u2 (context_at ?rsp + of_nat i)) [0..<144])"
    using assms(8) at by (intro load_bytes_all) simp
  also have "map (\<lambda>i. um_byte u2 (context_at ?rsp + of_nat i)) [0..<144] = ?image"
    using assms(8) at len frame_written(1)[OF entry] by (intro nth_equalityI) simp_all
  finally have "CopyFromUser (context_at ?rsp) 144 u2 = Some ?image"
    using CopyToUser_done(2)[OF e(3)] len by (simp add: CopyFromUser_def)
  then show ?thesis
    using window at context_at_bounds(5)[OF stack(1)] assms(5)
    by (simp add: HandleRtSigreturn_def Let_def SigReturnContext_round_trip frame_of_context_image) (simp add: context_image_def)
qed

text \<open>A task with a stack of two pages and a handler for one signal that is pending.\<close>

definition sample_stack :: VmaStore where
  "sample_stack = \<lparr>vs_regions = [VmaRegion_blank\<lparr>vr_start := 0x7000, vr_end := 0x9000, vr_kind := VmaKind_kStack,
      vr_stack_floor := 0x7000, vr_readable := True, vr_writable := True\<rparr>],
     vs_heap = VmaRegion_blank, vs_heap_break = 0, vs_heap_max = 0, vs_heap_recorded = True, vs_mmap_ceiling = 0\<rparr>"

definition sample_handler :: SigAction where
  "sample_handler = SigAction_blank\<lparr>sx_handler := 0x1000\<rparr>"

definition sample_signals :: SignalState where
  "sample_signals = SignalState_init\<lparr>sg_actions := (sg_actions SignalState_init)[9 := sample_handler], sg_pending := 0x200\<rparr>"

definition sample_task :: "SignalState \<Rightarrow> Scheduler" where
  "sample_task g = Scheduler_boot\<lparr>
     sc_task := (sc_task Scheduler_boot)(7 := Task_blank\<lparr>tk_state := kRunning, tk_vmas := Some sample_stack, tk_signals := g\<rparr>),
     sc_cpu := (sc_cpu Scheduler_boot)(0 := PerCpu_blank\<lparr>pc_current := Some 7\<rparr>)\<rparr>"

definition sample_memory :: UserMemory where
  "sample_memory = \<lparr>um_byte = (\<lambda>_. 0), um_mapped = (\<lambda>_. True)\<rparr>"

definition sample_frame :: SyscallFrame where
  "sample_frame = \<lparr>sf_user_rsp = 0x8800, sf_rcx = 0x400010, sf_r11 = 0x202, sf_rax = 3, sf_rdi = 1, sf_rsi = 2, sf_rdx = 3,
     sf_r10 = 4, sf_r8 = 5, sf_r9 = 6, sf_rbx = 7, sf_rbp = 8, sf_r12 = 9, sf_r13 = 10, sf_r14 = 11, sf_r15 = 12\<rparr>"

lemma sample_task_simps [simp]:
  "cur 0 (sample_task g) = Some 7" "signals_of (sample_task g) 7 = g" "tk_vmas (sc_task (sample_task g) 7) = Some sample_stack"
  "on_task 7 (tk_signals_update f) (sample_task g) = sample_task (f g)"
  by (simp_all add: sample_task_def on_task_def Scheduler_boot_def comp_def)

lemma sample_stack_inv: "vma_inv sample_stack"
  by (simp add: vma_inv_def sample_stack_def spans_ok_def live_spans_def VmaRegion_blank_def)

lemma sample_stack_holds:
  assumes "0x7000 \<le> start" "bytes \<noteq> 0" "bytes \<le> 0x2000" "start \<le> 0x9000 - bytes"
  shows "VmaStore_stack_contains start bytes sample_stack"
proof -
  have b: "unat bytes \<le> 0x2000" "unat start \<le> 0x9000 - unat bytes" "0x7000 \<le> unat start"
    using assms by (simp_all add: word_le_nat_alt unat_sub)
  have "stack_byte sample_stack a" if "in_span start (start + bytes) a" for a
  proof -
    have "unat (start + bytes) = unat start + unat bytes" using b by (simp add: unat_word_ariths)
    then have "0x7000 \<le> unat a" "unat a < 0x9000"
      using that b by (auto simp: in_span_def word_le_nat_alt word_less_nat_alt)
    then have "0x7000 \<le> a" "a < 0x9000" by (simp_all add: word_le_nat_alt word_less_nat_alt)
    then show ?thesis
      by (simp add: stack_byte_def VmaStore_find_def sample_stack_def covers_def VmaRegion_blank_def)
  qed
  moreover have "\<not> bytes > NOT 0 - start" using b unat_headroom[of start] by (simp add: word_less_nat_alt)
  ultimately show ?thesis using assms(2) by (simp add: VmaStore_stack_contains_def stack_walk_iff[OF sample_stack_inv])
qed

lemma store_bytes_mapped: "\<forall>x. um_mapped u x \<Longrightarrow> \<exists>u'. store_bytes a bs u = (True, u') \<and> (\<forall>x. um_mapped u' x)"
  by (induction bs arbitrary: a u) auto

lemma CopyToUser_store:
  "0 < length bs \<Longrightarrow> UserRangeWritable a (of_nat (length bs)) \<Longrightarrow> CopyToUser a bs u = store_bytes a bs u"
  by (auto simp: CopyToUser_def)

lemma sample_context: "context_at (sf_user_rsp sample_frame) = 0x86F0"
  by (simp add: context_at_def sample_frame_def)

lemma frame_handler_entry_make:
  assumes "stack_holds_delivery c (sf_user_rsp frame) s"
    "CopyToUser (context_at (sf_user_rsp frame)) (SigReturnContext_bytes (context_image frame b)) u = (True, u1)"
    "CopyToUser (context_at (sf_user_rsp frame) - 8)
       (word_bytes (if sx_flags act AND kSaRestorer \<noteq> 0 then sx_restorer act else SignalTrampolineAddress)) u1 = (True, u2)"
  shows "frame_handler_entry c frame number act b u s =
    (True, frame\<lparr>sf_user_rsp := context_at (sf_user_rsp frame) - 8, sf_rcx := sx_handler act,
       sf_rdi := word_of_int number, sf_rax := 0\<rparr>, u2)"
  using assms unfolding frame_handler_entry_def Let_def context_at_def[symmetric] by simp

lemma sample_choice: "deliver_choose sample_signals = (Choice_handler 10 sample_handler, sample_signals\<lparr>sg_pending := 0\<rparr>)"
proof -
  have g: "sg_pending sample_signals = 0x200" "sg_blocked sample_signals = 0" "sg_actions sample_signals ! 9 = sample_handler"
    by (simp_all add: sample_signals_def SignalState_init_def)
  have at: "bit (0x200 :: u64) i \<longleftrightarrow> i = 9" for i using bit_single[of 9 i] by (cases "i = 9") simp_all
  have "runnable sample_signals n \<longleftrightarrow> n = 10" for n
    unfolding runnable_def g at by auto
  then have low: "lowest_runnable sample_signals = 10"
    using lowest_runnable_iff(1)[of sample_signals 10] lowest_runnable_iff(2)[of sample_signals] by blast
  have "take_runnable 10 sample_signals = (sample_handler, sample_signals\<lparr>sg_pending := 0\<rparr>)"
    by (simp add: take_runnable_def g sample_handler_def SigAction_blank_def bit_for_def)
  then show ?thesis
    by (subst deliver_choose.simps) (simp add: low, simp add: sample_handler_def)
qed

lemma sample_delivered:
  "\<exists>frame' u' s'. DeliverPendingSignals 0 0 sample_frame sample_memory (sample_task sample_signals) =
     Some (Delivered True, frame', u', s') \<and> sf_user_rsp frame' = 0x86E8 \<and> (\<forall>a. um_mapped u' a) \<and>
     cur 0 s' = Some 7 \<and> tk_vmas (sc_task s' 7) = Some sample_stack"
proof -
  let ?image = "SigReturnContext_bytes (context_image sample_frame 0)"
  have len: "length ?image = 144" by (simp add: SigReturnContext_bytes_def)
  obtain u1 where u1: "store_bytes 0x86F0 ?image sample_memory = (True, u1)" "\<forall>a. um_mapped u1 a"
    using store_bytes_mapped[of sample_memory "0x86F0" ?image] by (auto simp: sample_memory_def)
  obtain u2 where u2: "store_bytes 0x86E8 (word_bytes SignalTrampolineAddress) u1 = (True, u2)" "\<forall>a. um_mapped u2 a"
    using store_bytes_mapped[of u1 "0x86E8" "word_bytes SignalTrampolineAddress"] u1(2) by blast
  have range: "UserRangeWritable 0x86F0 144" "UserRangeWritable 0x86E8 8"
    by (simp_all add: UserRangeWritable_def UserRangeReadable_def kUserAddressLimit_def)
  have "CopyToUser 0x86F0 ?image sample_memory = (True, u1)"
    by (simp only: CopyToUser_store len range(1) u1(1) of_nat_numeral zero_less_numeral)
  moreover have "CopyToUser 0x86E8 (word_bytes SignalTrampolineAddress) u1 = (True, u2)"
    by (simp only: CopyToUser_store word_bytes_length range(2) u2(1) of_nat_numeral zero_less_numeral)
  moreover have "stack_holds_delivery 0 (sf_user_rsp sample_frame) (sample_task g)" for g
    by (simp add: stack_holds_delivery_def sample_stack_holds sample_frame_def)
  moreover have "sx_flags sample_handler AND kSaRestorer = 0" "sx_handler sample_handler = 0x1000"
    by (simp_all add: sample_handler_def SigAction_blank_def)
  ultimately have entry: "frame_handler_entry 0 sample_frame 10 sample_handler 0 sample_memory (sample_task g) =
      (True, sample_frame\<lparr>sf_user_rsp := 0x86E8, sf_rcx := 0x1000, sf_rdi := 10, sf_rax := 0\<rparr>, u2)" for g
    using frame_handler_entry_make[of 0 sample_frame "sample_task g" 0 sample_memory u1 sample_handler u2 10] sample_context by simp
  have same: "sample_signals\<lparr>sg_wait_restore_pending := False\<rparr> = sample_signals" "sg_blocked sample_signals = 0"
      "\<not> sg_wait_restore_pending sample_signals"
    by (simp_all add: sample_signals_def SignalState_init_def)
  show ?thesis
    using u2(2) by (simp add: DeliverPendingSignals_def Let_def same sample_choice entry)
qed

theorem signal_return_restores_witness:
  "\<exists>frame' u' s'. DeliverPendingSignals 0 0 sample_frame sample_memory (sample_task sample_signals) =
       Some (Delivered True, frame', u', s') \<and>
     HandleRtSigreturn 0 (frame'\<lparr>sf_user_rsp := 0x86F0\<rparr>) u' s' =
       Some (Some 3, sample_frame, on_task 7 (tk_signals_update (sg_blocked_update (\<lambda>_. 0))) s')"
proof -
  obtain frame' u' s' where e: "DeliverPendingSignals 0 0 sample_frame sample_memory (sample_task sample_signals) =
      Some (Delivered True, frame', u', s')" "sf_user_rsp frame' = 0x86E8" "\<forall>a. um_mapped u' a"
      "cur 0 s' = Some 7" "tk_vmas (sc_task s' 7) = Some sample_stack"
    using sample_delivered by blast
  have "return_mask sample_signals = 0" "sf_rax sample_frame = 3"
    by (simp_all add: return_mask_def sample_signals_def SignalState_init_def sample_frame_def)
  then show ?thesis
    using signal_return_restores[OF e(1), where self = 7 and vmas = sample_stack and ?c2.0 = 0 and ?s2.0 = s' and
      later = "frame'\<lparr>sf_user_rsp := 0x86F0\<rparr>" and ?u2.0 = u'] e sample_stack_inv by simp
qed

text \<open>The bytes a delivery changes lie between the return slot and the end of the context.\<close>

lemma frame_changes:
  assumes "frame_handler_entry c frame n act b u s = (True, frame', u')" "um_byte u' a \<noteq> um_byte u a"
  shows "unat (context_at (sf_user_rsp frame)) - 8 \<le> unat a \<and> unat a < unat (context_at (sf_user_rsp frame)) + 144"
proof -
  let ?at = "context_at (sf_user_rsp frame)" and ?image = "SigReturnContext_bytes (context_image frame b)"
  let ?ret = "word_bytes (if sx_flags act AND kSaRestorer \<noteq> 0 then sx_restorer act else SignalTrampolineAddress)"
  obtain u1 where e: "stack_holds_delivery c (sf_user_rsp frame) s" "CopyToUser ?at ?image u = (True, u1)"
      "CopyToUser (?at - 8) ?ret u1 = (True, u')"
    using frame_handler_entry_done[OF assms(1)] by metis
  have len: "length ?image = 144" by (simp add: SigReturnContext_bytes_def)
  then have one: "store_bytes ?at ?image u = (True, u1)" "unat ?at + 144 \<le> unat kUserAddressLimit"
    using CopyToUser_done(1,3)[OF e(2)] by simp_all
  have two: "store_bytes (?at - 8) ?ret u1 = (True, u')" using CopyToUser_done(1)[OF e(3)] by simp
  have lo: "16 \<le> unat ?at" using context_at_bounds(3) e(1) by (simp add: stack_holds_delivery_def)
  have "(\<exists>i<144. a = ?at + of_nat i) \<or> (\<exists>j<8. a = ?at - 8 + of_nat j)"
  proof (rule ccontr)
    assume "\<not> ?thesis"
    then have "\<forall>i<length ?image. a \<noteq> ?at + of_nat i" "\<forall>j<length ?ret. a \<noteq> ?at - 8 + of_nat j"
      unfolding len word_bytes_length by blast+
    then show False using store_bytes_frame(2)[OF one(1), of a] store_bytes_frame(2)[OF two, of a] assms(2) by metis
  qed
  then show ?thesis
  proof (elim disjE exE conjE)
    fix i :: nat assume "i < 144" "a = ?at + of_nat i"
    then show ?thesis using one(2) by (simp add: unat_word_ariths unat_of_nat64 kUserAddressLimit_def)
  next
    fix j :: nat assume "j < 8" "a = ?at - 8 + of_nat j"
    then show ?thesis
      using lo one(2) by (simp add: unat_word_ariths unat_of_nat64 unat_sub word_le_nat_alt kUserAddressLimit_def) linarith
  qed
qed

lemma decides_wait [simp]: "runnable (g\<lparr>sg_wait_restore_pending := b\<rparr>) n = runnable g n"
  "harmless (g\<lparr>sg_wait_restore_pending := b\<rparr>) n = harmless g n" "decides (g\<lparr>sg_wait_restore_pending := b\<rparr>) n = decides g n"
  by (simp_all add: decides_def runnable_def harmless_def)

lemma apply_handler_mask_pending [simp]: "sg_pending (apply_handler_mask act n g) = sg_pending g"
  by (simp add: apply_handler_mask_def Let_def)

text \<open>
  C16. A delivery enters the handler of the lowest signal that is pending, not held back and not
  one that is dropped; the signal leaves the pending set and the later ones stay. The stack pointer
  is eight above a multiple of sixteen, and every byte that changes lies in the registered stack,
  below the red zone of the interrupted function.
\<close>

theorem signal_delivery_frame:
  assumes "DeliverPendingSignals c d frame u s = Some (Delivered True, frame', u', s')"
    and "cur c s = Some self" "tk_vmas (sc_task s self) = Some vmas" "vma_inv vmas"
  shows "(\<exists>n. decides (signals_of s self) n \<and> sf_rdi frame' = word_of_int n \<and>
      sf_rcx frame' = sx_handler (sg_actions (signals_of s self) ! nat (n - 1)) \<and>
      \<not> bit (sg_pending (signals_of s' self)) (nat (n - 1)) \<and>
      (\<forall>m>n. bit (sg_pending (signals_of s' self)) (nat (m - 1)) = bit (sg_pending (signals_of s self)) (nat (m - 1)))) \<and>
    unat (sf_user_rsp frame') mod 16 = 8 \<and>
    (\<forall>a. um_byte u' a \<noteq> um_byte u a \<longrightarrow> stack_byte vmas a \<and> unat a + 128 < unat (sf_user_rsp frame))"
proof -
  let ?rsp = "sf_user_rsp frame"
  obtain n act g1 where ch: "deliver_choose ((signals_of s self)\<lparr>sg_wait_restore_pending := False\<rparr>) = (Choice_handler n act, g1)"
    and entry: "frame_handler_entry c frame n act (return_mask (signals_of s self)) u
      (on_task self (tk_signals_update (\<lambda>_. g1)) s) = (True, frame', u')"
    and s': "s' = on_task self (tk_signals_update (\<lambda>_. apply_handler_mask act n g1)) s"
    by (rule delivered_handler[OF assms(1,2)])
  have e: "stack_holds_delivery c ?rsp (on_task self (tk_signals_update (\<lambda>_. g1)) s)"
      "frame' = frame\<lparr>sf_user_rsp := context_at ?rsp - 8, sf_rcx := sx_handler act, sf_rdi := word_of_int n, sf_rax := 0\<rparr>"
    by (rule frame_handler_entry_done[OF entry]; simp)+
  have stack: "?rsp \<ge> kDeliveryBytes" "VmaStore_stack_contains (?rsp - kDeliveryBytes) kDeliveryBytes vmas"
      "unat (?rsp - kDeliveryBytes) = unat ?rsp - 295"
    using stack_holds_deliveryD[OF e(1), of self vmas] assms(2,3) by (simp_all add: on_task_def)
  note at = context_at_bounds[OF stack(1)]
  have "unat (context_at ?rsp - 8) = unat (context_at ?rsp) - 8" using at(3) by (simp add: unat_sub word_le_nat_alt)
  moreover have "(k - 8) mod 16 = 8" if "16 \<le> k" "k mod 16 = 0" for k :: nat
  proof -
    have "k - 8 = 8 + 16 * (k div 16 - 1)" using that div_mult_mod_eq[of k 16] by linarith
    then show ?thesis by simp
  qed
  ultimately have align: "unat (sf_user_rsp frame') mod 16 = 8" using at(3,4) e(2) by simp
  have "stack_byte vmas a \<and> unat a + 128 < unat ?rsp" if "um_byte u' a \<noteq> um_byte u a" for a
  proof -
    have a: "unat ?rsp - 295 \<le> unat a" "unat a + 128 < unat ?rsp" using frame_changes[OF entry that] at(1,2,3) by linarith+
    have "stack_walk (?rsp - kDeliveryBytes) ?rsp vmas" using stack(2) by (simp add: VmaStore_stack_contains_def split: if_splits)
    moreover have "in_span (?rsp - kDeliveryBytes) ?rsp a"
      using a stack(3) by (simp add: in_span_def word_le_nat_alt word_less_nat_alt)
    ultimately show ?thesis using a(2) stack_walk_iff[OF assms(4)] by blast
  qed
  moreover have "choice_ok ((signals_of s self)\<lparr>sg_wait_restore_pending := False\<rparr>) (Choice_handler n act) g1"
    by (rule deliver_choose_ok[OF ch])
  then have "decides (signals_of s self) n" "act = sg_actions (signals_of s self) ! nat (n - 1)"
      "\<not> bit (sg_pending g1) (nat (n - 1))"
      "\<forall>m>n. bit (sg_pending g1) (nat (m - 1)) = bit (sg_pending (signals_of s self)) (nat (m - 1))"
    by (simp_all add: choice_ok_def)
  moreover have "sg_pending (signals_of s' self) = sg_pending g1" by (simp add: s' on_task_def)
  moreover have "sf_rdi frame' = word_of_int n" "sf_rcx frame' = sx_handler act" by (simp_all add: e(2))
  ultimately show ?thesis using align by auto
qed

theorem signal_delivery_frame_witness:
  "\<exists>frame' u' s'. DeliverPendingSignals 0 0 sample_frame sample_memory (sample_task sample_signals) =
       Some (Delivered True, frame', u', s') \<and> unat (sf_user_rsp frame') mod 16 = 8 \<and> um_byte u' 0x8800 = 0"
proof -
  obtain frame' u' s' where e: "DeliverPendingSignals 0 0 sample_frame sample_memory (sample_task sample_signals) =
      Some (Delivered True, frame', u', s')"
    using sample_delivered by blast
  note frame = signal_delivery_frame[OF e, where self = 7 and vmas = sample_stack, simplified, OF sample_stack_inv]
  have "um_byte sample_memory 0x8800 = 0" "unat (sf_user_rsp sample_frame) = 0x8800"
    by (simp_all add: sample_memory_def sample_frame_def)
  then have "um_byte u' 0x8800 = 0"
    using conjunct2[OF conjunct2[OF frame], rule_format, of "0x8800"] by (cases "um_byte u' 0x8800 = 0") simp_all
  with e frame show ?thesis by blast
qed

section \<open>Kill and stop\<close>

text \<open>No mask holds back kill or stop, and both keep their default action.\<close>

definition unmaskable :: "SignalState \<Rightarrow> bool" where
  "unmaskable g \<longleftrightarrow> (\<forall>i\<in>{8, 18}. \<not> bit (sg_blocked g) i \<and> \<not> bit (sg_wait_restore g) i \<and>
     sx_handler (sg_actions g ! i) = kSignalDefault)"

lemma blank_keeps_default:
  "sx_handler (acts ! i) = kSignalDefault \<Longrightarrow> sx_handler (acts[j := SigAction_blank] ! i) = kSignalDefault"
  by (cases "j < length acts"; cases "i = j") (simp_all add: SigAction_blank_def list_update_beyond)

lemma deliver_choose_actions:
  assumes "deliver_choose g = (choice, g')"
  shows "sg_wait_restore g' = sg_wait_restore g \<and> (sx_handler (sg_actions g ! i) = kSignalDefault \<longrightarrow>
    sx_handler (sg_actions g' ! i) = kSignalDefault)"
  using assms
proof (induction g rule: deliver_choose.induct)
  case (1 g)
  obtain act g1 where t: "take_runnable (lowest_runnable g) g = (act, g1)" by fastforce
  have g1: "sg_wait_restore g1 = sg_wait_restore g" "sx_handler (sg_actions g ! i) = kSignalDefault \<Longrightarrow>
      sx_handler (sg_actions g1 ! i) = kSignalDefault"
    using t by (auto simp: take_runnable_def Let_def intro: blank_keeps_default split: if_splits)
  have "g' = g \<or> g' = g1 \<or> deliver_choose g1 = (choice, g') \<and> (sx_handler act = kSignalIgnore \<or>
      sx_handler act = kSignalDefault \<and> DefaultDisposition (lowest_runnable g) \<noteq> Disposition_kTerminate \<and>
      DefaultDisposition (lowest_runnable g) \<noteq> Disposition_kStop) \<and> lowest_runnable g \<noteq> 0"
    using 1(3) t by (subst (asm) deliver_choose.simps) (auto simp: Let_def split: if_splits)
  then show ?case using g1 1(1,2)[OF refl _ t[symmetric] refl] by fastforce
qed

lemma mask_applied_unmaskable:
  assumes "i \<in> {8, 18}" "\<not> bit blocked i" "wanted = MaskableSignals w"
  shows "\<not> bit (mask_applied how wanted blocked) i"
  using assms by (auto simp: mask_applied_def MaskableSignals_bits bit_or_iff bit_and_iff bit_not_iff)

lemma wanted_mask_maskable: "wanted_mask frame u = Inr (Some w) \<Longrightarrow> \<exists>v. w = MaskableSignals v"
  by (auto simp: wanted_mask_def split: if_splits option.splits)

lemma handler_mask_unmaskable:
  assumes "unmaskable g" "decides g n" "sx_handler (sg_actions g ! nat (n - 1)) \<noteq> kSignalDefault"
    "sg_blocked g1 = sg_blocked g" "i \<in> {8, 18}"
  shows "\<not> bit (sg_blocked (apply_handler_mask act n g1)) i"
proof -
  have "nat (n - 1) \<noteq> i" using assms(1,3,5) by (auto simp: unmaskable_def)
  moreover have "\<not> bit (bit_for n) i \<longleftrightarrow> nat (n - 1) \<noteq> i \<or> 64 \<le> i" unfolding bit_for_def bit_single by auto
  ultimately show ?thesis
    using assms(5) by (auto simp: apply_handler_mask_def Let_def MaskableSignals_bits bit_or_iff)
qed

lemma sigprocmask_unmaskable:
  assumes "cur c s = Some self" "unmaskable (signals_of s self)" "HandleRtSigprocmask c frame u s = Some (r2, u2, s2)"
  shows "unmaskable (signals_of s2 self)"
proof -
  from assms(1,3) consider "s2 = s" | w where "wanted_mask frame u = Inr (Some w)"
      "s2 = on_task self (tk_signals_update (sg_blocked_update (mask_applied (sf_rdi frame) w))) s"
    by (auto simp: HandleRtSigprocmask_def Let_def split: if_splits sum.splits option.splits prod.splits)
  then show ?thesis
  proof cases
    case 2
    obtain v where "w = MaskableSignals v" using wanted_mask_maskable[OF 2(1)] by blast
    then show ?thesis using assms(2) mask_applied_unmaskable by (simp add: 2(2) unmaskable_def on_task_def)
  qed (use assms in simp)
qed

lemma deliver_unmaskable:
  assumes "cur c s = Some self" "unmaskable (signals_of s self)"
    and e: "DeliverPendingSignals c d frame u s = Some (Delivered b, frame3, u3, s3)"
  shows "unmaskable (signals_of s3 self) \<and> (bit (sg_pending (signals_of s self)) 8 \<longrightarrow> b)"
proof -
  let ?g = "signals_of s self"
  obtain choice g1 where ch: "deliver_choose (?g\<lparr>sg_wait_restore_pending := False\<rparr>) = (choice, g1)" by fastforce
  note ok = deliver_choose_ok[OF ch]
  have keep: "sg_wait_restore g1 = sg_wait_restore ?g"
      "sx_handler (sg_actions ?g ! i) = kSignalDefault \<Longrightarrow> sx_handler (sg_actions g1 ! i) = kSignalDefault" for i
    using deliver_choose_actions[OF ch, of i] by simp_all
  show ?thesis
  proof (cases b)
    case True
    obtain n act g2 where "deliver_choose (?g\<lparr>sg_wait_restore_pending := False\<rparr>) = (Choice_handler n act, g2)"
      and s3: "s3 = on_task self (tk_signals_update (\<lambda>_. apply_handler_mask act n g2)) s"
      using delivered_handler[of c d frame u s frame3 u3 s3 self] e True assms(1) by metis
    with ch have eq: "choice = Choice_handler n act" "g2 = g1" by simp_all
    have "\<not> bit (sg_blocked (apply_handler_mask act n g1)) i" if "i \<in> {8, 18}" for i
    proof (rule handler_mask_unmaskable[OF assms(2) _ _ _ that])
      show "decides ?g n" "sg_blocked g1 = sg_blocked ?g" "sx_handler (sg_actions ?g ! nat (n - 1)) \<noteq> kSignalDefault"
        using ok eq by (auto simp: choice_ok_def)
    qed
    then show ?thesis
      using assms(2) keep True eq by (simp add: s3 on_task_def unmaskable_def apply_handler_mask_def Let_def)
  next
    case False
    then have "choice = Choice_none" "s3 = deliver_rest self (return_mask ?g) (on_task self (tk_signals_update (\<lambda>_. g1)) s)"
      using e assms(1) ch by (auto simp: DeliverPendingSignals_def Let_def return_mask_def split: SignalChoice.splits prod.splits if_splits)
    moreover have "\<not> bit (sg_pending ?g) 8"
    proof
      assume "bit (sg_pending ?g) 8"
      then have "runnable ?g 9" "\<not> harmless ?g 9"
        using assms(2) by (simp_all add: runnable_def harmless_def unmaskable_def DefaultDisposition_def)
      then show False using ok \<open>choice = Choice_none\<close> by (auto simp: choice_ok_def)
    qed
    ultimately show ?thesis
      using assms(2) keep by (simp add: deliver_rest_def on_task_def unmaskable_def return_mask_def)
  qed
qed

text \<open>
  C17. Kill and stop stay deliverable through the calls that install actions, change the mask or
  deliver: none of them lets a mask hold them back or gives them a handler. A delivery with a kill
  pending never just returns to the task.
\<close>

theorem signal_kill_stays_open:
  assumes "cur c s = Some self" "unmaskable (signals_of s self)"
  shows "(HandleRtSigaction c frame u s = Some (r1, u1, s1) \<longrightarrow> unmaskable (signals_of s1 self)) \<and>
    (HandleRtSigprocmask c frame u s = Some (r2, u2, s2) \<longrightarrow> unmaskable (signals_of s2 self)) \<and>
    (DeliverPendingSignals c d frame u s = Some (Delivered b, frame3, u3, s3) \<longrightarrow> unmaskable (signals_of s3 self)) \<and>
    (bit (sg_pending (signals_of s self)) 8 \<longrightarrow> DeliverPendingSignals c d frame u s \<noteq> Some (Delivered False, frame4, u4, s4))"
proof -
  have "unmaskable (signals_of s1 self)" if "HandleRtSigaction c frame u s = Some (r1, u1, s1)"
    using that assms
    by (auto simp: HandleRtSigaction_def Let_def unmaskable_def on_task_def SignalCatchable_def nth_list_update
        split: if_splits sum.splits option.splits prod.splits)
  then show ?thesis using sigprocmask_unmaskable[OF assms] deliver_unmaskable[OF assms] by blast
qed

lemma sample_unmaskable: "unmaskable (SignalState_init\<lparr>sg_pending := p\<rparr>)"
  by (simp add: unmaskable_def SignalState_init_def SigAction_blank_def)

theorem signal_kill_stays_open_witness:
  "DeliverPendingSignals 0 0 sample_frame sample_memory (sample_task (SignalState_init\<lparr>sg_pending := 0x100\<rparr>)) \<noteq>
     Some (Delivered False, sample_frame, sample_memory, sample_task SignalState_init)"
proof -
  have "bit (0x100 :: u64) 8" by simp
  then show ?thesis
    using signal_kill_stays_open[where c = 0 and s = "sample_task (SignalState_init\<lparr>sg_pending := 0x100\<rparr>)" and self = 7] sample_unmaskable by simp
qed

text \<open>A context on the stack whose saved mask has the bit of kill, all other bytes zero.\<close>

definition forged_memory :: UserMemory where
  "forged_memory = sample_memory\<lparr>um_byte := (\<lambda>_. 0)(0x8081 := 1)\<rparr>"

definition forged_frame :: SyscallFrame where
  "forged_frame = sample_frame\<lparr>sf_user_rsp := 0x8000\<rparr>"

lemma forged_image:
  "\<exists>bytes. CopyFromUser 0x8000 144 forged_memory = Some bytes \<and> sr_old_blocked (SigReturnContext_of bytes) = 0x100"
proof -
  let ?bytes = "map (\<lambda>i. um_byte forged_memory (0x8000 + of_nat i)) [0..<144]"
  have "load_bytes 0x8000 144 forged_memory = Some ?bytes"
    by (rule load_bytes_all) (simp add: forged_memory_def sample_memory_def)
  moreover have "UserRangeReadable 0x8000 144" by (simp add: UserRangeReadable_def kUserAddressLimit_def)
  ultimately have "CopyFromUser 0x8000 144 forged_memory = Some ?bytes" by (simp add: CopyFromUser_def)
  moreover have "bytes_word ?bytes 16 = 0x100"
    by (simp add: bytes_word_def ReadWord64_def ReadWord32_def forged_memory_def del: upt_rec_numeral)
  ultimately show ?thesis by (auto simp: SigReturnContext_of_def)
qed

text \<open>
  C33. The return call takes the saved mask from user memory as it stands. A task that forges a
  context on its own stack holds back kill: the kill sent afterwards is pending, and the delivery
  returns to the task, which keeps running.
\<close>

theorem signal_return_blocks_kill:
  "\<exists>v frame1 s1 s2 s3.
     unmaskable (signals_of (sample_task SignalState_init) 7) \<and>
     HandleRtSigreturn 0 forged_frame forged_memory (sample_task SignalState_init) = Some (Some v, frame1, s1) \<and>
     SendSignal 1 7 kSigKill s1 = Some (True, s2) \<and> bit (sg_pending (signals_of s2 7)) 8 \<and>
     DeliverPendingSignals 0 0 frame1 forged_memory s2 = Some (Delivered False, frame1, forged_memory, s3) \<and>
     tk_state (sc_task s3 7) = kRunning"
proof -
  obtain bytes where b: "CopyFromUser 0x8000 144 forged_memory = Some bytes" "sr_old_blocked (SigReturnContext_of bytes) = 0x100"
    using forged_image by blast
  let ?g1 = "SignalState_init\<lparr>sg_blocked := 0x100\<rparr>" and ?g2 = "SignalState_init\<lparr>sg_blocked := 0x100, sg_pending := 0x100\<rparr>"
  let ?f = "frame_of_context (SigReturnContext_of bytes)"
  have "in_stack_window 0 0x8000 kContextBytes (sample_task g)" for g
    by (simp add: in_stack_window_def sample_stack_holds)
  then have ret: "HandleRtSigreturn 0 forged_frame forged_memory (sample_task SignalState_init) =
      Some (Some (sr_rax (SigReturnContext_of bytes)), ?f, sample_task ?g1)"
    using b by (simp add: HandleRtSigreturn_def forged_frame_def Let_def)
  have state: "tk_state (sc_task (sample_task g) 7) = kRunning" for g by (simp add: sample_task_def)
  have "sg_actions SignalState_init ! 8 = SigAction_blank" by (simp add: SignalState_init_def)
  then have send: "SendSignal 1 7 kSigKill (sample_task ?g1) = Some (True, sample_task ?g2)"
    by (simp add: SendSignal_def Let_def state bit_for_def SigAction_blank_def SignalState_init_def)
  have "\<not> runnable ?g2 n" for n by (simp add: runnable_def)
  then have "lowest_runnable ?g2 = 0" using lowest_runnable_iff(2) by blast
  then have "deliver_choose ?g2 = (Choice_none, ?g2)" by (subst deliver_choose.simps) simp
  moreover have "?g2\<lparr>sg_wait_restore_pending := False\<rparr> = ?g2" by (simp add: SignalState_init_def)
  ultimately have del: "DeliverPendingSignals 0 0 ?f forged_memory (sample_task ?g2) =
      Some (Delivered False, ?f, forged_memory, sample_task ?g2)"
    by (simp add: DeliverPendingSignals_def Let_def deliver_rest_def SignalState_init_def)
  have "unmaskable SignalState_init" using sample_unmaskable[of 0] by (simp add: SignalState_init_def)
  then show ?thesis
    using ret send del state by (intro exI[of _ "sr_rax (SigReturnContext_of bytes)"] exI[of _ ?f] exI[of _ "sample_task ?g1"]
      exI[of _ "sample_task ?g2"]) simp
qed

end
