(* ===== verification/Spec2Isabelle.thy ===== *)
theory Spec2Isabelle
  imports Pmm Lockdep Vma_Contract Internet_Delivery Tcp_Bounds Signal_Frames
begin

text \<open>
  \<^bold>\<open>Verification development for Cinux\<close>, an x86_64 operating system kernel in C++.

  \<^bold>\<open>The program.\<close> The kernel has a base library (\<^verbatim>\<open>base/include/cinux\<close>: error results, containers, bit
  maps, byte order, checksums) and, on top of it, memory management (\<^verbatim>\<open>kernel/mm\<close>), processes and
  synchronisation (\<^verbatim>\<open>kernel/proc\<close>), a network stack (\<^verbatim>\<open>kernel/net\<close>, \<^verbatim>\<open>kernel/time\<close>), file systems,
  drivers, system calls and user programs. The development models the parts whose meaning is in
  the source and not in the hardware. They interact as follows: the page ledger hands out the
  frames everything else lives in; the range register says which addresses of a task are its own;
  the scheduler moves tasks between ready rows and processors, and the blocking locks, the futex
  table and the signals stop and wake tasks through it; signal delivery asks the range register
  whether the user stack holds its frame; the network modules hand datagrams to each other, TCP
  arms the timer table, and every spin lock reports to the lock-order checker.

  \<^bold>\<open>Conventions.\<close> Machine integers are words of their width, so \<open>+\<close> wraps; indices, counts and object
  addresses whose bound the source guarantees are \<open>nat\<close>. A class is a record, an enumeration a
  datatype, a method \<open>Class_method\<close>. \<^verbatim>\<open>Result<T>\<close> is a sum with the error on the left;
  \<^verbatim>\<open>safety::Check\<close> is \<open>Check\<close>, whose \<open>None\<close> is the halted machine, and \<open>None\<close> also stands for a null
  dereference and for a loop that does not end. A section guarded by a spin lock or by masked
  interrupts is one atomic function. A call that leaves the model (a device sink, a callback, an
  interprocessor notice) is an event recorded in call order; what comes in from outside the source
  (answers of \<^verbatim>\<open>new\<close>, a user word, the bytes of user memory) is an argument.

  \<^bold>\<open>Theories.\<close>

  \<^item> \<open>Prelude\<close>, \<open>Words\<close>: types, errors, list lemmas; \<^verbatim>\<open>math.hpp\<close>, \<^verbatim>\<open>bitmask.hpp\<close>.
  \<^item> \<open>Containers\<close>: \<^verbatim>\<open>ring_queue.hpp\<close>, \<^verbatim>\<open>slot_table.hpp\<close>, \<^verbatim>\<open>static_stack.hpp\<close> with the contracts
    \<open>bounded_fifo\<close>, \<open>slot_map\<close> and \<open>bounded_lifo\<close>, each interpreted on the model. A ring queue is a FIFO list,
    a slot table reuses its lowest free slot.
  \<^item> \<open>Bitmap\<close>, \<open>Pmm\<close>: \<^verbatim>\<open>bitmap.hpp\<close>, \<^verbatim>\<open>kernel/mm/pmm.cpp\<close>, the contract \<open>frame_allocator\<close>. Allocation is first
    fit on the free set, free undoes it, grants never overlap, and \<^verbatim>\<open>init\<close> frees what the firmware
    list says.
  \<^item> \<open>Digraph\<close>, \<open>Lockdep\<close>: \<^verbatim>\<open>directed_graph.hpp\<close>, \<^verbatim>\<open>kernel/proc/lockdep.cpp\<close>. The search ends and decides
    reachability; an accepted history of acquisitions has no inversion of order.
  \<^item> \<open>Vma\<close>, \<open>Vma_Walks\<close>, \<open>Vma_Contract\<close>: \<^verbatim>\<open>kernel/mm/vma.cpp\<close> and the fixed path of \<^verbatim>\<open>sys_mmap.cpp\<close>. The
    register is a partial function from addresses to promises (\<open>vma_view\<close>, contract \<open>promise_map\<close>), and
    every operation changes exactly the bytes it names.
  \<^item> \<open>Bytes\<close>, \<open>NetLayout\<close>, \<open>Internet\<close>, \<open>Internet_Facts\<close>, \<open>Internet_Delivery\<close>: \<^verbatim>\<open>byte_order.hpp\<close>, \<^verbatim>\<open>checksum.hpp\<close>,
    \<^verbatim>\<open>net_layout.cpp\<close>, \<^verbatim>\<open>arp.cpp\<close>, \<^verbatim>\<open>ipv4.cpp\<close>, \<^verbatim>\<open>icmp.cpp\<close>, \<^verbatim>\<open>udp.cpp\<close>, \<^verbatim>\<open>raw.cpp\<close>. Headers round-trip,
    sealed packets verify, and a datagram sent by one module reaches the listener bound at another.
  \<^item> \<open>TimerTable\<close>: \<^verbatim>\<open>kernel/time/timer_table.cpp\<close> and the contract \<open>ticket_table\<close> it shares with TCP: a ticket
    that died never names a live seat again.
  \<^item> \<open>Tcp\<close> and \<open>Tcp_Frame\<close>, \<open>Tcp_Wire\<close>, \<open>Tcp_Stream\<close>, \<open>Tcp_Run\<close>, \<open>Tcp_Trace\<close>, \<open>Tcp_Types\<close>, \<open>Tcp_Bounds\<close>:
    \<^verbatim>\<open>kernel/net/tcp.cpp\<close> with every public operation. Over all runs, the bytes a connection hands up are a
    piece of the peer's stream in order, the tables keep their shape, and windows, counters and
    retransmission times keep their bounds.
  \<^item> \<open>SchedClass\<close>, \<open>Tasks\<close>, \<open>Sched\<close>, \<open>Sched_Life\<close>: \<^verbatim>\<open>sched_class.cpp\<close>, \<^verbatim>\<open>task.hpp\<close>, \<^verbatim>\<open>scheduler.cpp\<close>,
    \<^verbatim>\<open>task_runtime.cpp\<close>, \<^verbatim>\<open>context_switch.S\<close>, the completions of \<^verbatim>\<open>sync.cpp\<close>, \<^verbatim>\<open>futex.cpp\<close> and the sending half
    of \<^verbatim>\<open>signals.cpp\<close>. The record \<open>Scheduler\<close> is the whole process world; both classes satisfy the
    contract \<open>ready_row\<close>.
  \<^item> \<open>Sched_Smp\<close>, \<open>Sched_Safety\<close>: any number of processors that interleave at the guarded sections
    (\<open>smp_step\<close>). In every reachable state a stack is in use by one processor at most, reclaimed tasks
    are gone for good, and a task is ready exactly when it stands once in a row. A last theorem shows
    a reachable state in which a rotation halts the machine.
  \<^item> \<open>Sync\<close>: mutexes and semaphores of \<^verbatim>\<open>sync.cpp\<close> over the scheduler. A mutex serves its callers in order;
    with a full row its hand-over is lost. A futex wake takes exactly the tasks it names.
  \<^item> \<open>Signals\<close>, \<open>Signal_Frames\<close>: delivery, the signal system calls and the user copies of \<^verbatim>\<open>uaccess.cpp\<close>.
    The return call undoes a delivery, a delivery writes only stack below the red zone, kill and stop
    stay open under every call but the return call, for which a counterexample is given.

  \<^bold>\<open>Loops and fuel.\<close> Loops are structural recursion over the list they walk, or \<^theory_text>\<open>function\<close> with a
  termination proof (the checksum fold, the stack walk, the free-spot search, the delivery loop, whose
  pending set shrinks). Two loops carry fuel: \<open>reap_retired\<close>, one turn more than the list is long and
  each turn removes an entry; and the graph search, a \<^theory_text>\<open>partial_function\<close> proved to answer. A loop that
  waits for other processors (\<^verbatim>\<open>wait_child\<close>, \<^verbatim>\<open>run_until_done\<close>) is modelled by its turn, which the machine of
  \<open>Sched_Smp\<close> repeats.

  \<^bold>\<open>Not modelled.\<close> The boot loader, the architecture layer, the device drivers: assembly and register
  programming whose meaning is the hardware's. Page tables and fault handling: their effect on user
  memory appears as the field \<open>um_mapped\<close>. The spin lock itself: it is the atomicity of a guarded section,
  and its ledger is \<open>Lockdep\<close>. Process creation, the virtual file system, the file systems, the block
  layer, sockets, the program loader, terminals, the remaining system calls and the user programs: they
  are further components over the ones here and have no model yet. In the scheduler, register images, page roots and
  segment bases of a switch; in signals, the mapping of the trampoline page and the waiting loop of
  \<^verbatim>\<open>rt_sigtimedwait\<close>.
\<close>

end
